(* ===== verification/Prelude.thy ===== *)
theory Prelude
  imports Complex_Main "HOL-Library.Word" "HOL-Library.Signed_Division"
begin

text \<open>
  Shared vocabulary of the development: the machine integer types of the C code, the faults
  a C function can end in, the result type that carries them, the two counting loops of the
  sources as combinators, and the generic lemmas on integers, words and bits that the
  component theories share.
\<close>

unbundle bit_operations_syntax

named_theorems mpz_simps "what each GMP operation computes"
named_theorems lbits_simps "length and bits of each large bitvector operation"

section \<open>Machine integers\<close>

text \<open>
  \<open>uint64_t\<close>, \<open>mp_bitcnt_t\<close>, \<open>fbits\<close> and \<open>int64_t\<close> are all 64-bit words; the C operators
  that depend on signedness read them with \<open>unat\<close>/\<open>uint\<close> or \<open>sint\<close>. A C \<open>int\<close> is modelled by
  \<open>int\<close> with its range checked where the code can leave it.
\<close>

type_synonym u8 = "8 word"
type_synonym u16 = "16 word"
type_synonym u32 = "32 word"
type_synonym u64 = "64 word"
type_synonym i64 = "64 word"

abbreviation uint64_max :: u64 where
  "uint64_max \<equiv> -1"

abbreviation int_max :: int where
  "int_max \<equiv> 2147483647"

section \<open>Faults and results\<close>

text \<open>
  How a call can fail to return normally: undefined behaviour of C, a failed \<open>assert\<close>, the
  abort GMP raises on a division by zero or a square root of a negative number, an access outside
  of the memory that was allocated, the use of a byte that was allocated but never written, a read past the
  end of the data in a buffer (with the end of the read, since the buffer may be longer than the data), \<open>exit\<close> with its status and the line the code prints just before it (on \<open>stderr\<close>
  for a failure), or a loop that never ends.
\<close>

datatype fault =
    Undefined_behaviour
  | Assertion_failed
  | Gmp_abort
  | Out_of_bounds
  | Uninitialised
  | Past_data nat
  | Exit_failure string
  | Exit_success string
  | No_return

type_synonym 'a res = "fault + 'a"

definition bind_res :: "'a res \<Rightarrow> ('a \<Rightarrow> 'b res) \<Rightarrow> 'b res" where
  "bind_res r f = (case r of Inl e \<Rightarrow> Inl e | Inr x \<Rightarrow> f x)"

definition check :: "bool \<Rightarrow> fault \<Rightarrow> 'a res \<Rightarrow> 'a res" where
  "check b e r = (if b then r else Inl e)"

definition of_option :: "fault \<Rightarrow> 'a option \<Rightarrow> 'a res" where
  "of_option e x = (case x of None \<Rightarrow> Inl e | Some y \<Rightarrow> Inr y)"

lemma bind_res_simps [simp]:
  "bind_res (Inl e) f = Inl e" "bind_res (Inr x) f = f x"
  by (simp_all add: bind_res_def)

lemma bind_res_Inr_iff: "bind_res r f = Inr y \<longleftrightarrow> (\<exists>x. r = Inr x \<and> f x = Inr y)"
  by (cases r) auto

lemma check_simps [simp]:
  "check True e r = r" "check False e r = Inl e"
  by (simp_all add: check_def)

lemma check_Inr_iff [simp]: "check b e r = Inr x \<longleftrightarrow> b \<and> r = Inr x"
  by (simp add: check_def)

lemma of_option_simps [simp]:
  "of_option e None = Inl e" "of_option e (Some x) = Inr x"
  by (simp_all add: of_option_def)

text \<open>The program ends by \<open>exit(EXIT_FAILURE)\<close>.\<close>

definition exits :: "'a res \<Rightarrow> bool" where
  "exits r = (case r of Inl (Exit_failure m) \<Rightarrow> True | _ \<Rightarrow> False)"

lemma exits_simps [simp]:
  "exits (Inl (Exit_failure m))" "\<not> exits (Inr x)"
  "\<not> exits (Inl Undefined_behaviour)" "\<not> exits (Inl Out_of_bounds)" "\<not> exits (Inl Uninitialised)" "\<not> exits (Inl (Past_data n))" "\<not> exits (Inl No_return)"
  by (simp_all add: exits_def)

lemma exits_bind [simp]: "exits r \<Longrightarrow> exits (bind_res r f)"
  by (auto simp: exits_def split: sum.splits fault.splits)

section \<open>Counting loops\<close>

text \<open>
  \<open>for_up i n body s\<close> is \<open>for (; i < n; ++i) s = body i s\<close>, and \<open>for_down n body s\<close> is
  \<open>for (i = n; i > 0; --i) s = body i s\<close>.
\<close>

function for_up :: "nat \<Rightarrow> nat \<Rightarrow> (nat \<Rightarrow> 's \<Rightarrow> 's) \<Rightarrow> 's \<Rightarrow> 's" where
  "for_up i n body s = (if i < n then for_up (Suc i) n body (body i s) else s)"
  by pat_completeness auto
termination
  by (relation "measure (\<lambda>(i, n, _, _). n - i)") auto

declare for_up.simps [simp del]

fun for_down :: "nat \<Rightarrow> (nat \<Rightarrow> 's \<Rightarrow> 's) \<Rightarrow> 's \<Rightarrow> 's" where
  "for_down 0 body s = s"
| "for_down (Suc i) body s = for_down i body (body (Suc i) s)"

lemma for_up_ge [simp]: "n \<le> i \<Longrightarrow> for_up i n body s = s"
  by (simp add: for_up.simps)

lemma for_up_step: "i < n \<Longrightarrow> for_up i n body s = for_up (Suc i) n body (body i s)"
  by (simp add: for_up.simps)

lemma for_up_fold: "for_up i n body s = fold body [i..<n] s"
proof (induction i n body s rule: for_up.induct)
  case (1 i n body s)
  then show ?case
    by (cases "i < n") (simp_all add: for_up_step upt_conv_Cons)
qed

lemma for_up_Suc: "i \<le> n \<Longrightarrow> for_up i (Suc n) body s = body n (for_up i n body s)"
  by (simp add: for_up_fold)

lemma for_up_code [code]: "for_up i n body s = fold body [i..<n] s"
  by (rule for_up_fold)

text \<open>The invariant rule of the upward loop.\<close>

lemma for_up_induct:
  assumes "i \<le> n" and "P i s"
    and "\<And>j t. \<lbrakk>i \<le> j; j < n; P j t\<rbrakk> \<Longrightarrow> P (Suc j) (body j t)"
  shows "P n (for_up i n body s)"
  using assms
proof (induction "n - i" arbitrary: i s)
  case 0
  then show ?case by simp
next
  case (Suc d)
  then have "i < n" by simp
  have "P n (for_up (Suc i) n body (body i s))"
    using Suc.hyps(2) Suc.prems \<open>i < n\<close> by (intro Suc.hyps(1)) auto
  with \<open>i < n\<close> show ?case by (simp add: for_up_step)
qed

lemma for_up_skip: "for_up i n (\<lambda>i z. z) x = x"
  by (induction i n "\<lambda>(i::nat) (z::'a). z" x rule: for_up.induct) (simp add: for_up.simps)

lemma for_up_cong:
  assumes "\<And>j t. i \<le> j \<Longrightarrow> j < n \<Longrightarrow> f j t = g j t"
  shows "for_up i n f s = for_up i n g s"
  unfolding for_up_fold using assms by (intro fold_cong) auto

text \<open>The same loops when the body can fail: the first fault ends the loop.\<close>

function for_up_res :: "nat \<Rightarrow> nat \<Rightarrow> (nat \<Rightarrow> 's \<Rightarrow> 's res) \<Rightarrow> 's \<Rightarrow> 's res" where
  "for_up_res i n body s = (if i < n then bind_res (body i s) (for_up_res (Suc i) n body) else Inr s)"
  by pat_completeness auto
termination
  by (relation "measure (\<lambda>(i, n, _, _). n - i)") auto

declare for_up_res.simps [simp del]

fun for_down_res :: "nat \<Rightarrow> (nat \<Rightarrow> 's \<Rightarrow> 's res) \<Rightarrow> 's \<Rightarrow> 's res" where
  "for_down_res 0 body s = Inr s"
| "for_down_res (Suc i) body s = bind_res (body (Suc i) s) (for_down_res i body)"

lemma for_up_res_ge [simp]: "n \<le> i \<Longrightarrow> for_up_res i n body s = Inr s"
  by (simp add: for_up_res.simps)

lemma for_up_res_step: "i < n \<Longrightarrow> for_up_res i n body s = bind_res (body i s) (for_up_res (Suc i) n body)"
  by (simp add: for_up_res.simps)

lemma for_up_res_induct:
  assumes "i \<le> n" and "P i s"
    and "\<And>j t. \<lbrakk>i \<le> j; j < n; P j t\<rbrakk> \<Longrightarrow> \<exists>t'. body j t = Inr t' \<and> P (Suc j) t'"
  shows "\<exists>t. for_up_res i n body s = Inr t \<and> P n t"
  using assms
proof (induction "n - i" arbitrary: i s)
  case 0
  then show ?case by simp
next
  case (Suc d)
  then have "i < n" by simp
  then obtain t' where t': "body i s = Inr t'" "P (Suc i) t'"
    using Suc.prems by blast
  have "\<exists>t. for_up_res (Suc i) n body t' = Inr t \<and> P n t"
    using Suc.hyps(2) Suc.prems t' \<open>i < n\<close> by (intro Suc.hyps(1)) auto
  with \<open>i < n\<close> t'(1) show ?case by (simp add: for_up_res_step)
qed

lemma for_down_res_induct:
  assumes "P n s" and "\<And>j t. \<lbrakk>j < n; P (Suc j) t\<rbrakk> \<Longrightarrow> \<exists>t'. body (Suc j) t = Inr t' \<and> P j t'"
  shows "\<exists>t. for_down_res n body s = Inr t \<and> P 0 t"
  using assms
proof (induction n arbitrary: s)
  case (Suc n)
  then obtain t' where "body (Suc n) s = Inr t'" "P n t'" by blast
  moreover have "\<exists>t. for_down_res n body t' = Inr t \<and> P 0 t"
    using Suc.prems(2) \<open>P n t'\<close> by (intro Suc.IH) auto
  ultimately show ?case by simp
qed simp

section \<open>Bits of integers\<close>

lemma int_mod_pow2: "(k::int) mod 2 ^ n = take_bit n k"
  by (simp add: take_bit_eq_mod)

lemma take_bit_id_iff: "take_bit n k = k \<longleftrightarrow> 0 \<le> k \<and> k < 2 ^ n" for k :: int
  by (simp add: take_bit_int_eq_self_iff)

lemma int_mul_pow2: "(k::int) * 2 ^ n = push_bit n k"
  by (simp add: push_bit_eq_mult)

lemma int_div_pow2: "(k::int) div 2 ^ n = drop_bit n k"
  by (simp add: drop_bit_eq_div)

lemma bit_ge_length: "0 \<le> k \<Longrightarrow> k < 2 ^ n \<Longrightarrow> n \<le> j \<Longrightarrow> \<not> bit k j" for k :: int
  by (metis bit_take_bit_iff not_le take_bit_id_iff)

lemma bits_below_eqI:
  fixes a b :: int
  assumes "0 \<le> a" "a < 2 ^ n" "0 \<le> b" "b < 2 ^ n"
    and "\<And>j. j < n \<Longrightarrow> bit a j \<longleftrightarrow> bit b j"
  shows "a = b"
proof (rule bit_eqI)
  fix j
  show "bit a j \<longleftrightarrow> bit b j"
    using assms bit_ge_length [of a n j] bit_ge_length [of b n j] by (cases "j < n") auto
qed

lemma and_low_mask: "(k::int) AND (2 ^ n - 1) = take_bit n k"
  by (simp add: take_bit_eq_mask mask_eq_exp_minus_1)

lemma or_push_bit_plus:
  fixes a b :: int
  assumes "0 \<le> b" "b < 2 ^ n"
  shows "push_bit n a OR b = a * 2 ^ n + b"
proof -
  have "push_bit n a AND b = 0"
    using bit_ge_length [OF assms] by (auto simp: bit_eq_iff bit_simps)
  then have "push_bit n a OR b = push_bit n a + b"
    by (rule disjunctive_add_eq_or [symmetric])
  then show ?thesis by (simp add: push_bit_eq_mult)
qed

text \<open>What the bit-setting loops leave in an integer.\<close>

lemma bit_for_up_flip:
  "bit (for_up 0 n (\<lambda>i z. flip_bit i z) (k::int)) j \<longleftrightarrow> (bit k j \<noteq> (j < n))"
  by (induction n) (auto simp: for_up_Suc bit_flip_bit_iff less_Suc_eq)

lemma bit_for_up_set:
  "bit (for_up 0 n (\<lambda>i z. if P i then set_bit i z else z) (k::int)) j \<longleftrightarrow> bit k j \<or> (j < n \<and> P j)"
  by (induction n) (auto simp: for_up_Suc bit_set_bit_iff less_Suc_eq)

lemma bit_for_up_update:
  "bit (for_up 0 n (\<lambda>i z. if P i then set_bit (i + s) z else unset_bit (i + s) z) (k::int)) j \<longleftrightarrow>
     (if s \<le> j \<and> j < s + n then P (j - s) else bit k j)"
proof (induction n)
  case 0
  then show ?case by auto
next
  case (Suc n)
  show ?case
  proof (cases "j = n + s")
    case True
    then show ?thesis by (simp add: for_up_Suc bit_set_bit_iff bit_unset_bit_iff)
  next
    case False
    then have "s \<le> j \<and> j < s + Suc n \<longleftrightarrow> s \<le> j \<and> j < s + n" by auto
    then show ?thesis
      using False Suc.IH by (auto simp: for_up_Suc bit_set_bit_iff bit_unset_bit_iff)
  qed
qed

lemma sdiv_pow2_nonneg: "0 \<le> a \<Longrightarrow> a sdiv 2 ^ n = drop_bit n a" for a :: int
  by (simp add: signed_divide_int_def drop_bit_eq_div sgn_if)

section \<open>Reading words\<close>

lemma unat_lt64 [simp]: "unat (w::u64) < 18446744073709551616"
  using unsigned_less [of w] by simp

lemma unat_lt32 [simp]: "unat (w::u32) < 4294967296"
  using unsigned_less [of w] by simp

lemma unat_lt16 [simp]: "unat (w::u16) < 65536"
  using unsigned_less [of w] by simp

lemma unat_of_nat32: "n < 2 ^ 32 \<Longrightarrow> unat (of_nat n :: u32) = n"
  by (simp add: unsigned_of_nat take_bit_nat_eq_self)

lemma unat_add32: "unat a + unat b < 2 ^ 32 \<Longrightarrow> unat (a + b) = unat a + unat b" for a b :: u32
  by (simp add: unat_word_ariths)

lemma unat32_le [simp]: "unat (w::u32) \<le> 18446744073709551616"
  by (rule order_trans [OF less_imp_le [OF unat_lt32]]) simp

lemma unat_ucast_32_64 [simp]: "unat (ucast (w::u32) :: u64) = unat w"
  by (simp add: unsigned_ucast_eq take_bit_nat_eq_self order_less_le_trans [OF unat_lt32])

lemma unat_of_nat64: "n < 2 ^ 64 \<Longrightarrow> unat (of_nat n :: u64) = n"
  by (simp add: unsigned_of_nat take_bit_nat_eq_self)

lemma unat_add64: "unat a + unat b < 2 ^ 64 \<Longrightarrow> unat (a + b) = unat a + unat b" for a b :: u64
  by (simp add: unat_word_ariths)

lemma unat_Suc64: "a < b \<Longrightarrow> unat (a + 1) = unat a + 1" for a b :: u64
proof -
  assume "a < b"
  then have "unat a < unat b" by (simp add: word_less_nat_alt)
  moreover have "unat b < 18446744073709551616" by (rule unat_lt64)
  ultimately have "unat a + 1 < 18446744073709551616" by linarith
  then show ?thesis using unat_add64 [of a 1] by simp
qed

lemma unat_sub64: "b \<le> a \<Longrightarrow> unat (a - b) = unat a - unat b" for a b :: u64
  by (rule unat_sub)

lemma uint_word_of_int64: "0 \<le> k \<Longrightarrow> k < 2 ^ 64 \<Longrightarrow> uint (word_of_int k :: u64) = k"
  by (simp add: uint_word_of_int)

lemma unat_word_of_int64: "0 \<le> k \<Longrightarrow> k < 2 ^ 64 \<Longrightarrow> unat (word_of_int k :: u64) = nat k"
  by (simp add: unsigned_of_int take_bit_int_eq_self)

lemma uint_eq_int_unat: "uint w = int (unat w)" for w :: u64
  by simp

lemma bit_uint64: "bit (uint (w::u64)) j \<longleftrightarrow> bit w j"
  by (auto simp: bit_uint_iff dest: bit_imp_le_length)

lemma bit_u64_less: "bit (w::u64) j \<Longrightarrow> j < 64"
  using bit_imp_le_length [of w j] by simp

lemma sint_small: "unat w < 2 ^ 63 \<Longrightarrow> sint w = int (unat w)" for w :: u64
proof -
  assume "unat w < 2 ^ 63"
  then have "uint w < 2 ^ 63" by (metis of_nat_less_iff of_nat_numeral of_nat_power uint_nat)
  then show ?thesis
    by (simp add: sint_uint signed_take_bit_int_eq_self order_trans [OF _ uint_ge_0])
qed

lemma uint_lt64: "uint (w::u64) < 2 ^ 64"
  using unsigned_less [of w] by simp

section \<open>Sign filling and bounded loops\<close>

lemma signed_fill_eq:
  fixes k z :: int
  assumes "0 < n" "n \<le> m" "\<And>j. bit k j \<Longrightarrow> j < n" "bit k (n - 1)"
    and "\<And>j. bit z j \<longleftrightarrow> bit k j \<or> n \<le> j \<and> j < m"
  shows "z = take_bit m (signed_take_bit (n - 1) k)"
proof (rule bit_eqI)
  fix j
  have "bit (signed_take_bit (n - 1) k) j \<longleftrightarrow> bit k (if j < n then j else n - 1)"
    using assms(1) by (cases "j < n - 1"; cases "j = n - 1") (auto simp: bit_signed_take_bit_iff min_def)
  then show "bit z j \<longleftrightarrow> bit (take_bit m (signed_take_bit (n - 1) k)) j"
    using assms(1,2,4) assms(3) [of j] by (auto simp: assms(5) bit_take_bit_iff split: if_splits)
qed

lemma signed_unfilled_eq:
  fixes k :: int
  assumes "0 < n" "n \<le> m" "\<And>j. bit k j \<Longrightarrow> j < n" "\<not> bit k (n - 1)"
  shows "k = take_bit m (signed_take_bit (n - 1) k)"
proof (rule bit_eqI)
  fix j
  have "bit (signed_take_bit (n - 1) k) j \<longleftrightarrow> bit k (if j < n then j else n - 1)"
    using assms(1) by (cases "j < n - 1"; cases "j = n - 1") (auto simp: bit_signed_take_bit_iff min_def)
  then show "bit k j \<longleftrightarrow> bit (take_bit m (signed_take_bit (n - 1) k)) j"
    using assms(1,2,4) assms(3) [of j] by (auto simp: bit_take_bit_iff split: if_splits)
qed

lemma all_interval_step:
  "i < n \<Longrightarrow> (\<forall>j. i \<le> j \<and> j < n \<longrightarrow> P j) \<longleftrightarrow> P i \<and> (\<forall>j. Suc i \<le> j \<and> j < n \<longrightarrow> P j)"
  for i n :: nat
  by (auto simp: Suc_le_eq) (metis le_neq_implies_less)

end
