(* ===== verification/Gmp.thy ===== *)
theory Gmp
  imports Prelude
begin

text \<open>
  The interface to GMP's integers (\<open>gmp.h\<close>, a third-party library that is not part of the
  repository). An \<open>mpz_t\<close> holds a mathematical integer; the library's functions are a
  parameter of the model, a record \<open>gmp\<close> with one field per function the sources call, and
  the locale \<open>gmp_laws\<close> states what the GMP manual documents of each. Every definition that
  calls GMP takes the record as its first argument and every theorem about it has the
  hypothesis \<open>gmp_laws G\<close>. \<open>gmp_ref\<close> is a concrete library on Isabelle's integers that
  satisfies the laws, so the definitions evaluate on it.

  Functions that GMP documents to abort the program (a division by zero, a square root of a
  negative number) return an \<open>option\<close>, with \<open>None\<close> for the abort.
\<close>

section \<open>The functions of the library\<close>

record gmp =
  mpz_init :: int
  mpz_set :: "int \<Rightarrow> int"
  mpz_set_ui :: "u64 \<Rightarrow> int"
  mpz_set_si :: "i64 \<Rightarrow> int"
  mpz_get_ui :: "int \<Rightarrow> u64"
  mpz_get_si :: "int \<Rightarrow> i64"
  mpz_cmp :: "int \<Rightarrow> int \<Rightarrow> int"
  mpz_cmp_ui :: "int \<Rightarrow> u64 \<Rightarrow> int"
  mpz_add :: "int \<Rightarrow> int \<Rightarrow> int"
  mpz_sub :: "int \<Rightarrow> int \<Rightarrow> int"
  mpz_mul :: "int \<Rightarrow> int \<Rightarrow> int"
  mpz_add_ui :: "int \<Rightarrow> u64 \<Rightarrow> int"
  mpz_sub_ui :: "int \<Rightarrow> u64 \<Rightarrow> int"
  mpz_mul_ui :: "int \<Rightarrow> u64 \<Rightarrow> int"
  mpz_neg :: "int \<Rightarrow> int"
  mpz_abs :: "int \<Rightarrow> int"
  mpz_mul_2exp :: "int \<Rightarrow> u64 \<Rightarrow> int"
  mpz_fdiv_q_2exp :: "int \<Rightarrow> u64 \<Rightarrow> int"
  mpz_tdiv_q_2exp :: "int \<Rightarrow> u64 \<Rightarrow> int"
  mpz_tdiv_q :: "int \<Rightarrow> int \<Rightarrow> int option"
  mpz_tdiv_r :: "int \<Rightarrow> int \<Rightarrow> int option"
  mpz_fdiv_q :: "int \<Rightarrow> int \<Rightarrow> int option"
  mpz_fdiv_r :: "int \<Rightarrow> int \<Rightarrow> int option"
  mpz_cdiv_q :: "int \<Rightarrow> int \<Rightarrow> int option"
  mpz_pow_ui :: "int \<Rightarrow> u64 \<Rightarrow> int"
  mpz_ui_pow_ui :: "u64 \<Rightarrow> u64 \<Rightarrow> int"
  mpz_and :: "int \<Rightarrow> int \<Rightarrow> int"
  mpz_ior :: "int \<Rightarrow> int \<Rightarrow> int"
  mpz_xor :: "int \<Rightarrow> int \<Rightarrow> int"
  mpz_tstbit :: "int \<Rightarrow> u64 \<Rightarrow> bool"
  mpz_setbit :: "int \<Rightarrow> u64 \<Rightarrow> int"
  mpz_clrbit :: "int \<Rightarrow> u64 \<Rightarrow> int"
  mpz_combit :: "int \<Rightarrow> u64 \<Rightarrow> int"
  mpz_perfect_square_p :: "int \<Rightarrow> bool"
  mpz_sqrt :: "int \<Rightarrow> int option"

section \<open>What the manual documents\<close>

locale gmp_laws =
  fixes G :: gmp
  assumes mpz_init_law [simp]: "mpz_init G = 0"
    and mpz_set_law [simp]: "mpz_set G a = a"
    and mpz_set_ui_law [simp]: "mpz_set_ui G u = uint u"
    and mpz_set_si_law [simp]: "mpz_set_si G i = sint i"
    and mpz_get_ui_law [simp]: "mpz_get_ui G a = word_of_int \<bar>a\<bar>"
    and mpz_get_si_law: "- (2 ^ 63) \<le> a \<Longrightarrow> a < 2 ^ 63 \<Longrightarrow> mpz_get_si G a = word_of_int a"
    and mpz_cmp_law: "sgn (mpz_cmp G a b) = sgn (a - b)"
    and mpz_cmp_ui_law: "sgn (mpz_cmp_ui G a u) = sgn (a - uint u)"
    and mpz_add_law [simp]: "mpz_add G a b = a + b"
    and mpz_sub_law [simp]: "mpz_sub G a b = a - b"
    and mpz_mul_law [simp]: "mpz_mul G a b = a * b"
    and mpz_add_ui_law [simp]: "mpz_add_ui G a u = a + uint u"
    and mpz_sub_ui_law [simp]: "mpz_sub_ui G a u = a - uint u"
    and mpz_mul_ui_law [simp]: "mpz_mul_ui G a u = a * uint u"
    and mpz_neg_law [simp]: "mpz_neg G a = - a"
    and mpz_abs_law [simp]: "mpz_abs G a = \<bar>a\<bar>"
    and mpz_mul_2exp_law [simp]: "mpz_mul_2exp G a u = push_bit (unat u) a"
    and mpz_fdiv_q_2exp_law [simp]: "mpz_fdiv_q_2exp G a u = drop_bit (unat u) a"
    and mpz_tdiv_q_2exp_law [simp]: "mpz_tdiv_q_2exp G a u = a sdiv 2 ^ unat u"
    and mpz_tdiv_q_law: "b \<noteq> 0 \<Longrightarrow> mpz_tdiv_q G a b = Some (a sdiv b)"
    and mpz_tdiv_q_zero: "mpz_tdiv_q G a 0 = None"
    and mpz_tdiv_r_law: "b \<noteq> 0 \<Longrightarrow> mpz_tdiv_r G a b = Some (a smod b)"
    and mpz_tdiv_r_zero: "mpz_tdiv_r G a 0 = None"
    and mpz_fdiv_q_law: "b \<noteq> 0 \<Longrightarrow> mpz_fdiv_q G a b = Some (a div b)"
    and mpz_fdiv_q_zero: "mpz_fdiv_q G a 0 = None"
    and mpz_fdiv_r_law: "b \<noteq> 0 \<Longrightarrow> mpz_fdiv_r G a b = Some (a mod b)"
    and mpz_fdiv_r_zero: "mpz_fdiv_r G a 0 = None"
    and mpz_cdiv_q_law: "b \<noteq> 0 \<Longrightarrow> mpz_cdiv_q G a b = Some (- ((- a) div b))"
    and mpz_cdiv_q_zero: "mpz_cdiv_q G a 0 = None"
    and mpz_pow_ui_law [simp]: "mpz_pow_ui G a u = a ^ unat u"
    and mpz_ui_pow_ui_law [simp]: "mpz_ui_pow_ui G v u = uint v ^ unat u"
    and mpz_and_law [simp]: "mpz_and G a b = a AND b"
    and mpz_ior_law [simp]: "mpz_ior G a b = a OR b"
    and mpz_xor_law [simp]: "mpz_xor G a b = a XOR b"
    and mpz_tstbit_law [simp]: "mpz_tstbit G a u = bit a (unat u)"
    and mpz_setbit_law [simp]: "mpz_setbit G a u = set_bit (unat u) a"
    and mpz_clrbit_law [simp]: "mpz_clrbit G a u = unset_bit (unat u) a"
    and mpz_combit_law [simp]: "mpz_combit G a u = flip_bit (unat u) a"
    and mpz_perfect_square_p_law: "mpz_perfect_square_p G a \<longleftrightarrow> (\<exists>r. a = r * r)"
    and mpz_sqrt_law: "0 \<le> a \<Longrightarrow> \<exists>r. mpz_sqrt G a = Some r \<and> 0 \<le> r \<and> r * r \<le> a \<and> a < (r + 1) * (r + 1)"
    and mpz_sqrt_neg: "a < 0 \<Longrightarrow> mpz_sqrt G a = None"
begin

text \<open>Consequences of the documented signs of the comparisons.\<close>

lemma mpz_cmp_iff [simp]:
  "mpz_cmp G a b = 0 \<longleftrightarrow> a = b"
  "mpz_cmp G a b < 0 \<longleftrightarrow> a < b"
  "0 < mpz_cmp G a b \<longleftrightarrow> b < a"
  using mpz_cmp_law [of a b] by (auto simp: sgn_if split: if_splits)

lemma mpz_cmp_le_iff [simp]:
  "mpz_cmp G a b \<le> 0 \<longleftrightarrow> a \<le> b"
  "0 \<le> mpz_cmp G a b \<longleftrightarrow> b \<le> a"
  using mpz_cmp_iff [of a b] by linarith+

lemma mpz_cmp_ui_iff [simp]:
  "mpz_cmp_ui G a u = 0 \<longleftrightarrow> a = uint u"
  "mpz_cmp_ui G a u < 0 \<longleftrightarrow> a < uint u"
  using mpz_cmp_ui_law [of a u] by (auto simp: sgn_if split: if_splits)

lemma mpz_division:
  "mpz_tdiv_q G a b = (if b = 0 then None else Some (a sdiv b))"
  "mpz_tdiv_r G a b = (if b = 0 then None else Some (a smod b))"
  "mpz_fdiv_q G a b = (if b = 0 then None else Some (a div b))"
  "mpz_fdiv_r G a b = (if b = 0 then None else Some (a mod b))"
  "mpz_cdiv_q G a b = (if b = 0 then None else Some (- ((- a) div b)))"
  by (simp_all add: mpz_tdiv_q_law mpz_tdiv_q_zero mpz_tdiv_r_law mpz_tdiv_r_zero
      mpz_fdiv_q_law mpz_fdiv_q_zero mpz_fdiv_r_law mpz_fdiv_r_zero mpz_cdiv_q_law mpz_cdiv_q_zero)

lemma unat_get_ui: "0 \<le> a \<Longrightarrow> a < 2 ^ 64 \<Longrightarrow> unat (mpz_get_ui G a) = nat a"
  by (simp add: unat_word_of_int64)

lemma get_ui_set_ui: "mpz_get_ui G (mpz_set_ui G u) = u"
  by simp

end

section \<open>A library that satisfies the laws\<close>

text \<open>The integer square root by bisection of \<open>[lo, hi)\<close>.\<close>

function isqrt_between :: "int \<Rightarrow> int \<Rightarrow> int \<Rightarrow> int" where
  "isqrt_between a lo hi =
     (if hi - lo \<le> 1 then lo
      else let mid = (lo + hi) div 2
           in if mid * mid \<le> a then isqrt_between a mid hi else isqrt_between a lo mid)"
  by pat_completeness auto
termination
  by (relation "measure (\<lambda>(a, lo, hi). nat (hi - lo))") auto

declare isqrt_between.simps [simp del]

definition int_sqrt :: "int \<Rightarrow> int" where
  "int_sqrt a = isqrt_between a 0 (a + 1)"

lemma isqrt_between_spec:
  assumes "lo * lo \<le> a" "a < hi * hi" "0 \<le> lo" "lo < hi"
  shows "let r = isqrt_between a lo hi in 0 \<le> r \<and> r * r \<le> a \<and> a < (r + 1) * (r + 1)"
  using assms
proof (induction a lo hi rule: isqrt_between.induct)
  case (1 a lo hi)
  show ?case
  proof (cases "hi - lo \<le> 1")
    case True
    with "1.prems" have "hi = lo + 1" by simp
    with "1.prems" True show ?thesis
      by (simp add: isqrt_between.simps [of a lo hi] isqrt_between.simps [of a lo "lo + 1"] Let_def)
  next
    case False
    define mid where "mid = (lo + hi) div 2"
    have mid: "lo < mid" "mid < hi" using False by (auto simp: mid_def)
    show ?thesis
    proof (cases "mid * mid \<le> a")
      case True
      have "let r = isqrt_between a mid hi in 0 \<le> r \<and> r * r \<le> a \<and> a < (r + 1) * (r + 1)"
        using "1.IH"(1) [OF False mid_def] True "1.prems" mid by auto
      then show ?thesis
        using False True by (simp add: isqrt_between.simps [of a lo hi] Let_def mid_def)
    next
      case F: False
      have "let r = isqrt_between a lo mid in 0 \<le> r \<and> r * r \<le> a \<and> a < (r + 1) * (r + 1)"
        using "1.IH"(2) [OF False mid_def] F "1.prems" mid by auto
      then show ?thesis
        using False F by (simp add: isqrt_between.simps [of a lo hi] Let_def mid_def)
    qed
  qed
qed

lemma int_sqrt_spec:
  assumes "0 \<le> a"
  shows "0 \<le> int_sqrt a \<and> int_sqrt a * int_sqrt a \<le> a \<and> a < (int_sqrt a + 1) * (int_sqrt a + 1)"
proof -
  have "0 \<le> a * a" by simp
  then have "a < (a + 1) * (a + 1)" using assms unfolding ring_distribs by linarith
  with isqrt_between_spec [of 0 a "a + 1"] assms show ?thesis
    by (simp add: int_sqrt_def Let_def)
qed

lemma int_sqrt_square: "0 \<le> r \<Longrightarrow> int_sqrt (r * r) = r"
proof -
  assume r: "0 \<le> r"
  let ?s = "int_sqrt (r * r)"
  have s: "0 \<le> ?s" "?s * ?s \<le> r * r" "r * r < (?s + 1) * (?s + 1)"
    using int_sqrt_spec [of "r * r"] by auto
  have "?s \<le> r" using s r by (metis abs_le_square_iff abs_of_nonneg power2_eq_square)
  moreover have "\<not> ?s + 1 \<le> r"
    using s mult_mono [of "?s + 1" r "?s + 1" r] r by auto
  ultimately show ?thesis by simp
qed

definition gmp_ref :: gmp where
  "gmp_ref = \<lparr>
     mpz_init = 0,
     mpz_set = (\<lambda>a. a),
     mpz_set_ui = uint,
     mpz_set_si = sint,
     mpz_get_ui = (\<lambda>a. word_of_int \<bar>a\<bar>),
     mpz_get_si = word_of_int,
     mpz_cmp = (\<lambda>a b. sgn (a - b)),
     mpz_cmp_ui = (\<lambda>a u. sgn (a - uint u)),
     mpz_add = (+),
     mpz_sub = (-),
     mpz_mul = (*),
     mpz_add_ui = (\<lambda>a u. a + uint u),
     mpz_sub_ui = (\<lambda>a u. a - uint u),
     mpz_mul_ui = (\<lambda>a u. a * uint u),
     mpz_neg = uminus,
     mpz_abs = abs,
     mpz_mul_2exp = (\<lambda>a u. push_bit (unat u) a),
     mpz_fdiv_q_2exp = (\<lambda>a u. drop_bit (unat u) a),
     mpz_tdiv_q_2exp = (\<lambda>a u. a sdiv 2 ^ unat u),
     mpz_tdiv_q = (\<lambda>a b. if b = 0 then None else Some (a sdiv b)),
     mpz_tdiv_r = (\<lambda>a b. if b = 0 then None else Some (a smod b)),
     mpz_fdiv_q = (\<lambda>a b. if b = 0 then None else Some (a div b)),
     mpz_fdiv_r = (\<lambda>a b. if b = 0 then None else Some (a mod b)),
     mpz_cdiv_q = (\<lambda>a b. if b = 0 then None else Some (- ((- a) div b))),
     mpz_pow_ui = (\<lambda>a u. a ^ unat u),
     mpz_ui_pow_ui = (\<lambda>v u. uint v ^ unat u),
     mpz_and = (AND),
     mpz_ior = (OR),
     mpz_xor = (XOR),
     mpz_tstbit = (\<lambda>a u. bit a (unat u)),
     mpz_setbit = (\<lambda>a u. set_bit (unat u) a),
     mpz_clrbit = (\<lambda>a u. unset_bit (unat u) a),
     mpz_combit = (\<lambda>a u. flip_bit (unat u) a),
     mpz_perfect_square_p = (\<lambda>a. 0 \<le> a \<and> int_sqrt a * int_sqrt a = a),
     mpz_sqrt = (\<lambda>a. if a < 0 then None else Some (int_sqrt a)) \<rparr>"

lemma square_int_sqrt: "0 \<le> a \<and> int_sqrt a * int_sqrt a = a \<longleftrightarrow> (\<exists>r. a = r * r)"
proof
  assume "\<exists>r. a = r * r"
  then obtain r where "a = \<bar>r\<bar> * \<bar>r\<bar>" by auto
  then show "0 \<le> a \<and> int_sqrt a * int_sqrt a = a"
    using int_sqrt_square [of "\<bar>r\<bar>"] by simp
next
  assume "0 \<le> a \<and> int_sqrt a * int_sqrt a = a"
  then show "\<exists>r. a = r * r" by metis
qed

interpretation gmp_ref: gmp_laws gmp_ref
proof unfold_locales
  show "\<And>a. mpz_perfect_square_p gmp_ref a \<longleftrightarrow> (\<exists>r. a = r * r)"
    by (simp add: gmp_ref_def square_int_sqrt)
  show "\<And>a. 0 \<le> a \<Longrightarrow> \<exists>r. mpz_sqrt gmp_ref a = Some r \<and> 0 \<le> r \<and> r * r \<le> a \<and> a < (r + 1) * (r + 1)"
    using int_sqrt_spec by (simp add: gmp_ref_def)
qed (simp_all add: gmp_ref_def)

lemma gmp_ref_laws: "gmp_laws gmp_ref"
  by (rule gmp_ref.gmp_laws_axioms)

end
