(* ===== verification/Sail_Int.thy ===== *)
theory Sail_Int
  imports Gmp
begin

text \<open>
  Sail's integers (\<open>lib/sail.c\<close>, "Sail integers"): the \<open>sail_int\<close> builtins are GMP calls, a
  \<open>mach_int\<close> is an \<open>int64_t\<close>. A C function \<open>void f(sail_int *rop, ...)\<close> is modelled by the value
  it leaves in \<open>*rop\<close>. Also the unit, bit and boolean builtins of the same file.
\<close>

section \<open>Unit, bits and booleans\<close>

type_synonym sail_unit = "int"

definition UNIT :: sail_unit where
  "UNIT = 0"

definition eq_unit :: "sail_unit \<Rightarrow> sail_unit \<Rightarrow> bool" where
  "eq_unit a b = True"

definition undefined_unit :: "sail_unit \<Rightarrow> sail_unit" where
  "undefined_unit u = UNIT"

definition skip :: "sail_unit \<Rightarrow> sail_unit" where
  "skip u = UNIT"

definition eq_bit :: "u64 \<Rightarrow> u64 \<Rightarrow> bool" where
  "eq_bit a b \<longleftrightarrow> a = b"

definition not_bool :: "bool \<Rightarrow> bool" where
  "not_bool b \<longleftrightarrow> \<not> b"

definition eq_bool :: "bool \<Rightarrow> bool \<Rightarrow> bool" where
  "eq_bool a b \<longleftrightarrow> a = b"

definition undefined_bool :: "sail_unit \<Rightarrow> bool" where
  "undefined_bool u = False"

section \<open>Creation, copies and conversions\<close>

definition eq_mach_int :: "i64 \<Rightarrow> i64 \<Rightarrow> bool" where
  "eq_mach_int op1 op2 \<longleftrightarrow> op1 = op2"

definition copy_sail_int :: "gmp \<Rightarrow> int \<Rightarrow> int" where
  "copy_sail_int G op = mpz_set G op"

definition create_sail_int :: "gmp \<Rightarrow> int" where
  "create_sail_int G = mpz_init G"

definition recreate_sail_int :: "gmp \<Rightarrow> int" where
  "recreate_sail_int G = mpz_set_ui G 0"

definition create_sail_int_of_mach_int :: "gmp \<Rightarrow> i64 \<Rightarrow> int" where
  "create_sail_int_of_mach_int G op = mpz_set_si G op"

text \<open>Note the unsigned read: the code calls \<open>mpz_get_ui\<close> here, not \<open>mpz_get_si\<close>.\<close>

definition create_mach_int_of_sail_int :: "gmp \<Rightarrow> int \<Rightarrow> i64" where
  "create_mach_int_of_sail_int G op = mpz_get_ui G op"

definition recreate_sail_int_of_mach_int :: "gmp \<Rightarrow> i64 \<Rightarrow> int" where
  "recreate_sail_int_of_mach_int G op = mpz_set_si G op"

definition convert_mach_int_of_sail_int :: "gmp \<Rightarrow> int \<Rightarrow> i64" where
  "convert_mach_int_of_sail_int G op = mpz_get_si G op"

definition convert_sail_int_of_mach_int :: "gmp \<Rightarrow> i64 \<Rightarrow> int" where
  "convert_sail_int_of_mach_int G op = mpz_set_si G op"

section \<open>Comparisons\<close>

definition eq_int :: "gmp \<Rightarrow> int \<Rightarrow> int \<Rightarrow> bool" where
  "eq_int G op1 op2 \<longleftrightarrow> \<not> (\<bar>mpz_cmp G op1 op2\<bar> \<noteq> 0)"

definition eq_sail_int :: "gmp \<Rightarrow> int \<Rightarrow> int \<Rightarrow> bool" where
  "eq_sail_int G op1 op2 \<longleftrightarrow> \<not> (\<bar>mpz_cmp G op1 op2\<bar> \<noteq> 0)"

definition lt :: "gmp \<Rightarrow> int \<Rightarrow> int \<Rightarrow> bool" where
  "lt G op1 op2 \<longleftrightarrow> mpz_cmp G op1 op2 < 0"

definition gt :: "gmp \<Rightarrow> int \<Rightarrow> int \<Rightarrow> bool" where
  "gt G op1 op2 \<longleftrightarrow> mpz_cmp G op1 op2 > 0"

definition lteq :: "gmp \<Rightarrow> int \<Rightarrow> int \<Rightarrow> bool" where
  "lteq G op1 op2 \<longleftrightarrow> mpz_cmp G op1 op2 \<le> 0"

definition gteq :: "gmp \<Rightarrow> int \<Rightarrow> int \<Rightarrow> bool" where
  "gteq G op1 op2 \<longleftrightarrow> mpz_cmp G op1 op2 \<ge> 0"

section \<open>Shifts\<close>

definition shl_int :: "gmp \<Rightarrow> int \<Rightarrow> int \<Rightarrow> int" where
  "shl_int G op1 op2 = mpz_mul_2exp G op1 (mpz_get_ui G op2)"

text \<open>
  C leaves \<open>op1 << op2\<close> on \<open>int64_t\<close> undefined for a negative left operand, a shift outside
  \<open>[0, 64)\<close>, and a result that does not fit.
\<close>

definition shl_mach_int :: "i64 \<Rightarrow> i64 \<Rightarrow> i64 res" where
  "shl_mach_int op1 op2 =
     check (0 \<le> sint op2 \<and> sint op2 < 64 \<and> 0 \<le> sint op1
            \<and> sint op1 * 2 ^ nat (sint op2) < 2 ^ 63) Undefined_behaviour
       (Inr (push_bit (nat (sint op2)) op1))"

definition shr_int :: "gmp \<Rightarrow> int \<Rightarrow> int \<Rightarrow> int" where
  "shr_int G op1 op2 = mpz_fdiv_q_2exp G op1 (mpz_get_ui G op2)"

section \<open>Undefined values\<close>

text \<open>\<open>n\<close> is a C \<open>int\<close>; the cast to \<open>uint64_t\<close> sign-extends it.\<close>

definition undefined_int :: "gmp \<Rightarrow> int \<Rightarrow> int" where
  "undefined_int G n = mpz_set_ui G (word_of_int n)"

definition undefined_range :: "gmp \<Rightarrow> int \<Rightarrow> int \<Rightarrow> int" where
  "undefined_range G l u = mpz_set G l"

section \<open>Arithmetic\<close>

definition add_int :: "gmp \<Rightarrow> int \<Rightarrow> int \<Rightarrow> int" where
  "add_int G op1 op2 = mpz_add G op1 op2"

definition sub_int :: "gmp \<Rightarrow> int \<Rightarrow> int \<Rightarrow> int" where
  "sub_int G op1 op2 = mpz_sub G op1 op2"

text \<open>
  The guard of \<open>sub_nat\<close> is \<open>mpz_cmp_ui(*rop, 0) < 0ul\<close>: an \<open>int\<close> compared with an
  \<open>unsigned long\<close>, so C converts the left side to \<open>unsigned long\<close> first.
\<close>

definition sub_nat :: "gmp \<Rightarrow> int \<Rightarrow> int \<Rightarrow> int" where
  "sub_nat G op1 op2 =
     (let rop = mpz_sub G op1 op2
      in if (word_of_int (mpz_cmp_ui G rop 0) :: u64) < 0 then mpz_set_ui G 0 else rop)"

definition mult_int :: "gmp \<Rightarrow> int \<Rightarrow> int \<Rightarrow> int" where
  "mult_int G op1 op2 = mpz_mul G op1 op2"

definition tdiv_int :: "gmp \<Rightarrow> int \<Rightarrow> int \<Rightarrow> int res" where
  "tdiv_int G op1 op2 = of_option Gmp_abort (mpz_tdiv_q G op1 op2)"

definition tmod_int :: "gmp \<Rightarrow> int \<Rightarrow> int \<Rightarrow> int res" where
  "tmod_int G op1 op2 = of_option Gmp_abort (mpz_tdiv_r G op1 op2)"

definition fdiv_int :: "gmp \<Rightarrow> int \<Rightarrow> int \<Rightarrow> int res" where
  "fdiv_int G op1 op2 = of_option Gmp_abort (mpz_fdiv_q G op1 op2)"

definition fmod_int :: "gmp \<Rightarrow> int \<Rightarrow> int \<Rightarrow> int res" where
  "fmod_int G op1 op2 = of_option Gmp_abort (mpz_fdiv_r G op1 op2)"

definition max_int :: "gmp \<Rightarrow> int \<Rightarrow> int \<Rightarrow> int" where
  "max_int G op1 op2 = (if lt G op1 op2 then mpz_set G op2 else mpz_set G op1)"

definition min_int :: "gmp \<Rightarrow> int \<Rightarrow> int \<Rightarrow> int" where
  "min_int G op1 op2 = (if gt G op1 op2 then mpz_set G op2 else mpz_set G op1)"

definition neg_int :: "gmp \<Rightarrow> int \<Rightarrow> int" where
  "neg_int G op1 = mpz_neg G op1"

definition abs_int :: "gmp \<Rightarrow> int \<Rightarrow> int" where
  "abs_int G op1 = mpz_abs G op1"

definition pow_int :: "gmp \<Rightarrow> int \<Rightarrow> int \<Rightarrow> int" where
  "pow_int G op1 op2 = (let n = mpz_get_ui G op2 in mpz_pow_ui G op1 n)"

definition pow2 :: "gmp \<Rightarrow> int \<Rightarrow> int" where
  "pow2 G ex = (let exp_ui = mpz_get_ui G ex; base = mpz_set_ui G 2 in mpz_pow_ui G base exp_ui)"

section \<open>What the operations compute\<close>

context gmp_laws
begin

lemma int_create [mpz_simps]:
  "create_sail_int G = 0" "recreate_sail_int G = 0" "copy_sail_int G a = a"
  by (simp_all add: create_sail_int_def recreate_sail_int_def copy_sail_int_def)

lemma int_of_mach [mpz_simps]:
  "create_sail_int_of_mach_int G i = sint i"
  "recreate_sail_int_of_mach_int G i = sint i"
  "convert_sail_int_of_mach_int G i = sint i"
  by (simp_all add: create_sail_int_of_mach_int_def recreate_sail_int_of_mach_int_def
      convert_sail_int_of_mach_int_def)

lemma int_compare [mpz_simps]:
  "eq_int G a b \<longleftrightarrow> a = b" "eq_sail_int G a b \<longleftrightarrow> a = b"
  "lt G a b \<longleftrightarrow> a < b" "gt G a b \<longleftrightarrow> b < a" "lteq G a b \<longleftrightarrow> a \<le> b" "gteq G a b \<longleftrightarrow> b \<le> a"
  by (simp_all add: eq_int_def eq_sail_int_def lt_def gt_def lteq_def gteq_def)

lemma int_arith [mpz_simps]:
  "add_int G a b = a + b" "sub_int G a b = a - b" "mult_int G a b = a * b"
  "neg_int G a = - a" "abs_int G a = \<bar>a\<bar>" "max_int G a b = max a b" "min_int G a b = min a b"
  "undefined_range G a b = a"
  by (simp_all add: add_int_def sub_int_def mult_int_def neg_int_def abs_int_def max_int_def
      min_int_def undefined_range_def int_compare max_def min_def)

lemma sub_nat_eq [mpz_simps]: "sub_nat G a b = a - b"
  by (simp add: sub_nat_def Let_def)

lemma int_division [mpz_simps]:
  "tdiv_int G a b = (if b = 0 then Inl Gmp_abort else Inr (a sdiv b))"
  "tmod_int G a b = (if b = 0 then Inl Gmp_abort else Inr (a smod b))"
  "fdiv_int G a b = (if b = 0 then Inl Gmp_abort else Inr (a div b))"
  "fmod_int G a b = (if b = 0 then Inl Gmp_abort else Inr (a mod b))"
  by (simp_all add: tdiv_int_def tmod_int_def fdiv_int_def fmod_int_def mpz_division)

lemma get_ui_small: "0 \<le> b \<Longrightarrow> b < 2 ^ 64 \<Longrightarrow> unat (mpz_get_ui G b) = nat b"
  by (simp add: unat_word_of_int64)

lemma int_shift:
  assumes "0 \<le> b" "b < 2 ^ 64"
  shows "shl_int G a b = a * 2 ^ nat b" "shr_int G a b = a div 2 ^ nat b"
  using get_ui_small [OF assms]
  by (simp_all add: shl_int_def shr_int_def push_bit_eq_mult drop_bit_eq_div del: mpz_get_ui_law)

lemma int_power:
  assumes "0 \<le> b" "b < 2 ^ 64"
  shows "pow_int G a b = a ^ nat b" "pow2 G b = 2 ^ nat b"
  using get_ui_small [OF assms] by (simp_all add: pow_int_def pow2_def Let_def del: mpz_get_ui_law)

lemma mach_int_convert:
  assumes "- (2 ^ 63) \<le> a" "a < 2 ^ 63"
  shows "sint (convert_mach_int_of_sail_int G a) = a"
  using assms mpz_get_si_law [OF assms]
  by (simp add: convert_mach_int_of_sail_int_def signed_of_int signed_take_bit_int_eq_self)

end

text \<open>The division pairs of C and of the floor convention.\<close>

lemma sdiv_smod_unique:
  fixes a b :: int
  assumes "b \<noteq> 0"
  shows "a = b * (a sdiv b) + a smod b" "\<bar>a smod b\<bar> < \<bar>b\<bar>" "a smod b = 0 \<or> sgn (a smod b) = sgn a"
proof -
  show "a = b * (a sdiv b) + a smod b"
    by (simp add: minus_sdiv_mult_eq_smod [symmetric] algebra_simps)
  have m: "a smod b = sgn a * (\<bar>a\<bar> mod \<bar>b\<bar>)"
    by (simp add: signed_modulo_int_def)
  have r: "0 \<le> \<bar>a\<bar> mod \<bar>b\<bar>" "\<bar>a\<bar> mod \<bar>b\<bar> < \<bar>b\<bar>"
    using assms by auto
  then show "\<bar>a smod b\<bar> < \<bar>b\<bar>" "a smod b = 0 \<or> sgn (a smod b) = sgn a"
    by (auto simp: m abs_mult sgn_mult sgn_if)
qed

end
