(* ===== verification/Sail_Bits.thy ===== *)
theory Sail_Bits
  imports Sail_Int
begin

text \<open>
  Sail's bitvectors (\<open>lib/sail.c\<close>, "Sail bitvectors"), first part: the three representations
  and their conversions, normalisation, arithmetic, bitwise operations, extension, truncation,
  comparison, the signed and unsigned readings and concatenation.

  \<^item> \<open>fbits\<close> is a bare \<open>uint64_t\<close> whose length the compiler knows;
  \<^item> \<open>sbits\<close> pairs a \<open>uint64_t\<close> with a length of at most 64;
  \<^item> \<open>lbits\<close> pairs an \<open>mpz_t\<close> with a length; its normal form has
    \<open>0 \<le> bits < 2 ^ len\<close>.

  A C function \<open>void f(lbits *rop, ...)\<close> is modelled by the value it leaves in \<open>*rop\<close>, with
  \<open>rop\<close> distinct from the operands (\<open>Sail_Alias\<close> has it as one of them); the old value of \<open>*rop\<close> is an argument where the code
  reads it. The unused \<open>direction\<close> parameter of the conversions is kept.
\<close>

section \<open>Representations\<close>

type_synonym fbits = u64

record sbits =
  s_len :: u64
  s_bits :: u64

record lbits =
  l_len :: u64
  l_bits :: int

definition eq_fbits :: "fbits \<Rightarrow> fbits \<Rightarrow> bool" where
  "eq_fbits op1 op2 \<longleftrightarrow> op1 = op2"

definition create_lbits :: "gmp \<Rightarrow> lbits" where
  "create_lbits G = \<lparr>l_len = 0, l_bits = mpz_init G\<rparr>"

definition recreate_lbits :: "gmp \<Rightarrow> lbits" where
  "recreate_lbits G = \<lparr>l_len = 0, l_bits = mpz_set_ui G 0\<rparr>"

definition copy_lbits :: "gmp \<Rightarrow> lbits \<Rightarrow> lbits" where
  "copy_lbits G op = \<lparr>l_len = l_len op, l_bits = mpz_set G (l_bits op)\<rparr>"

definition create_lbits_of_fbits :: "gmp \<Rightarrow> fbits \<Rightarrow> u64 \<Rightarrow> bool \<Rightarrow> lbits" where
  "create_lbits_of_fbits G op n direction = \<lparr>l_len = n, l_bits = mpz_set_ui G op\<rparr>"

definition create_fbits_of_lbits :: "gmp \<Rightarrow> lbits \<Rightarrow> bool \<Rightarrow> fbits" where
  "create_fbits_of_lbits G op direction = mpz_get_ui G (l_bits op)"

definition create_sbits_of_lbits :: "gmp \<Rightarrow> lbits \<Rightarrow> bool \<Rightarrow> sbits" where
  "create_sbits_of_lbits G op direction = \<lparr>s_len = l_len op, s_bits = mpz_get_ui G (l_bits op)\<rparr>"

definition create_sbits_of_fbits :: "fbits \<Rightarrow> u64 \<Rightarrow> bool \<Rightarrow> sbits" where
  "create_sbits_of_fbits op n direction = \<lparr>s_len = n, s_bits = op\<rparr>"

definition recreate_lbits_of_fbits :: "gmp \<Rightarrow> fbits \<Rightarrow> u64 \<Rightarrow> bool \<Rightarrow> lbits" where
  "recreate_lbits_of_fbits G op n direction = \<lparr>l_len = n, l_bits = mpz_set_ui G op\<rparr>"

definition create_lbits_of_sbits :: "gmp \<Rightarrow> sbits \<Rightarrow> bool \<Rightarrow> lbits" where
  "create_lbits_of_sbits G op direction = \<lparr>l_len = s_len op, l_bits = mpz_set_ui G (s_bits op)\<rparr>"

definition recreate_lbits_of_sbits :: "gmp \<Rightarrow> sbits \<Rightarrow> bool \<Rightarrow> lbits" where
  "recreate_lbits_of_sbits G op direction = \<lparr>l_len = s_len op, l_bits = mpz_set_ui G (s_bits op)\<rparr>"

section \<open>Conversions\<close>

definition convert_fbits_of_lbits :: "gmp \<Rightarrow> lbits \<Rightarrow> bool \<Rightarrow> fbits" where
  "convert_fbits_of_lbits G op direction = mpz_get_ui G (l_bits op)"

definition convert_fbits_of_sbits :: "sbits \<Rightarrow> bool \<Rightarrow> fbits" where
  "convert_fbits_of_sbits op direction = s_bits op"

definition safe_rshift :: "fbits \<Rightarrow> fbits \<Rightarrow> fbits" where
  "safe_rshift x n = (if n \<ge> 64 then 0 else drop_bit (unat n) x)"

definition convert_lbits_of_fbits :: "gmp \<Rightarrow> fbits \<Rightarrow> u64 \<Rightarrow> bool \<Rightarrow> lbits" where
  "convert_lbits_of_fbits G op n direction =
     \<lparr>l_len = n, l_bits = mpz_set_ui G (op AND safe_rshift uint64_max (64 - n))\<rparr>"

definition convert_lbits_of_sbits :: "gmp \<Rightarrow> sbits \<Rightarrow> bool \<Rightarrow> lbits" where
  "convert_lbits_of_sbits G op direction =
     \<lparr>l_len = s_len op, l_bits = mpz_set_ui G (s_bits op AND safe_rshift uint64_max (64 - s_len op))\<rparr>"

definition convert_sbits_of_fbits :: "fbits \<Rightarrow> u64 \<Rightarrow> bool \<Rightarrow> sbits" where
  "convert_sbits_of_fbits op n direction = \<lparr>s_len = n, s_bits = op\<rparr>"

definition convert_sbits_of_lbits :: "gmp \<Rightarrow> lbits \<Rightarrow> bool \<Rightarrow> sbits" where
  "convert_sbits_of_lbits G op direction = \<lparr>s_len = l_len op, s_bits = mpz_get_ui G (l_bits op)\<rparr>"

definition zeros :: "gmp \<Rightarrow> int \<Rightarrow> lbits" where
  "zeros G op = \<lparr>l_len = mpz_get_ui G op, l_bits = mpz_set_ui G 0\<rparr>"

definition undefined_lbits :: "gmp \<Rightarrow> int \<Rightarrow> fbits \<Rightarrow> lbits" where
  "undefined_lbits G n b = zeros G n"

definition undefined_fbits :: "sail_unit \<Rightarrow> fbits" where
  "undefined_fbits u = 0"

definition undefined_sbits :: sbits where
  "undefined_sbits = \<lparr>s_len = 0, s_bits = 0\<rparr>"

section \<open>Normalisation and arithmetic\<close>

definition normalize_lbits :: "gmp \<Rightarrow> lbits \<Rightarrow> lbits" where
  "normalize_lbits G rop =
     (let tmp1 = mpz_set_ui G 1;
          tmp1 = mpz_mul_2exp G tmp1 (l_len rop);
          tmp1 = mpz_sub_ui G tmp1 1
      in rop\<lparr>l_bits := mpz_and G (l_bits rop) tmp1\<rparr>)"

text \<open>The length of the result is \<open>rop->len + 64\<close>, taken from the old value of \<open>*rop\<close>.\<close>

definition append_64 :: "gmp \<Rightarrow> lbits \<Rightarrow> lbits \<Rightarrow> fbits \<Rightarrow> lbits" where
  "append_64 G rop op chunk =
     \<lparr>l_len = l_len rop + 64,
      l_bits = mpz_add_ui G (mpz_mul_2exp G (l_bits op) 64) chunk\<rparr>"

definition add_bits :: "gmp \<Rightarrow> lbits \<Rightarrow> lbits \<Rightarrow> lbits" where
  "add_bits G op1 op2 =
     normalize_lbits G \<lparr>l_len = l_len op1, l_bits = mpz_add G (l_bits op1) (l_bits op2)\<rparr>"

definition sub_bits :: "gmp \<Rightarrow> lbits \<Rightarrow> lbits \<Rightarrow> lbits res" where
  "sub_bits G op1 op2 =
     check (l_len op1 = l_len op2) Assertion_failed
       (Inr (normalize_lbits G \<lparr>l_len = l_len op1, l_bits = mpz_sub G (l_bits op1) (l_bits op2)\<rparr>))"

definition add_bits_int :: "gmp \<Rightarrow> lbits \<Rightarrow> int \<Rightarrow> lbits" where
  "add_bits_int G op1 op2 =
     normalize_lbits G \<lparr>l_len = l_len op1, l_bits = mpz_add G (l_bits op1) op2\<rparr>"

definition sub_bits_int :: "gmp \<Rightarrow> lbits \<Rightarrow> int \<Rightarrow> lbits" where
  "sub_bits_int G op1 op2 =
     normalize_lbits G \<lparr>l_len = l_len op1, l_bits = mpz_sub G (l_bits op1) op2\<rparr>"

section \<open>Bitwise operations\<close>

definition and_bits :: "gmp \<Rightarrow> lbits \<Rightarrow> lbits \<Rightarrow> lbits res" where
  "and_bits G op1 op2 =
     check (l_len op1 = l_len op2) Assertion_failed
       (Inr \<lparr>l_len = l_len op1, l_bits = mpz_and G (l_bits op1) (l_bits op2)\<rparr>)"

definition or_bits :: "gmp \<Rightarrow> lbits \<Rightarrow> lbits \<Rightarrow> lbits res" where
  "or_bits G op1 op2 =
     check (l_len op1 = l_len op2) Assertion_failed
       (Inr \<lparr>l_len = l_len op1, l_bits = mpz_ior G (l_bits op1) (l_bits op2)\<rparr>)"

definition xor_bits :: "gmp \<Rightarrow> lbits \<Rightarrow> lbits \<Rightarrow> lbits res" where
  "xor_bits G op1 op2 =
     check (l_len op1 = l_len op2) Assertion_failed
       (Inr \<lparr>l_len = l_len op1, l_bits = mpz_xor G (l_bits op1) (l_bits op2)\<rparr>)"

definition not_bits :: "gmp \<Rightarrow> lbits \<Rightarrow> lbits" where
  "not_bits G op =
     \<lparr>l_len = l_len op,
      l_bits = for_up 0 (unat (l_len op)) (\<lambda>i z. mpz_combit G z (of_nat i)) (mpz_set G (l_bits op))\<rparr>"

section \<open>Signed and unsigned readings\<close>

definition sail_unsigned :: "gmp \<Rightarrow> lbits \<Rightarrow> int" where
  "sail_unsigned G op = mpz_set G (l_bits op)"

definition sail_signed :: "gmp \<Rightarrow> lbits \<Rightarrow> int" where
  "sail_signed G op =
     (if l_len op = 0 then mpz_set_ui G 0
      else let sign_bit = l_len op - 1;
               rop = mpz_set G (l_bits op)
           in if mpz_tstbit G (l_bits op) sign_bit
              then let tmp1 = mpz_mul_2exp G (mpz_set_ui G 1) sign_bit;
                       rop = mpz_combit G rop sign_bit
                   in mpz_sub G rop tmp1
              else rop)"

definition fast_unsigned :: "fbits \<Rightarrow> i64" where
  "fast_unsigned op = op"

section \<open>Multiplication\<close>

definition mults_vec :: "gmp \<Rightarrow> lbits \<Rightarrow> lbits \<Rightarrow> lbits" where
  "mults_vec G op1 op2 =
     normalize_lbits G
       \<lparr>l_len = l_len op1 * 2, l_bits = mpz_mul G (sail_signed G op1) (sail_signed G op2)\<rparr>"

definition mult_vec :: "gmp \<Rightarrow> lbits \<Rightarrow> lbits \<Rightarrow> lbits" where
  "mult_vec G op1 op2 =
     normalize_lbits G \<lparr>l_len = l_len op1 * 2, l_bits = mpz_mul G (l_bits op1) (l_bits op2)\<rparr>"

section \<open>Extension and truncation\<close>

definition zero_extend :: "gmp \<Rightarrow> lbits \<Rightarrow> int \<Rightarrow> lbits res" where
  "zero_extend G op n =
     check (l_len op \<le> mpz_get_ui G n) Assertion_failed
       (Inr \<lparr>l_len = mpz_get_ui G n, l_bits = mpz_set G (l_bits op)\<rparr>)"

text \<open>
  The loop \<open>for (i = rop->len - 1; i >= op.len; i--) mpz_setbit(rop, i)\<close> over an unsigned
  counter: with \<open>op.len = 0\<close> the condition never fails, which is \<open>None\<close> here.
\<close>

partial_function (option) sign_fill :: "gmp \<Rightarrow> u64 \<Rightarrow> u64 \<Rightarrow> int \<Rightarrow> int option" where
  "sign_fill G i op_len z =
     (if op_len \<le> i then sign_fill G (i - 1) op_len (mpz_setbit G z i) else Some z)"

declare sign_fill.simps [code]

definition sign_extend :: "gmp \<Rightarrow> lbits \<Rightarrow> int \<Rightarrow> lbits res" where
  "sign_extend G op n =
     check (l_len op \<le> mpz_get_ui G n) Assertion_failed
       (let rlen = mpz_get_ui G n in
        if mpz_tstbit G (l_bits op) (l_len op - 1)
        then bind_res (of_option No_return (sign_fill G (rlen - 1) (l_len op) (mpz_set G (l_bits op))))
               (\<lambda>z. Inr \<lparr>l_len = rlen, l_bits = z\<rparr>)
        else Inr \<lparr>l_len = rlen, l_bits = mpz_set G (l_bits op)\<rparr>)"

definition length_lbits :: "gmp \<Rightarrow> lbits \<Rightarrow> int" where
  "length_lbits G op = mpz_set_ui G (l_len op)"

definition sail_truncate :: "gmp \<Rightarrow> lbits \<Rightarrow> int \<Rightarrow> lbits res" where
  "sail_truncate G op n =
     check (l_len op \<ge> mpz_get_ui G n) Assertion_failed
       (Inr (normalize_lbits G \<lparr>l_len = mpz_get_ui G n, l_bits = mpz_set G (l_bits op)\<rparr>))"

definition sail_truncateLSB :: "gmp \<Rightarrow> lbits \<Rightarrow> int \<Rightarrow> lbits res" where
  "sail_truncateLSB G op n =
     (let rlen = mpz_get_ui G n
      in check (l_len op \<ge> rlen) Assertion_failed
           (Inr (normalize_lbits G
              \<lparr>l_len = rlen, l_bits = mpz_fdiv_q_2exp G (l_bits op) (l_len op - rlen)\<rparr>)))"

section \<open>Comparison\<close>

text \<open>The bit loops of \<open>eq_bits\<close> and \<open>neq_bits\<close>, with their early returns.\<close>

function eq_bits_from :: "gmp \<Rightarrow> int \<Rightarrow> int \<Rightarrow> nat \<Rightarrow> nat \<Rightarrow> bool" where
  "eq_bits_from G a b i n =
     (if i < n
      then if mpz_tstbit G a (of_nat i) \<noteq> mpz_tstbit G b (of_nat i) then False
           else eq_bits_from G a b (Suc i) n
      else True)"
  by pat_completeness auto
termination
  by (relation "measure (\<lambda>(G, a, b, i, n). n - i)") auto

function neq_bits_from :: "gmp \<Rightarrow> int \<Rightarrow> int \<Rightarrow> nat \<Rightarrow> nat \<Rightarrow> bool" where
  "neq_bits_from G a b i n =
     (if i < n
      then if mpz_tstbit G a (of_nat i) \<noteq> mpz_tstbit G b (of_nat i) then True
           else neq_bits_from G a b (Suc i) n
      else False)"
  by pat_completeness auto
termination
  by (relation "measure (\<lambda>(G, a, b, i, n). n - i)") auto

declare eq_bits_from.simps [simp del] neq_bits_from.simps [simp del]

definition eq_bits :: "gmp \<Rightarrow> lbits \<Rightarrow> lbits \<Rightarrow> bool res" where
  "eq_bits G op1 op2 =
     check (l_len op1 = l_len op2) Assertion_failed
       (Inr (eq_bits_from G (l_bits op1) (l_bits op2) 0 (unat (l_len op1))))"

definition eq_lbits :: "gmp \<Rightarrow> lbits \<Rightarrow> lbits \<Rightarrow> bool res" where
  "eq_lbits G op1 op2 = eq_bits G op1 op2"

definition neq_bits :: "gmp \<Rightarrow> lbits \<Rightarrow> lbits \<Rightarrow> bool res" where
  "neq_bits G op1 op2 =
     check (l_len op1 = l_len op2) Assertion_failed
       (Inr (neq_bits_from G (l_bits op1) (l_bits op2) 0 (unat (l_len op1))))"

section \<open>Concatenation\<close>

definition append :: "gmp \<Rightarrow> lbits \<Rightarrow> lbits \<Rightarrow> lbits" where
  "append G op1 op2 =
     \<lparr>l_len = l_len op1 + l_len op2,
      l_bits = mpz_ior G (mpz_mul_2exp G (l_bits op1) (l_len op2)) (l_bits op2)\<rparr>"

text \<open>On \<open>uint64_t\<close> a left shift by 64 or more is undefined.\<close>

definition shl_u64 :: "u64 \<Rightarrow> u64 \<Rightarrow> u64 res" where
  "shl_u64 x n = check (n < 64) Undefined_behaviour (Inr (push_bit (unat n) x))"

definition append_sf :: "sbits \<Rightarrow> fbits \<Rightarrow> u64 \<Rightarrow> sbits res" where
  "append_sf op1 op2 n =
     bind_res (shl_u64 (s_bits op1) n) (\<lambda>x. Inr \<lparr>s_len = s_len op1 + n, s_bits = x OR op2\<rparr>)"

definition append_fs :: "fbits \<Rightarrow> u64 \<Rightarrow> sbits \<Rightarrow> sbits res" where
  "append_fs op1 n op2 =
     bind_res (shl_u64 op1 (s_len op2)) (\<lambda>x. Inr \<lparr>s_len = n + s_len op2, s_bits = x OR s_bits op2\<rparr>)"

definition append_ss :: "sbits \<Rightarrow> sbits \<Rightarrow> sbits res" where
  "append_ss op1 op2 =
     bind_res (shl_u64 (s_bits op1) (s_len op2))
       (\<lambda>x. Inr \<lparr>s_len = s_len op1 + s_len op2, s_bits = x OR s_bits op2\<rparr>)"

section \<open>Short bitvectors: comparison and exclusive or\<close>

definition eq_sbits :: "sbits \<Rightarrow> sbits \<Rightarrow> bool" where
  "eq_sbits op1 op2 \<longleftrightarrow> s_bits op1 = s_bits op2"

definition neq_sbits :: "sbits \<Rightarrow> sbits \<Rightarrow> bool" where
  "neq_sbits op1 op2 \<longleftrightarrow> s_bits op1 \<noteq> s_bits op2"

definition xor_sbits :: "sbits \<Rightarrow> sbits \<Rightarrow> sbits" where
  "xor_sbits op1 op2 = \<lparr>s_len = s_len op1, s_bits = s_bits op1 XOR s_bits op2\<rparr>"

section \<open>The normal form\<close>

text \<open>The representation invariant of large bitvectors.\<close>

definition wf_lbits :: "lbits \<Rightarrow> bool" where
  "wf_lbits v \<longleftrightarrow> 0 \<le> l_bits v \<and> l_bits v < 2 ^ unat (l_len v)"

lemma wf_lbits_take_bit: "wf_lbits v \<longleftrightarrow> take_bit (unat (l_len v)) (l_bits v) = l_bits v"
  by (simp add: wf_lbits_def take_bit_id_iff)

lemma wf_lbits_bits: "wf_lbits v \<Longrightarrow> bit (l_bits v) j \<Longrightarrow> j < unat (l_len v)"
  unfolding wf_lbits_def using bit_ge_length [of "l_bits v" "unat (l_len v)" j] by fastforce

lemma wf_lbitsI: "take_bit (unat (l_len v)) (l_bits v) = l_bits v \<Longrightarrow> wf_lbits v"
  by (simp add: wf_lbits_take_bit)

section \<open>What the operations compute\<close>

context gmp_laws
begin

lemma normalize_lbits_simps [lbits_simps]:
  "l_len (normalize_lbits G v) = l_len v"
  "l_bits (normalize_lbits G v) = take_bit (unat (l_len v)) (l_bits v)"
  by (simp_all add: normalize_lbits_def Let_def and_low_mask push_bit_of_1 flip: and_low_mask)

lemma not_bits_simps [lbits_simps]:
  "l_len (not_bits G v) = l_len v"
  "l_bits (not_bits G v) = l_bits v XOR mask (unat (l_len v))"
proof -
  have "for_up 0 (unat (l_len v)) (\<lambda>i z. mpz_combit G z (of_nat i)) (l_bits v)
      = for_up 0 (unat (l_len v)) (\<lambda>i z. flip_bit i z) (l_bits v)"
    by (rule for_up_cong) (simp add: unat_of_nat64 order_less_trans)
  then show "l_bits (not_bits G v) = l_bits v XOR mask (unat (l_len v))"
    by (auto simp: not_bits_def bit_eq_iff bit_for_up_flip bit_simps)
qed (simp add: not_bits_def)

lemma sail_signed_eq:
  assumes "wf_lbits v"
  shows "sail_signed G v = (if l_len v = 0 then 0 else signed_take_bit (unat (l_len v) - 1) (l_bits v))"
proof (cases "l_len v = 0")
  case False
  define n where "n = unat (l_len v) - 1"
  have n: "unat (l_len v - 1) = n" "unat (l_len v) = Suc n"
    using False by (auto simp: n_def unat_sub64 unat_gt_0 Suc_pred word_le_nat_alt Suc_le_eq)
  have flip: "flip_bit n (l_bits v) = l_bits v - 2 ^ n" if "bit (l_bits v) n"
    using that by (simp add: flip_bit_eq_if unset_bit_eq)
  have st: "signed_take_bit n (l_bits v) = (if bit (l_bits v) n then l_bits v - 2 ^ Suc n else l_bits v)"
    using assms n by (simp add: wf_lbits_take_bit signed_take_bit_eq_take_bit_minus)
  show ?thesis
    using False flip st n by (auto simp: sail_signed_def Let_def push_bit_of_1)
qed (simp add: sail_signed_def)

end

lemma bit_safe_rshift_max:
  "n \<le> 64 \<Longrightarrow> bit (safe_rshift uint64_max (64 - n)) j \<longleftrightarrow> j < unat n"
proof -
  assume n: "n \<le> 64"
  then have u: "unat (64 - n) = 64 - unat n" by (simp add: unat_sub64)
  show ?thesis
  proof (cases "n = 0")
    case True
    then show ?thesis by (simp add: safe_rshift_def)
  next
    case False
    then have "0 < unat n" by (simp add: unat_gt_0)
    then have "\<not> 64 \<le> 64 - n" using u by (simp add: word_le_nat_alt)
    then show ?thesis using u n
      by (auto simp: safe_rshift_def bit_simps word_le_nat_alt)
  qed
qed

context gmp_laws
begin

lemma bits_conversions [lbits_simps]:
  "create_lbits G = \<lparr>l_len = 0, l_bits = 0\<rparr>"
  "recreate_lbits G = \<lparr>l_len = 0, l_bits = 0\<rparr>"
  "copy_lbits G v = v"
  "create_lbits_of_fbits G w n d = \<lparr>l_len = n, l_bits = uint w\<rparr>"
  "recreate_lbits_of_fbits G w n d = \<lparr>l_len = n, l_bits = uint w\<rparr>"
  "create_lbits_of_sbits G s d = \<lparr>l_len = s_len s, l_bits = uint (s_bits s)\<rparr>"
  "recreate_lbits_of_sbits G s d = \<lparr>l_len = s_len s, l_bits = uint (s_bits s)\<rparr>"
  "create_fbits_of_lbits G v d = word_of_int \<bar>l_bits v\<bar>"
  "convert_fbits_of_lbits G v d = word_of_int \<bar>l_bits v\<bar>"
  "create_sbits_of_lbits G v d = \<lparr>s_len = l_len v, s_bits = word_of_int \<bar>l_bits v\<bar>\<rparr>"
  "convert_sbits_of_lbits G v d = \<lparr>s_len = l_len v, s_bits = word_of_int \<bar>l_bits v\<bar>\<rparr>"
  by (simp_all add: create_lbits_def recreate_lbits_def copy_lbits_def create_lbits_of_fbits_def
      recreate_lbits_of_fbits_def create_lbits_of_sbits_def recreate_lbits_of_sbits_def
      create_fbits_of_lbits_def convert_fbits_of_lbits_def create_sbits_of_lbits_def
      convert_sbits_of_lbits_def)

lemma convert_lbits_of_fbits_eq [lbits_simps]:
  "n \<le> 64 \<Longrightarrow> convert_lbits_of_fbits G w n d = \<lparr>l_len = n, l_bits = take_bit (unat n) (uint w)\<rparr>"
  by (auto simp: convert_lbits_of_fbits_def bit_eq_iff bit_uint64 bit_and_iff bit_safe_rshift_max
      bit_take_bit_iff)

lemma convert_lbits_of_sbits_eq [lbits_simps]:
  "s_len s \<le> 64 \<Longrightarrow>
   convert_lbits_of_sbits G s d = \<lparr>l_len = s_len s, l_bits = take_bit (unat (s_len s)) (uint (s_bits s))\<rparr>"
  using convert_lbits_of_fbits_eq [of "s_len s" "s_bits s"]
  by (simp add: convert_lbits_of_sbits_def convert_lbits_of_fbits_def)

lemma zeros_simps [lbits_simps]:
  "l_len (zeros G k) = word_of_int \<bar>k\<bar>" "l_bits (zeros G k) = 0"
  "undefined_lbits G k b = zeros G k"
  by (simp_all add: zeros_def undefined_lbits_def)

lemma arith_bits [lbits_simps]:
  "l_len (add_bits G a b) = l_len a"
  "l_bits (add_bits G a b) = take_bit (unat (l_len a)) (l_bits a + l_bits b)"
  "l_len (add_bits_int G a k) = l_len a"
  "l_bits (add_bits_int G a k) = take_bit (unat (l_len a)) (l_bits a + k)"
  "l_len (sub_bits_int G a k) = l_len a"
  "l_bits (sub_bits_int G a k) = take_bit (unat (l_len a)) (l_bits a - k)"
  "l_len (mult_vec G a b) = l_len a * 2"
  "l_bits (mult_vec G a b) = take_bit (unat (l_len a * 2)) (l_bits a * l_bits b)"
  "l_len (mults_vec G a b) = l_len a * 2"
  "l_bits (mults_vec G a b) = take_bit (unat (l_len a * 2)) (sail_signed G a * sail_signed G b)"
  by (simp_all add: add_bits_def add_bits_int_def sub_bits_int_def mult_vec_def mults_vec_def
      normalize_lbits_simps)

lemma sub_bits_Inr_iff [lbits_simps]:
  "sub_bits G a b = Inr r \<longleftrightarrow>
     l_len a = l_len b \<and> r = \<lparr>l_len = l_len a, l_bits = take_bit (unat (l_len a)) (l_bits a - l_bits b)\<rparr>"
  by (auto simp: sub_bits_def normalize_lbits_simps intro!: lbits.equality)

lemma bitwise_Inr_iff [lbits_simps]:
  "and_bits G a b = Inr r \<longleftrightarrow> l_len a = l_len b \<and> r = \<lparr>l_len = l_len a, l_bits = l_bits a AND l_bits b\<rparr>"
  "or_bits G a b = Inr r \<longleftrightarrow> l_len a = l_len b \<and> r = \<lparr>l_len = l_len a, l_bits = l_bits a OR l_bits b\<rparr>"
  "xor_bits G a b = Inr r \<longleftrightarrow> l_len a = l_len b \<and> r = \<lparr>l_len = l_len a, l_bits = l_bits a XOR l_bits b\<rparr>"
  by (auto simp: and_bits_def or_bits_def xor_bits_def)

lemma unsigned_eq [lbits_simps]: "sail_unsigned G v = l_bits v"
  by (simp add: sail_unsigned_def)

lemma length_eq [lbits_simps]: "length_lbits G v = uint (l_len v)"
  by (simp add: length_lbits_def)

lemma truncate_Inr_iff [lbits_simps]:
  "sail_truncate G v k = Inr r \<longleftrightarrow>
     word_of_int \<bar>k\<bar> \<le> l_len v \<and>
     r = \<lparr>l_len = word_of_int \<bar>k\<bar>, l_bits = take_bit (unat (word_of_int \<bar>k\<bar> :: u64)) (l_bits v)\<rparr>"
  by (auto simp: sail_truncate_def normalize_lbits_simps intro!: lbits.equality)

lemma truncateLSB_Inr_iff [lbits_simps]:
  "sail_truncateLSB G v k = Inr r \<longleftrightarrow>
     word_of_int \<bar>k\<bar> \<le> l_len v \<and>
     r = \<lparr>l_len = word_of_int \<bar>k\<bar>,
          l_bits = take_bit (unat (word_of_int \<bar>k\<bar> :: u64))
                     (drop_bit (unat (l_len v - word_of_int \<bar>k\<bar>)) (l_bits v))\<rparr>"
  by (auto simp: sail_truncateLSB_def Let_def normalize_lbits_simps intro!: lbits.equality)

lemma zero_extend_Inr_iff [lbits_simps]:
  "zero_extend G v k = Inr r \<longleftrightarrow>
     l_len v \<le> word_of_int \<bar>k\<bar> \<and> r = \<lparr>l_len = word_of_int \<bar>k\<bar>, l_bits = l_bits v\<rparr>"
  by (auto simp: zero_extend_def)

lemma append_simps [lbits_simps]:
  "l_len (append G a b) = l_len a + l_len b"
  "l_bits (append G a b) = push_bit (unat (l_len b)) (l_bits a) OR l_bits b"
  by (simp_all add: append_def)

lemma append_64_simps [lbits_simps]:
  "l_len (append_64 G rop v w) = l_len rop + 64"
  "l_bits (append_64 G rop v w) = push_bit 64 (l_bits v) + uint w"
  by (simp_all add: append_64_def)

lemma eq_bits_from_iff:
  assumes "n \<le> 2 ^ 64"
  shows "eq_bits_from G a b i n \<longleftrightarrow> (\<forall>j. i \<le> j \<and> j < n \<longrightarrow> bit a j = bit b j)"
proof (induction "n - i" arbitrary: i)
  case 0
  then show ?case by (auto simp: eq_bits_from.simps)
next
  case (Suc d)
  then have i: "i < n" "unat (of_nat i :: u64) = i"
    using assms by (auto simp: unat_of_nat64)
  have IH: "eq_bits_from G a b (Suc i) n \<longleftrightarrow> (\<forall>j. Suc i \<le> j \<and> j < n \<longrightarrow> bit a j = bit b j)"
    using Suc by (intro Suc.hyps(1)) simp
  show ?case
    unfolding all_interval_step [OF i(1)] eq_bits_from.simps [of G a b i n] IH
    using i by simp
qed

lemma neq_bits_from_iff:
  assumes "n \<le> 2 ^ 64"
  shows "neq_bits_from G a b i n \<longleftrightarrow> \<not> eq_bits_from G a b i n"
proof (induction "n - i" arbitrary: i)
  case 0
  then show ?case by (simp add: eq_bits_from.simps neq_bits_from.simps)
next
  case (Suc d)
  have "neq_bits_from G a b (Suc i) n \<longleftrightarrow> \<not> eq_bits_from G a b (Suc i) n"
    using Suc by (intro Suc.hyps(1)) simp
  then show ?case
    by (simp add: eq_bits_from.simps [of G a b i n] neq_bits_from.simps [of G a b i n])
qed

lemma eq_bits_Inr:
  assumes "wf_lbits a" "wf_lbits b" "l_len a = l_len b"
  shows "eq_bits G a b = Inr (a = b)" "neq_bits G a b = Inr (a \<noteq> b)"
proof -
  have "eq_bits_from G (l_bits a) (l_bits b) 0 (unat (l_len a)) \<longleftrightarrow>
      (\<forall>j < unat (l_len a). bit (l_bits a) j = bit (l_bits b) j)"
    using eq_bits_from_iff [of "unat (l_len a)" "l_bits a" "l_bits b" 0] by (simp add: order_less_imp_le)
  also have "\<dots> \<longleftrightarrow> l_bits a = l_bits b"
  proof
    assume "\<forall>j < unat (l_len a). bit (l_bits a) j = bit (l_bits b) j"
    with assms show "l_bits a = l_bits b"
      by (intro bits_below_eqI [of "l_bits a" "unat (l_len a)"]) (auto simp: wf_lbits_def)
  qed simp
  also have "\<dots> \<longleftrightarrow> a = b"
    using assms(3) by (cases a; cases b) simp
  finally have eq: "eq_bits_from G (l_bits a) (l_bits b) 0 (unat (l_len a)) \<longleftrightarrow> a = b" .
  then show "eq_bits G a b = Inr (a = b)"
    using assms(3) by (simp add: eq_bits_def)
  show "neq_bits G a b = Inr (a \<noteq> b)"
    using eq assms(3) neq_bits_from_iff [of "unat (l_len a)" "l_bits a" "l_bits b" 0]
    by (simp add: neq_bits_def order_less_imp_le)
qed

lemma sign_fill_bits:
  assumes "0 < n" "unat n \<le> Suc (unat i)"
  shows "\<exists>r. sign_fill G i n z = Some r \<and> (\<forall>j. bit r j \<longleftrightarrow> bit z j \<or> unat n \<le> j \<and> j \<le> unat i)"
  using assms
proof (induction "Suc (unat i) - unat n" arbitrary: i z)
  case 0
  then have "\<not> n \<le> i" by (simp add: word_le_nat_alt)
  then show ?case using 0 by (auto simp: sign_fill.simps)
next
  case (Suc d)
  then have "n \<le> i" "0 < i" by (auto simp: word_le_nat_alt word_less_nat_alt)
  then have i: "Suc (unat (i - 1)) = unat i"
    by (simp add: unat_minus_one word_gt_0 unat_gt_0)
  then have "\<exists>r. sign_fill G (i - 1) n (set_bit (unat i) z) = Some r \<and>
       (\<forall>j. bit r j \<longleftrightarrow> bit (set_bit (unat i) z) j \<or> unat n \<le> j \<and> j \<le> unat (i - 1))"
    using Suc.prems Suc.hyps(2) \<open>n \<le> i\<close> by (intro Suc.hyps(1)) (auto simp: word_le_nat_alt)
  moreover have "unat n \<le> j \<and> j \<le> unat i \<longleftrightarrow> unat i = j \<or> (unat n \<le> j \<and> j \<le> unat (i - 1))" for j
    using i \<open>n \<le> i\<close> by (auto simp: word_le_nat_alt)
  ultimately show ?case
    using \<open>n \<le> i\<close> by (auto simp: sign_fill.simps [of G i] bit_set_bit_iff)
qed

lemma sign_extend_Inr_iff:
  assumes "wf_lbits v"
  shows "sign_extend G v k = Inr r \<longleftrightarrow>
     l_len v \<le> word_of_int \<bar>k\<bar> \<and>
     r = \<lparr>l_len = word_of_int \<bar>k\<bar>,
          l_bits = take_bit (unat (word_of_int \<bar>k\<bar> :: u64)) (sail_signed G v)\<rparr>"
proof -
  define m where "m = (word_of_int \<bar>k\<bar> :: u64)"
  define n where "n = unat (l_len v)"
  have signed: "sail_signed G v = (if n = 0 then 0 else signed_take_bit (n - 1) (l_bits v))"
    using assms by (simp add: sail_signed_eq n_def unat_eq_0)
  have sb: "l_len v \<noteq> 0 \<Longrightarrow> unat (l_len v - 1) = n - 1"
    by (simp add: n_def unat_minus_one)
  have bits: "bit (l_bits v) j \<Longrightarrow> j < n" for j
    using wf_lbits_bits [OF assms] by (simp add: n_def)
  show ?thesis
  proof (cases "l_len v \<le> m")
    case False
    then show ?thesis by (simp add: sign_extend_def m_def)
  next
    case le: True
    show ?thesis
    proof (cases "bit (l_bits v) (unat (l_len v - 1))")
      case True
      have nz: "l_len v \<noteq> 0"
      proof
        assume "l_len v = 0"
        with bits [OF True] show False by (simp add: n_def)
      qed
      with le have "m \<noteq> 0" by auto
      then have m1: "Suc (unat (m - 1)) = unat m"
        by (simp add: unat_minus_one unat_gt_0)
      obtain z where z: "sign_fill G (m - 1) (l_len v) (l_bits v) = Some z"
        "\<And>j. bit z j \<longleftrightarrow> bit (l_bits v) j \<or> n \<le> j \<and> j \<le> unat (m - 1)"
        using sign_fill_bits [of "l_len v" "m - 1" "l_bits v"] nz le m1
        by (auto simp: n_def word_gt_0 word_le_nat_alt)
      have "z = take_bit (unat m) (signed_take_bit (n - 1) (l_bits v))"
        using True nz le m1 bits sb
        by (intro signed_fill_eq)
          (auto simp: z(2) n_def word_le_nat_alt unat_gt_0 less_Suc_eq_le [symmetric])
      then have "z = take_bit (unat m) (sail_signed G v)"
        using nz by (simp add: signed n_def unat_eq_0)
      with z(1) True le show ?thesis
        by (auto simp: sign_extend_def Let_def m_def)
    next
      case F: False
      have "l_bits v = take_bit (unat m) (sail_signed G v)"
      proof (cases "n = 0")
        case True
        then show ?thesis using assms by (simp add: signed n_def wf_lbits_def)
      next
        case False
        then have "l_bits v = take_bit (unat m) (signed_take_bit (n - 1) (l_bits v))"
          using F le bits sb by (intro signed_unfilled_eq) (auto simp: n_def word_le_nat_alt unat_gt_0)
        with False show ?thesis by (simp add: signed)
      qed
      with F le show ?thesis
        by (auto simp: sign_extend_def Let_def m_def)
    qed
  qed
qed

end

end
