(* ===== verification/Sail_Slice.thy ===== *)
theory Sail_Slice
  imports Sail_Bits
begin

text \<open>
  Sail's bitvectors, second part (\<open>lib/sail.c\<close>): selecting and replacing ranges of bits of
  bitvectors and integers, bit access, and replication.
\<close>

section \<open>Selecting bits\<close>

definition vector_subrange_lbits :: "gmp \<Rightarrow> lbits \<Rightarrow> int \<Rightarrow> int \<Rightarrow> lbits" where
  "vector_subrange_lbits G op n_mpz m_mpz =
     (let n = mpz_get_ui G n_mpz; m = mpz_get_ui G m_mpz
      in normalize_lbits G \<lparr>l_len = n - (m - 1), l_bits = mpz_fdiv_q_2exp G (l_bits op) m\<rparr>)"

definition bitvector_access :: "gmp \<Rightarrow> lbits \<Rightarrow> int \<Rightarrow> fbits" where
  "bitvector_access G op n_mpz = (let n = mpz_get_ui G n_mpz in of_bool (mpz_tstbit G (l_bits op) n))"

text \<open>The loop \<open>for (i = 0; i < len; i++) if (mpz_tstbit(n, i + start)) mpz_setbit(rop, i)\<close>.\<close>

definition copy_bits :: "gmp \<Rightarrow> int \<Rightarrow> u64 \<Rightarrow> u64 \<Rightarrow> int \<Rightarrow> int" where
  "copy_bits G src start n rop =
     for_up 0 (unat n)
       (\<lambda>i z. if mpz_tstbit G src (of_nat i + start) then mpz_setbit G z (of_nat i) else z) rop"

definition get_slice_int :: "gmp \<Rightarrow> int \<Rightarrow> int \<Rightarrow> int \<Rightarrow> lbits" where
  "get_slice_int G len_mpz n start_mpz =
     (let start = mpz_get_ui G start_mpz; n_bits = mpz_get_ui G len_mpz
      in \<lparr>l_len = n_bits, l_bits = copy_bits G n start n_bits (mpz_set_ui G 0)\<rparr>)"

definition slice :: "gmp \<Rightarrow> lbits \<Rightarrow> int \<Rightarrow> int \<Rightarrow> lbits res" where
  "slice G op start_mpz len_mpz =
     check (mpz_get_ui G start_mpz + mpz_get_ui G len_mpz \<le> l_len op) Assertion_failed
       (let start = mpz_get_ui G start_mpz; n_bits = mpz_get_ui G len_mpz
        in Inr \<lparr>l_len = n_bits, l_bits = copy_bits G (l_bits op) start n_bits (mpz_set_ui G 0)\<rparr>)"

text \<open>
  On \<open>fbits\<close>: a right shift by a negative amount or by 64 or more is undefined, and so is an
  overflow of \<open>64 - len\<close> on \<open>int64_t\<close>. \<open>sslice_bmi\<close> is the \<open>INTRINSICS\<close> build, where
  \<open>_bzhi_u64\<close> clears the bits from the index in the low byte of its second operand upwards.
\<close>

definition bzhi_u64 :: "u64 \<Rightarrow> u32 \<Rightarrow> u64" where
  "bzhi_u64 x i = (let n = unat (i AND 255) in if n < 64 then take_bit n x else x)"

definition sslice :: "fbits \<Rightarrow> i64 \<Rightarrow> i64 \<Rightarrow> sbits res" where
  "sslice op start n =
     check (0 \<le> sint start \<and> sint start < 64 \<and> 64 - sint n < 2 ^ 63) Undefined_behaviour
       (Inr \<lparr>s_len = n, s_bits = drop_bit (nat (sint start)) op AND safe_rshift uint64_max (64 - n)\<rparr>)"

definition sslice_bmi :: "fbits \<Rightarrow> i64 \<Rightarrow> i64 \<Rightarrow> sbits res" where
  "sslice_bmi op start n =
     check (0 \<le> sint start \<and> sint start < 64) Undefined_behaviour
       (Inr \<lparr>s_len = n, s_bits = bzhi_u64 (drop_bit (nat (sint start)) op) (ucast n)\<rparr>)"

section \<open>Replacing bits\<close>

text \<open>
  The loop that \<open>set_slice_int\<close>, \<open>set_slice\<close> and \<open>vector_update_subrange_lbits\<close> share:
  \<open>for (i = 0; i < n; i++)\<close> the bit \<open>i + start\<close> of \<open>rop\<close> becomes the bit \<open>i\<close> of \<open>src\<close>.
\<close>

definition paste_bits :: "gmp \<Rightarrow> int \<Rightarrow> u64 \<Rightarrow> u64 \<Rightarrow> int \<Rightarrow> int" where
  "paste_bits G src start n rop =
     for_up 0 (unat n)
       (\<lambda>i z. if mpz_tstbit G src (of_nat i) then mpz_setbit G z (of_nat i + start)
              else mpz_clrbit G z (of_nat i + start)) rop"

definition set_slice_int :: "gmp \<Rightarrow> int \<Rightarrow> int \<Rightarrow> int \<Rightarrow> lbits \<Rightarrow> int" where
  "set_slice_int G len_mpz n start_mpz src =
     (let start = mpz_get_ui G start_mpz
      in paste_bits G (l_bits src) start (l_len src) (mpz_set G n))"

definition vector_update_subrange_lbits :: "gmp \<Rightarrow> lbits \<Rightarrow> int \<Rightarrow> int \<Rightarrow> lbits \<Rightarrow> lbits" where
  "vector_update_subrange_lbits G op n_mpz m_mpz src =
     (let n = mpz_get_ui G n_mpz; m = mpz_get_ui G m_mpz
      in \<lparr>l_len = l_len op,
          l_bits = paste_bits G (l_bits src) m (n - (m - 1)) (mpz_set G (l_bits op))\<rparr>)"

definition set_slice :: "gmp \<Rightarrow> int \<Rightarrow> int \<Rightarrow> lbits \<Rightarrow> int \<Rightarrow> lbits \<Rightarrow> lbits" where
  "set_slice G len_mpz slen_mpz op start_mpz src =
     (let start = mpz_get_ui G start_mpz
      in \<lparr>l_len = l_len op,
          l_bits = paste_bits G (l_bits src) start (l_len src) (mpz_set G (l_bits op))\<rparr>)"

section \<open>Replication\<close>

text \<open>
  The loop counter is an \<open>int\<close> compared with a \<open>uint64_t\<close>: past \<open>INT_MAX\<close> iterations it
  overflows, which is undefined.
\<close>

definition replicate_bits :: "gmp \<Rightarrow> lbits \<Rightarrow> int \<Rightarrow> lbits res" where
  "replicate_bits G op1 op2 =
     (let op2_ui = mpz_get_ui G op2
      in check (uint op2_ui \<le> int_max) Undefined_behaviour
           (Inr \<lparr>l_len = l_len op1 * op2_ui,
                 l_bits = for_up 0 (unat op2_ui)
                   (\<lambda>i z. mpz_ior G (mpz_mul_2exp G z (l_len op1)) (l_bits op1)) (mpz_set_ui G 0)\<rparr>))"

definition fast_replicate_bits :: "u64 \<Rightarrow> u64 \<Rightarrow> i64 \<Rightarrow> u64 res" where
  "fast_replicate_bits shift v cnt =
     check ((1 < sint cnt \<longrightarrow> shift < 64) \<and> sint cnt \<le> int_max) Undefined_behaviour
       (Inr (for_up 1 (nat (sint cnt)) (\<lambda>i r. r OR push_bit (unat shift) r) v))"

section \<open>What the operations compute\<close>

context gmp_laws
begin

lemma bit_copy_bits:
  assumes "unat start + unat n \<le> 2 ^ 64"
  shows "bit (copy_bits G src start n rop) j \<longleftrightarrow> bit rop j \<or> (j < unat n \<and> bit src (j + unat start))"
proof -
  have "copy_bits G src start n rop =
      for_up 0 (unat n) (\<lambda>i z. if bit src (i + unat start) then set_bit i z else z) rop"
    unfolding copy_bits_def using assms
    by (intro for_up_cong) (simp add: unat_word_ariths unat_of_nat64)
  then show ?thesis by (simp add: bit_for_up_set)
qed

lemma copy_bits_eq:
  assumes "unat start + unat n \<le> 2 ^ 64"
  shows "copy_bits G src start n 0 = take_bit (unat n) (drop_bit (unat start) src)"
  by (auto simp: bit_eq_iff bit_copy_bits [OF assms] bit_take_bit_iff bit_drop_bit_eq ac_simps)

lemma bit_paste_bits:
  assumes "unat start + unat n \<le> 2 ^ 64"
  shows "bit (paste_bits G src start n rop) j \<longleftrightarrow>
    (if unat start \<le> j \<and> j < unat start + unat n then bit src (j - unat start) else bit rop j)"
proof -
  have "paste_bits G src start n rop =
      for_up 0 (unat n) (\<lambda>i z. if bit src i then set_bit (i + unat start) z
                               else unset_bit (i + unat start) z) rop"
    unfolding paste_bits_def using assms
    by (intro for_up_cong) (simp add: unat_word_ariths unat_of_nat64)
  then show ?thesis by (simp add: bit_for_up_update)
qed

lemma subrange_simps [lbits_simps]:
  "l_len (vector_subrange_lbits G v a b) = word_of_int \<bar>a\<bar> - (word_of_int \<bar>b\<bar> - 1)"
  "l_bits (vector_subrange_lbits G v a b) =
     take_bit (unat (word_of_int \<bar>a\<bar> - (word_of_int \<bar>b\<bar> - 1) :: u64))
       (drop_bit (unat (word_of_int \<bar>b\<bar> :: u64)) (l_bits v))"
  by (simp_all add: vector_subrange_lbits_def Let_def normalize_lbits_simps)

lemma access_eq [lbits_simps]:
  "bitvector_access G v k = of_bool (bit (l_bits v) (unat (word_of_int \<bar>k\<bar> :: u64)))"
  by (simp add: bitvector_access_def)

lemma get_slice_int_simps:
  assumes "0 \<le> s" "0 \<le> k" "s + k \<le> 2 ^ 64" "s < 2 ^ 64" "k < 2 ^ 64"
  shows "l_len (get_slice_int G k n s) = word_of_int k"
    "l_bits (get_slice_int G k n s) = take_bit (nat k) (drop_bit (nat s) n)"
proof -
  have "unat (word_of_int s :: u64) + unat (word_of_int k :: u64) \<le> 2 ^ 64"
    using assms by (simp add: unat_word_of_int64 nat_le_eq_zle flip: nat_add_distrib)
  from copy_bits_eq [OF this, of n]
  show "l_len (get_slice_int G k n s) = word_of_int k"
    "l_bits (get_slice_int G k n s) = take_bit (nat k) (drop_bit (nat s) n)"
    using assms by (simp_all add: get_slice_int_def Let_def unat_word_of_int64)
qed

end

lemma bit_replicate_loop:
  fixes v :: int
  assumes "0 < n" "0 \<le> v" "v < 2 ^ n"
  shows "bit (for_up 0 k (\<lambda>i z. push_bit n z OR v) 0) j \<longleftrightarrow> j < k * n \<and> bit v (j mod n)"
proof (induction k arbitrary: j)
  case (Suc k)
  show ?case
  proof (cases "j < n")
    case True
    then show ?thesis
      using Suc.IH by (simp add: for_up_Suc bit_or_iff bit_push_bit_iff)
  next
    case False
    then have "\<not> bit v j" using assms bit_ge_length [of v n j] by simp
    then show ?thesis
      using False by (auto simp: for_up_Suc bit_or_iff bit_push_bit_iff Suc.IH le_mod_geq)
  qed
qed simp

context gmp_laws
begin

lemma slice_Inr_iff:
  assumes "0 \<le> s" "0 \<le> k" "s + k < 2 ^ 64"
  shows "slice G v s k = Inr r \<longleftrightarrow>
    nat s + nat k \<le> unat (l_len v) \<and>
    r = \<lparr>l_len = word_of_int k, l_bits = take_bit (nat k) (drop_bit (nat s) (l_bits v))\<rparr>"
proof -
  have u: "unat (word_of_int s :: u64) = nat s" "unat (word_of_int k :: u64) = nat k"
    using assms by (simp_all add: unat_word_of_int64)
  have sum: "nat s + nat k < 2 ^ 64" using assms by (simp add: nat_less_iff flip: nat_add_distrib)
  with u have "unat (word_of_int s + word_of_int k :: u64) = nat s + nat k"
    by (simp add: unat_add64)
  moreover have "copy_bits G (l_bits v) (word_of_int s) (word_of_int k) 0 =
      take_bit (nat k) (drop_bit (nat s) (l_bits v))"
    using copy_bits_eq [of "word_of_int s" "word_of_int k" "l_bits v"] u sum by simp
  ultimately show ?thesis
    using assms by (auto simp: slice_def Let_def word_le_nat_alt)
qed

lemma set_slice_simps:
  assumes "0 \<le> s" "nat s + unat (l_len src) \<le> 2 ^ 64" "s < 2 ^ 64"
  shows "l_len (set_slice G n k v s src) = l_len v"
    "bit (l_bits (set_slice G n k v s src)) j \<longleftrightarrow>
       (if nat s \<le> j \<and> j < nat s + unat (l_len src) then bit (l_bits src) (j - nat s) else bit (l_bits v) j)"
    "bit (set_slice_int G n z s src) j \<longleftrightarrow>
       (if nat s \<le> j \<and> j < nat s + unat (l_len src) then bit (l_bits src) (j - nat s) else bit z j)"
  using assms bit_paste_bits [of "word_of_int s" "l_len src" "l_bits src" "l_bits v"]
    bit_paste_bits [of "word_of_int s" "l_len src" "l_bits src" z]
  by (simp_all add: set_slice_def set_slice_int_def Let_def unat_word_of_int64)

lemma update_subrange_simps:
  assumes "0 \<le> b" "b \<le> a" "a < int (unat (l_len v))"
  shows "l_len (vector_update_subrange_lbits G v a b src) = l_len v"
    "bit (l_bits (vector_update_subrange_lbits G v a b src)) j \<longleftrightarrow>
       (if nat b \<le> j \<and> j \<le> nat a then bit (l_bits src) (j - nat b) else bit (l_bits v) j)"
proof -
  have lt: "a < 2 ^ 64"
    using assms(3) uint_lt64 [of "l_len v"] by simp
  have u: "unat (word_of_int b :: u64) = nat b" "unat (word_of_int a :: u64) = nat a"
    using assms lt by (simp_all add: unat_word_of_int64)
  have "a + 1 < 2 ^ 64" using assms(3) uint_lt64 [of "l_len v"] by simp
  have "(word_of_int a - (word_of_int b - 1) :: u64) = word_of_int (a - b + 1)"
    by (simp add: algebra_simps)
  moreover have "unat (word_of_int (a - b + 1) :: u64) = nat (a - b + 1)"
    using assms \<open>a + 1 < 2 ^ 64\<close> by (intro unat_word_of_int64) auto
  ultimately have n: "unat (word_of_int a - (word_of_int b - 1) :: u64) = nat (a - b + 1)"
    by (rule ssubst)
  show "l_len (vector_update_subrange_lbits G v a b src) = l_len v"
    by (simp add: vector_update_subrange_lbits_def Let_def)
  have "nat b + nat (a - b + 1) = nat a + 1" using assms by simp
  then have le: "unat (word_of_int b :: u64) + unat (word_of_int a - (word_of_int b - 1) :: u64) \<le> 2 ^ 64"
    using \<open>a + 1 < 2 ^ 64\<close> u n by simp
  show "bit (l_bits (vector_update_subrange_lbits G v a b src)) j \<longleftrightarrow>
       (if nat b \<le> j \<and> j \<le> nat a then bit (l_bits src) (j - nat b) else bit (l_bits v) j)"
    using assms bit_paste_bits [OF le, of "l_bits src" "l_bits v" j] \<open>nat b + nat (a - b + 1) = nat a + 1\<close>
    by (simp add: vector_update_subrange_lbits_def Let_def u n less_Suc_eq_le)
qed

lemma replicate_bits_Inr_iff:
  assumes "wf_lbits v" "0 < l_len v" "0 \<le> k" "k \<le> int_max"
  shows "\<exists>r. replicate_bits G v k = Inr r \<and> l_len r = l_len v * word_of_int k \<and>
    (\<forall>j. bit (l_bits r) j \<longleftrightarrow> j < nat k * unat (l_len v) \<and> bit (l_bits v) (j mod unat (l_len v)))"
proof -
  have u: "unat (word_of_int k :: u64) = nat k" "uint (word_of_int k :: u64) = k"
    using assms by (simp_all add: unat_word_of_int64 uint_word_of_int64)
  have "0 < unat (l_len v)" using assms(2) by (simp add: unat_gt_0 word_gt_0)
  then show ?thesis
    using assms bit_replicate_loop [of "unat (l_len v)" "l_bits v" "nat k"]
    by (simp add: replicate_bits_def Let_def u wf_lbits_def)
qed

end

lemma fast_replicate_bits_Inr:
  assumes "0 < unat shift" "0 < sint cnt" "sint cnt \<le> int_max" "nat (sint cnt) * unat shift \<le> 64"
    and "take_bit (unat shift) v = v"
  shows "\<exists>r. fast_replicate_bits shift v cnt = Inr r \<and>
    (\<forall>j. bit r j \<longleftrightarrow> j < nat (sint cnt) * unat shift \<and> bit v (j mod unat shift))"
proof -
  define n where "n = unat shift"
  define k where "k = nat (sint cnt)"
  have n: "0 < n" "k * n \<le> 64" "1 \<le> k" using assms by (auto simp: n_def k_def)
  have v: "bit v i \<Longrightarrow> i < n" for i
    using assms(5) unfolding n_def by (metis bit_take_bit_iff)
  have loop: "\<forall>j. bit (for_up 1 k (\<lambda>i r. r OR push_bit n r) v) j \<longleftrightarrow> j < k * n \<and> bit v (j mod n)"
  proof (rule for_up_induct [OF n(3)])
    show "\<forall>j. bit v j \<longleftrightarrow> j < 1 * n \<and> bit v (j mod n)"
      using v by auto
  next
    fix i :: nat and r :: u64 assume i: "1 \<le> i" "i < k" and r: "\<forall>j. bit r j \<longleftrightarrow> j < i * n \<and> bit v (j mod n)"
    have "Suc i * n \<le> k * n" using i by (intro mult_le_mono1) simp
    then have le: "n + i * n \<le> 64" using n by simp
    show "\<forall>j. bit (r OR push_bit n r) j \<longleftrightarrow> j < Suc i * n \<and> bit v (j mod n)"
    proof
      fix j
      have ni: "n \<le> i * n" using i by simp
      have "bit (push_bit n r) j \<longleftrightarrow> n \<le> j \<and> j < Suc i * n \<and> bit v (j mod n)"
      proof (cases "n \<le> j")
        case True
        then have "bit (push_bit n r) j \<longleftrightarrow> j < 64 \<and> bit r (j - n)"
          by (simp add: bit_push_bit_iff)
        also have "bit r (j - n) \<longleftrightarrow> j - n < i * n \<and> bit v (j mod n)"
          using r True by (simp add: le_mod_geq)
        also have "j - n < i * n \<longleftrightarrow> j < Suc i * n" unfolding mult_Suc using True by linarith
        finally show ?thesis using True le unfolding mult_Suc by (metis order_less_le_trans)
      qed (simp only: bit_push_bit_iff, blast)
      then show "bit (r OR push_bit n r) j \<longleftrightarrow> j < Suc i * n \<and> bit v (j mod n)"
        unfolding bit_or_iff mult_Suc using r ni by (metis not_le order_less_le_trans trans_less_add2)
    qed
  qed
  have "1 < sint cnt \<Longrightarrow> shift < 64"
  proof -
    assume "1 < sint cnt"
    then have "2 * n \<le> k * n" by (intro mult_le_mono1) (simp add: k_def)
    then have "n < 64" using n by linarith
    then show "shift < 64" by (simp add: word_less_nat_alt n_def)
  qed
  with loop assms(3) show ?thesis
    by (simp add: fast_replicate_bits_def n_def k_def)
qed

text \<open>With a count of zero the loop does not run either, and the value is returned as it is.\<close>

lemma fast_replicate_bits_zero: "fast_replicate_bits shift v 0 = Inr v"
  by (simp add: fast_replicate_bits_def)

lemma drop_and_low:
  "n \<le> 64 \<Longrightarrow> drop_bit k x AND safe_rshift uint64_max (64 - n) = take_bit (unat n) (drop_bit k (x::u64))"
  by (rule bit_eqI) (auto simp: bit_and_iff bit_safe_rshift_max bit_take_bit_iff)

lemma sslice_Inr:
  assumes "s < 64" "n \<le> 64"
  shows "sslice op s n = Inr \<lparr>s_len = n, s_bits = take_bit (unat n) (drop_bit (unat s) op)\<rparr>"
    "sslice_bmi op s n = sslice op s n"
proof -
  have s: "unat s < 64" "sint s = int (unat s)" and n: "unat n \<le> 64" "sint n = int (unat n)"
    using assms by (auto simp: word_less_nat_alt word_le_nat_alt sint_small)
  then have range: "0 \<le> sint s" "sint s < 64" "64 - sint n < 2 ^ 63" "nat (sint s) = unat s"
    unfolding s(2) n(2) by (simp_all del: of_nat_unat)
  show eq: "sslice op s n = Inr \<lparr>s_len = n, s_bits = take_bit (unat n) (drop_bit (unat s) op)\<rparr>"
    using range assms(2) by (simp add: sslice_def drop_and_low)
  have "unat (ucast n :: u32) = unat n"
    using n by (simp add: unsigned_ucast_eq take_bit_nat_eq_self)
  then have "unat (ucast n AND 255 :: u32) = unat n AND mask 8"
    by (simp add: unsigned_and_eq mask_eq_exp_minus_1)
  also have "\<dots> = unat n"
    using n by (simp flip: take_bit_eq_mask add: take_bit_nat_eq_self)
  finally have "unat (ucast n AND 255 :: u32) = unat n" .
  then have "bzhi_u64 x (ucast n) = take_bit (unat n) x" for x
    using n by (simp add: bzhi_u64_def Let_def take_bit_word_eq_self)
  then show "sslice_bmi op s n = sslice op s n"
    unfolding eq using range by (simp add: sslice_bmi_def)
qed

end
