(* ===== verification/Sail_Shift.thy ===== *)
theory Sail_Shift
  imports Sail_Slice
begin

text \<open>
  Sail's bitvectors, third part (\<open>lib/sail.c\<close>): shifts by a bitvector or an integer, byte
  reversal, and the alignment builtin of the ARM models.
\<close>

section \<open>Shifts\<close>

definition shift_bits_left :: "gmp \<Rightarrow> lbits \<Rightarrow> lbits \<Rightarrow> lbits" where
  "shift_bits_left G op1 op2 =
     normalize_lbits G
       \<lparr>l_len = l_len op1, l_bits = mpz_mul_2exp G (l_bits op1) (mpz_get_ui G (l_bits op2))\<rparr>"

definition shift_bits_right :: "gmp \<Rightarrow> lbits \<Rightarrow> lbits \<Rightarrow> lbits" where
  "shift_bits_right G op1 op2 =
     \<lparr>l_len = l_len op1, l_bits = mpz_tdiv_q_2exp G (l_bits op1) (mpz_get_ui G (l_bits op2))\<rparr>"

text \<open>
  The filling loop \<open>for (; shift_amt > 0; shift_amt--) mpz_setbit(rop, sign_bit - shift_amt + 1)\<close>
  computes its index on \<open>mp_bitcnt_t\<close>, with wrap-around.
\<close>

definition shift_bits_right_arith :: "gmp \<Rightarrow> lbits \<Rightarrow> lbits \<Rightarrow> lbits" where
  "shift_bits_right_arith G op1 op2 =
     (let shift_amt = mpz_get_ui G (l_bits op2);
          sign_bit = l_len op1 - 1;
          z = mpz_fdiv_q_2exp G (l_bits op1) shift_amt
      in \<lparr>l_len = l_len op1,
          l_bits = (if mpz_tstbit G (l_bits op1) sign_bit
                    then for_down (unat shift_amt) (\<lambda>k z. mpz_setbit G z (sign_bit - of_nat k + 1)) z
                    else z)\<rparr>)"

definition shiftl :: "gmp \<Rightarrow> lbits \<Rightarrow> int \<Rightarrow> lbits" where
  "shiftl G op1 op2 =
     normalize_lbits G \<lparr>l_len = l_len op1, l_bits = mpz_mul_2exp G (l_bits op1) (mpz_get_ui G op2)\<rparr>"

definition shiftr :: "gmp \<Rightarrow> lbits \<Rightarrow> int \<Rightarrow> lbits" where
  "shiftr G op1 op2 =
     \<lparr>l_len = l_len op1, l_bits = mpz_tdiv_q_2exp G (l_bits op1) (mpz_get_ui G op2)\<rparr>"

section \<open>Byte reversal\<close>

text \<open>The three swap steps of the fast paths.\<close>

definition swap32 :: "u64 \<Rightarrow> u64" where
  "swap32 x = drop_bit 32 (x AND 0xFFFFFFFF00000000) OR push_bit 32 (x AND 0x00000000FFFFFFFF)"

definition swap16 :: "u64 \<Rightarrow> u64" where
  "swap16 x = drop_bit 16 (x AND 0xFFFF0000FFFF0000) OR push_bit 16 (x AND 0x0000FFFF0000FFFF)"

definition swap8 :: "u64 \<Rightarrow> u64" where
  "swap8 x = drop_bit 8 (x AND 0xFF00FF00FF00FF00) OR push_bit 8 (x AND 0x00FF00FF00FF00FF)"

text \<open>
  The general loop \<open>for (byte = 0; byte < op.len; byte += 8)\<close>, on a 64-bit counter: \<open>byte + 8\<close>
  wraps when \<open>op.len\<close> exceeds \<open>2 ^ 64 - 8\<close>, and the loop then never ends.
\<close>

partial_function (option) reverse_bytes :: "gmp \<Rightarrow> int \<Rightarrow> u64 \<Rightarrow> int \<Rightarrow> u64 \<Rightarrow> int \<Rightarrow> int option" where
  "reverse_bytes G src n mask8 byte rop =
     (if byte < n
      then let tmp2 = mpz_tdiv_q_2exp G src byte;
               tmp2 = mpz_and G tmp2 mask8;
               rop = mpz_mul_2exp G rop 8;
               rop = mpz_ior G rop tmp2
           in reverse_bytes G src n mask8 (byte + 8) rop
      else Some rop)"

declare reverse_bytes.simps [code]

definition reverse_endianness :: "gmp \<Rightarrow> lbits \<Rightarrow> lbits res" where
  "reverse_endianness G op =
     (if l_len op = 64 then
        let x = mpz_get_ui G (l_bits op)
        in Inr \<lparr>l_len = l_len op, l_bits = mpz_set_ui G (swap8 (swap16 (swap32 x)))\<rparr>
      else if l_len op = 32 then
        let x = mpz_get_ui G (l_bits op)
        in Inr \<lparr>l_len = l_len op, l_bits = mpz_set_ui G (swap8 (swap16 x))\<rparr>
      else if l_len op = 16 then
        let x = mpz_get_ui G (l_bits op)
        in Inr \<lparr>l_len = l_len op, l_bits = mpz_set_ui G (swap8 x)\<rparr>
      else if l_len op = 8 then
        Inr \<lparr>l_len = l_len op, l_bits = mpz_set G (l_bits op)\<rparr>
      else
        bind_res (of_option No_return
            (reverse_bytes G (l_bits op) (l_len op) (mpz_set_ui G 0xff) 0 (mpz_set_ui G 0)))
          (\<lambda>z. Inr \<lparr>l_len = l_len op, l_bits = z\<rparr>))"

section \<open>Alignment\<close>

text \<open>A division by zero on \<open>uint64_t\<close> is undefined; the mask has \<open>n - 1\<close> ones.\<close>

definition arm_align :: "gmp \<Rightarrow> lbits \<Rightarrow> int \<Rightarrow> lbits res" where
  "arm_align G x_bv y_mpz =
     (let x = mpz_get_ui G (l_bits x_bv);
          y = mpz_get_ui G y_mpz
      in check (y \<noteq> 0) Undefined_behaviour
           (let z = y * (x div y); n = l_len x_bv
            in Inr \<lparr>l_len = n, l_bits = mpz_set_ui G (safe_rshift uint64_max (64 - (n - 1)) AND z)\<rparr>))"

section \<open>What the shifts compute\<close>

lemma bit_for_down_set:
  "bit (for_down n (\<lambda>k z. set_bit (m - k) z) (z::int)) j \<longleftrightarrow> bit z j \<or> (\<exists>k. 0 < k \<and> k \<le> n \<and> j = m - k)"
  by (induction n arbitrary: z) (auto simp: bit_set_bit_iff le_Suc_eq)

lemma for_down_cong:
  assumes "\<And>k t. 0 < k \<Longrightarrow> k \<le> n \<Longrightarrow> f k t = g k t"
  shows "for_down n f s = for_down n g s"
  using assms by (induction n arbitrary: s) auto

context gmp_laws
begin

lemma shift_lens [lbits_simps]:
  "l_len (shift_bits_left G a b) = l_len a" "l_len (shift_bits_right G a b) = l_len a"
  "l_len (shift_bits_right_arith G a b) = l_len a"
  "l_len (shiftl G a k) = l_len a" "l_len (shiftr G a k) = l_len a"
  by (simp_all add: shift_bits_left_def shift_bits_right_def shift_bits_right_arith_def shiftl_def
      shiftr_def normalize_lbits_simps Let_def)

lemma shiftl_bits [lbits_simps]:
  "l_bits (shiftl G a k) = take_bit (unat (l_len a)) (push_bit (unat (word_of_int \<bar>k\<bar> :: u64)) (l_bits a))"
  "shift_bits_left G a b = shiftl G a (l_bits b)"
  "shift_bits_right G a b = shiftr G a (l_bits b)"
  by (simp_all add: shift_bits_left_def shift_bits_right_def shiftl_def shiftr_def normalize_lbits_simps)

lemma shiftr_bits:
  "0 \<le> l_bits a \<Longrightarrow> l_bits (shiftr G a k) = drop_bit (unat (word_of_int \<bar>k\<bar> :: u64)) (l_bits a)"
  by (simp add: shiftr_def sdiv_pow2_nonneg)

lemma shift_right_arith_bits:
  assumes "wf_lbits a" "0 < l_len a" "0 \<le> l_bits b" "l_bits b \<le> int (unat (l_len a))"
  shows "l_bits (shift_bits_right_arith G a b) =
    take_bit (unat (l_len a)) (drop_bit (nat (l_bits b)) (signed_take_bit (unat (l_len a) - 1) (l_bits a)))"
    (is "?l = ?r")
proof -
  define n where "n = unat (l_len a)"
  define s where "s = nat (l_bits b)"
  have n: "0 < n" "n < 2 ^ 64" "s \<le> n" "int s = l_bits b"
    using assms unat_lt64 [of "l_len a"]
    by (auto simp: n_def s_def unat_gt_0 word_gt_0 nat_le_iff simp del: of_nat_unat)
  have sb: "unat (l_len a - 1) = n - 1"
    using assms(2) by (simp add: n_def unat_minus_one)
  have us: "unat (word_of_int (l_bits b) :: u64) = s"
    using n assms(3) by (simp add: s_def unat_word_of_int64)
  have idx: "unat (l_len a - of_nat k) = n - k" if "0 < k" "k \<le> s" for k
  proof -
    have "unat (of_nat k :: u64) = k" using that n by (simp add: unat_of_nat64)
    then show ?thesis
      using that n by (subst unat_sub64) (simp_all add: word_le_nat_alt n_def)
  qed
  have loop: "for_down s (\<lambda>k z. mpz_setbit G z (l_len a - 1 - of_nat k + 1)) (drop_bit s (l_bits a))
      = for_down s (\<lambda>k z. set_bit (n - k) z) (drop_bit s (l_bits a))"
    by (rule for_down_cong) (simp add: idx)
  have bits: "bit (l_bits a) j \<Longrightarrow> j < n" for j
    using wf_lbits_bits [OF assms(1)] by (simp add: n_def)
  have l: "?l = (if bit (l_bits a) (n - 1)
      then for_down s (\<lambda>k z. set_bit (n - k) z) (drop_bit s (l_bits a)) else drop_bit s (l_bits a))"
    using assms(3) loop by (simp add: shift_bits_right_arith_def Let_def us sb)
  show ?thesis
  proof (rule bit_eqI)
    fix j
    have st: "bit (signed_take_bit (n - 1) (l_bits a)) (s + j) \<longleftrightarrow>
        bit (l_bits a) (if s + j < n then s + j else n - 1)"
      using n by (cases "s + j < n - 1"; cases "s + j = n - 1") (auto simp: bit_signed_take_bit_iff min_def)
    have ex: "(\<exists>k. 0 < k \<and> k \<le> s \<and> j = n - k) \<longleftrightarrow> 0 < s \<and> j < n \<and> n \<le> s + j"
    proof
      assume "0 < s \<and> j < n \<and> n \<le> s + j"
      then show "\<exists>k. 0 < k \<and> k \<le> s \<and> j = n - k" by (intro exI [of _ "n - j"]) linarith
    qed (use n in auto)
    have "bit ?l j \<longleftrightarrow> bit (l_bits a) (s + j) \<or> bit (l_bits a) (n - 1) \<and> 0 < s \<and> j < n \<and> n \<le> s + j"
      unfolding l by (simp add: bit_for_down_set bit_drop_bit_eq ex)
    moreover have "bit ?r j \<longleftrightarrow> j < n \<and> bit (l_bits a) (if s + j < n then s + j else n - 1)"
      unfolding n_def [symmetric] s_def [symmetric] by (simp only: bit_take_bit_iff bit_drop_bit_eq o_def st)
    ultimately show "bit ?l j \<longleftrightarrow> bit ?r j"
      using bits [of "s + j"] n by (cases "s + j < n") auto
  qed
qed

lemma arm_align_Inr:
  assumes "wf_lbits x" "0 < l_len x" "l_len x \<le> 64" "0 < y" "y < 2 ^ 64"
  shows "arm_align G x y = Inr \<lparr>l_len = l_len x,
    l_bits = take_bit (unat (l_len x) - 1) (y * (l_bits x div y))\<rparr>"
proof -
  have x: "0 \<le> l_bits x" "l_bits x < 2 ^ 64"
    using assms(1,3) power_increasing [of "unat (l_len x)" 64 "2::int"]
    by (auto simp: wf_lbits_def word_le_nat_alt)
  have ux: "uint (word_of_int (l_bits x) :: u64) = l_bits x" and uy: "uint (word_of_int y :: u64) = y"
    using x assms by (simp_all add: uint_word_of_int64)
  have "y * (l_bits x div y) \<le> l_bits x" "0 \<le> y * (l_bits x div y)"
    using assms x by (simp_all add: pos_imp_zdiv_nonneg_iff)
      (metis add.commute add_le_same_cancel1 minus_mod_eq_mult_div pos_mod_sign diff_add_cancel le_add_same_cancel2 mult.commute)
  then have z: "uint (word_of_int y * (word_of_int (l_bits x) div word_of_int y) :: u64) = y * (l_bits x div y)"
    using x ux uy by (simp add: uint_word_ariths uint_div)
  have n: "l_len x - 1 \<le> 64" "unat (l_len x - 1) = unat (l_len x) - 1"
    using assms by (auto simp: unat_minus_one word_le_nat_alt)
  have "word_of_int y \<noteq> (0::u64)" using uy assms by auto
  moreover have "uint (safe_rshift uint64_max (64 - (l_len x - 1)) AND
      word_of_int y * (word_of_int (l_bits x) div word_of_int y)) = take_bit (unat (l_len x) - 1) (y * (l_bits x div y))"
    unfolding z [symmetric] n(2) [symmetric]
    by (rule bit_eqI)
      (auto simp only: bit_uint64 bit_and_iff bit_safe_rshift_max [OF n(1)] bit_take_bit_iff)
  ultimately show ?thesis
    using x assms by (simp add: arm_align_def Let_def)
qed

end

end
