(* ===== verification/Bit_List.thy ===== *)
theory Bit_List
  imports Prelude
begin

text \<open>
  The reference semantics of the bitvector builtins: \<open>src/src/sail_lib.ml\<close>, the runtime of
  the OCaml backend, which represents a bitvector as a list of bits with the most significant
  one first. Its \<open>B0\<close>/\<open>B1\<close> are \<open>False\<close>/\<open>True\<close>, its big integers \<open>int\<close>, and an OCaml
  \<open>assert\<close> that fails is \<open>None\<close>. The C runtime is proved against these definitions.
\<close>

section \<open>Bits\<close>

definition ml_and_vec :: "bool list \<Rightarrow> bool list \<Rightarrow> bool list option" where
  "ml_and_vec xs ys = (if length xs = length ys then Some (map2 (\<and>) xs ys) else None)"

definition ml_or_vec :: "bool list \<Rightarrow> bool list \<Rightarrow> bool list option" where
  "ml_or_vec xs ys = (if length xs = length ys then Some (map2 (\<or>) xs ys) else None)"

definition ml_xor_vec :: "bool list \<Rightarrow> bool list \<Rightarrow> bool list option" where
  "ml_xor_vec xs ys = (if length xs = length ys then Some (map2 (\<noteq>) xs ys) else None)"

definition ml_not_vec :: "bool list \<Rightarrow> bool list" where
  "ml_not_vec xs = map Not xs"

section \<open>Ranges\<close>

definition ml_subrange :: "bool list \<Rightarrow> nat \<Rightarrow> nat \<Rightarrow> bool list" where
  "ml_subrange xs n m = rev (take (nat (int n - (int m - 1))) (drop m (rev xs)))"

definition ml_slice :: "bool list \<Rightarrow> nat \<Rightarrow> nat \<Rightarrow> bool list" where
  "ml_slice xs n m = rev (take m (drop n (rev xs)))"

definition ml_access :: "bool list \<Rightarrow> nat \<Rightarrow> bool option" where
  "ml_access xs n = (if n < length xs then Some (rev xs ! n) else None)"

definition ml_append :: "bool list \<Rightarrow> bool list \<Rightarrow> bool list" where
  "ml_append xs ys = xs @ ys"

definition ml_update :: "bool list \<Rightarrow> nat \<Rightarrow> bool \<Rightarrow> bool list" where
  "ml_update xs n x = (let n = (length xs - n) - 1 in take n xs @ [x] @ drop (n + 1) xs)"

fun ml_update_subrange_aux :: "bool list \<Rightarrow> nat \<Rightarrow> bool list \<Rightarrow> bool list" where
  "ml_update_subrange_aux xs k [] = xs"
| "ml_update_subrange_aux xs k (y # ys) = ml_update_subrange_aux (ml_update xs k y) (k - 1) ys"

definition ml_update_subrange :: "bool list \<Rightarrow> nat \<Rightarrow> nat \<Rightarrow> bool list \<Rightarrow> bool list" where
  "ml_update_subrange xs n m ys = ml_update_subrange_aux xs n ys"

definition ml_vector_truncate :: "bool list \<Rightarrow> nat \<Rightarrow> bool list" where
  "ml_vector_truncate xs n = rev (take n (rev xs))"

definition ml_vector_truncateLSB :: "bool list \<Rightarrow> nat \<Rightarrow> bool list" where
  "ml_vector_truncateLSB xs n = take n xs"

section \<open>Readings\<close>

fun ml_uint_bit :: "bool \<Rightarrow> int \<times> nat \<Rightarrow> int \<times> nat" where
  "ml_uint_bit x (n, pos) = (n + 2 ^ pos * of_bool x, pos + 1)"

definition ml_uint :: "bool list \<Rightarrow> int" where
  "ml_uint xs = fst (foldr ml_uint_bit xs (0, 0))"

fun ml_sint :: "bool list \<Rightarrow> int" where
  "ml_sint [] = 0"
| "ml_sint [msb] = - of_bool msb"
| "ml_sint (msb # xs) = - (2 ^ length xs * of_bool msb) + ml_uint xs"

section \<open>Arithmetic\<close>

fun ml_add_bit_with_carry :: "bool \<Rightarrow> bool \<Rightarrow> bool \<Rightarrow> bool \<times> bool" where
  "ml_add_bit_with_carry False False False = (False, False)"
| "ml_add_bit_with_carry False True False = (True, False)"
| "ml_add_bit_with_carry True False False = (True, False)"
| "ml_add_bit_with_carry True True False = (False, True)"
| "ml_add_bit_with_carry False False True = (True, False)"
| "ml_add_bit_with_carry False True True = (False, True)"
| "ml_add_bit_with_carry True False True = (False, True)"
| "ml_add_bit_with_carry True True True = (True, True)"

fun ml_add_step :: "bool \<times> bool \<Rightarrow> bool \<times> bool list \<Rightarrow> bool \<times> bool list" where
  "ml_add_step (x, y) (c, result) = (let (z, c) = ml_add_bit_with_carry x y c in (c, z # result))"

definition ml_add_vec_carry :: "bool list \<Rightarrow> bool list \<Rightarrow> (bool \<times> bool list) option" where
  "ml_add_vec_carry xs ys =
     (if length xs = length ys
      then Some (foldr ml_add_step (zip xs ys) (False, []))
      else None)"

definition ml_add_vec :: "bool list \<Rightarrow> bool list \<Rightarrow> bool list option" where
  "ml_add_vec xs ys = map_option snd (ml_add_vec_carry xs ys)"

fun ml_replicate_bits :: "bool list \<Rightarrow> nat \<Rightarrow> bool list" where
  "ml_replicate_bits xs 0 = []"
| "ml_replicate_bits xs (Suc n) = xs @ ml_replicate_bits xs n"

fun ml_get_slice_int :: "nat \<Rightarrow> int \<Rightarrow> nat \<Rightarrow> bool list" where
  "ml_get_slice_int 0 m k = []"
| "ml_get_slice_int (Suc n) m k = bit m (n + k) # ml_get_slice_int n m k"

definition ml_to_bits :: "nat \<Rightarrow> int \<Rightarrow> bool list" where
  "ml_to_bits n m = ml_get_slice_int n m 0"

definition ml_mult_vec :: "bool list \<Rightarrow> bool list \<Rightarrow> bool list" where
  "ml_mult_vec x y = ml_to_bits (2 * length x) (ml_uint x * ml_uint y)"

definition ml_mults_vec :: "bool list \<Rightarrow> bool list \<Rightarrow> bool list" where
  "ml_mults_vec x y = ml_to_bits (2 * length x) (ml_sint x * ml_sint y)"

definition ml_add_vec_int :: "bool list \<Rightarrow> int \<Rightarrow> bool list option" where
  "ml_add_vec_int v n = ml_add_vec v (ml_to_bits (length v) n)"

definition ml_sub_vec :: "bool list \<Rightarrow> bool list \<Rightarrow> bool list option" where
  "ml_sub_vec xs ys = Option.bind (ml_add_vec_int (ml_not_vec ys) 1) (ml_add_vec xs)"

definition ml_sub_vec_int :: "bool list \<Rightarrow> int \<Rightarrow> bool list option" where
  "ml_sub_vec_int v n = ml_sub_vec v (ml_to_bits (length v) n)"

section \<open>Extension, shifts and byte reversal\<close>

definition ml_zeros :: "nat \<Rightarrow> bool list" where
  "ml_zeros n = ml_replicate_bits [False] n"

definition ml_zero_extend :: "bool list \<Rightarrow> nat \<Rightarrow> bool list" where
  "ml_zero_extend xs m =
     (if m \<le> length xs then take m xs else ml_replicate_bits [False] (m - length xs) @ xs)"

fun ml_sign_extend :: "bool list \<Rightarrow> nat \<Rightarrow> bool list" where
  "ml_sign_extend [] m = ml_replicate_bits [False] m @ []"
| "ml_sign_extend (b # xs) m = ml_replicate_bits [b] (m - length (b # xs)) @ (b # xs)"

definition ml_shiftr :: "bool list \<Rightarrow> nat \<Rightarrow> bool list" where
  "ml_shiftr x y = take (length x) (ml_zeros y @ x)"

definition ml_shiftl :: "bool list \<Rightarrow> nat \<Rightarrow> bool list" where
  "ml_shiftl x y = drop y (x @ ml_zeros y)"

definition ml_shift_bits_right :: "bool list \<Rightarrow> bool list \<Rightarrow> bool list" where
  "ml_shift_bits_right x y = ml_shiftr x (nat (ml_uint y))"

definition ml_shift_bits_left :: "bool list \<Rightarrow> bool list \<Rightarrow> bool list" where
  "ml_shift_bits_left x y = ml_shiftl x (nat (ml_uint y))"

definition ml_shift_bits_right_arith :: "bool list \<Rightarrow> bool list \<Rightarrow> bool list" where
  "ml_shift_bits_right_arith x y =
     take (length x) (ml_replicate_bits (take 1 x) (nat (ml_uint y)) @ x)"

fun ml_reverse_endianness :: "bool list \<Rightarrow> bool list" where
  "ml_reverse_endianness xs =
     (if length xs \<le> 8 then xs else ml_reverse_endianness (drop 8 xs) @ take 8 xs)"

declare ml_reverse_endianness.simps [simp del]

section \<open>Bits of an integer as a list\<close>

text \<open>\<open>int_bl n k\<close> lists the low \<open>n\<close> bits of \<open>k\<close>, most significant first.\<close>

definition int_bl :: "nat \<Rightarrow> int \<Rightarrow> bool list" where
  "int_bl n k = rev (map (bit k) [0..<n])"

lemma length_int_bl [simp]: "length (int_bl n k) = n"
  by (simp add: int_bl_def)

lemma int_bl_0 [simp]: "int_bl 0 k = []"
  by (simp add: int_bl_def)

lemma int_bl_Suc: "int_bl (Suc n) k = bit k n # int_bl n k"
  by (simp add: int_bl_def)

lemma nth_int_bl: "i < n \<Longrightarrow> int_bl n k ! i = bit k (n - Suc i)"
  by (simp add: int_bl_def rev_nth)

lemma rev_int_bl: "rev (int_bl n k) = map (bit k) [0..<n]"
  by (simp add: int_bl_def)

lemma int_bl_eqI: "(\<And>j. j < n \<Longrightarrow> bit a j = bit b j) \<Longrightarrow> int_bl n a = int_bl n b"
  by (simp add: int_bl_def)

lemma int_bl_take_bit [simp]: "n \<le> m \<Longrightarrow> int_bl n (take_bit m k) = int_bl n k"
  by (rule int_bl_eqI) (simp add: bit_take_bit_iff)

lemma int_bl_inject:
  "int_bl n a = int_bl n b \<longleftrightarrow> take_bit n a = take_bit n b"
proof
  assume "int_bl n a = int_bl n b"
  then have "map (bit a) [0..<n] = map (bit b) [0..<n]" by (simp add: int_bl_def)
  then have "\<And>j. j < n \<Longrightarrow> bit a j = bit b j" by simp
  then show "take_bit n a = take_bit n b" by (auto simp: bit_eq_iff bit_take_bit_iff)
next
  assume "take_bit n a = take_bit n b"
  then show "int_bl n a = int_bl n b" by (metis int_bl_take_bit order_refl)
qed

lemma int_bl_add: "int_bl (m + n) k = int_bl m (drop_bit n k) @ int_bl n k"
  by (induction m) (simp_all add: int_bl_Suc bit_drop_bit_eq ac_simps)

lemma take_int_bl: "m \<le> n \<Longrightarrow> take m (int_bl n k) = int_bl m (drop_bit (n - m) k)"
  using int_bl_add [of m "n - m" k] by simp

lemma drop_int_bl: "m \<le> n \<Longrightarrow> drop m (int_bl n k) = int_bl (n - m) k"
  using int_bl_add [of m "n - m" k] by simp

lemma int_bl_False: "(\<And>j. j < n \<Longrightarrow> \<not> bit k j) \<Longrightarrow> int_bl n k = replicate n False"
  by (induction n) (simp_all add: int_bl_Suc)

lemma int_bl_True: "(\<And>j. j < n \<Longrightarrow> bit k j) \<Longrightarrow> int_bl n k = replicate n True"
  by (induction n) (simp_all add: int_bl_Suc)

section \<open>The reference operations on the bits of integers\<close>

lemma snd_ml_uint_foldr: "snd (foldr ml_uint_bit xs (0, 0)) = length xs"
  by (induction xs) (auto, metis One_nat_def add.commute ml_uint_bit.simps plus_1_eq_Suc prod.collapse snd_conv)

lemma ml_uint_Nil [simp]: "ml_uint [] = 0"
  by (simp add: ml_uint_def)

lemma ml_uint_Cons [simp]: "ml_uint (x # xs) = ml_uint xs + 2 ^ length xs * of_bool x"
  using snd_ml_uint_foldr [of xs] by (cases "foldr ml_uint_bit xs (0, 0)") (simp add: ml_uint_def)

lemma ml_uint_int_bl [simp]: "ml_uint (int_bl n k) = take_bit n k"
  by (induction n) (simp_all add: int_bl_Suc take_bit_Suc_from_most ac_simps)

lemma ml_sint_int_bl: "ml_sint (int_bl n k) = (if n = 0 then 0 else signed_take_bit (n - 1) k)"
proof (cases n)
  case (Suc m)
  have "ml_sint (int_bl n k) = - (2 ^ m * of_bool (bit k m)) + take_bit m k"
  proof (cases m)
    case 0
    then show ?thesis by (simp add: Suc int_bl_Suc)
  next
    case (Suc p)
    with \<open>n = Suc m\<close> have "ml_sint (int_bl n k) = - (2 ^ m * of_bool (bit k m)) + ml_uint (int_bl m k)"
      by (simp add: int_bl_Suc del: ml_uint_Cons)
    then show ?thesis by simp
  qed
  also have "\<dots> = signed_take_bit m k"
    by (simp add: signed_take_bit_eq_take_bit_minus take_bit_Suc_from_most algebra_simps)
  finally show ?thesis by (simp add: Suc)
qed simp

lemma ml_get_slice_int_eq: "ml_get_slice_int n m k = int_bl n (drop_bit k m)"
  by (induction n) (simp_all add: int_bl_Suc bit_drop_bit_eq ac_simps)

lemma ml_to_bits_eq [simp]: "ml_to_bits n m = int_bl n m"
  by (simp add: ml_to_bits_def ml_get_slice_int_eq)

lemma ml_not_vec_int_bl [simp]: "ml_not_vec (int_bl n k) = int_bl n (NOT k)"
  by (induction n) (simp_all add: ml_not_vec_def int_bl_Suc bit_not_iff)

lemma map2_int_bl: "map2 f (int_bl n a) (int_bl n b) = rev (map (\<lambda>j. f (bit a j) (bit b j)) [0..<n])"
  by (induction n) (simp_all add: int_bl_Suc)

lemma ml_bitwise_int_bl [simp]:
  "ml_and_vec (int_bl n a) (int_bl n b) = Some (int_bl n (a AND b))"
  "ml_or_vec (int_bl n a) (int_bl n b) = Some (int_bl n (a OR b))"
  "ml_xor_vec (int_bl n a) (int_bl n b) = Some (int_bl n (a XOR b))"
  by (simp_all add: ml_and_vec_def ml_or_vec_def ml_xor_vec_def map2_int_bl)
    (simp_all add: int_bl_def bit_and_iff bit_or_iff bit_xor_iff)

text \<open>Ripple-carry addition: the carry out of the low \<open>n\<close> bits, then the sum bit.\<close>

lemma carry_div:
  fixes a b :: int
  shows "(take_bit n a + take_bit n b) div 2 ^ n = of_bool (2 ^ n \<le> take_bit n a + take_bit n b)"
proof (cases "2 ^ n \<le> take_bit n a + take_bit n b")
  case True
  have "take_bit n a < 2 ^ n" "take_bit n b < 2 ^ n" by simp_all
  then have "take_bit n a + take_bit n b < 2 * 2 ^ n" by linarith
  with True show ?thesis by (intro int_div_pos_eq [where r = "take_bit n a + take_bit n b - 2 ^ n"]) auto
next
  case False
  then show ?thesis by (simp add: div_pos_pos_trivial)
qed

lemma bit_add_carry:
  fixes a b :: int
  shows "bit (a + b) n \<longleftrightarrow> ((bit a n \<noteq> bit b n) \<noteq> (2 ^ n \<le> take_bit n a + take_bit n b))"
proof -
  define c :: int where "c = of_bool (2 ^ n \<le> take_bit n a + take_bit n b)"
  have c: "odd c \<longleftrightarrow> 2 ^ n \<le> take_bit n a + take_bit n b" by (simp add: c_def)
  have "(a + b) div 2 ^ n = a div 2 ^ n + b div 2 ^ n + c"
    using carry_div [of n a b] div_add1_eq [of a b "2 ^ n"] by (simp add: take_bit_eq_mod c_def)
  then have "odd ((a + b) div 2 ^ n) \<longleftrightarrow> odd (a div 2 ^ n + b div 2 ^ n + c)" by (rule arg_cong)
  then show ?thesis
    unfolding bit_iff_odd c [symmetric] by auto
qed

lemma ml_add_vec_foldr:
  "foldr ml_add_step (zip (int_bl n a) (int_bl n b)) (False, [])
   = (2 ^ n \<le> take_bit n a + take_bit n b, int_bl n (a + b))"
proof (induction n)
  case (Suc n)
  have lt: "take_bit n a < 2 ^ n" "take_bit n b < 2 ^ n" "0 \<le> take_bit n a" "0 \<le> take_bit n b"
    by simp_all
  have "take_bit n a + take_bit n b < 2 * 2 ^ n"
    using lt by linarith
  then have "\<not> 2 * 2 ^ n \<le> take_bit n a + take_bit n b"
    unfolding not_le .
  then show ?case
    by (cases "bit a n"; cases "bit b n"; cases "2 ^ n \<le> take_bit n a + take_bit n b")
      (auto simp add: int_bl_Suc Suc.IH bit_add_carry take_bit_Suc_from_most)
qed simp

lemma ml_add_vec_int_bl [simp]: "ml_add_vec (int_bl n a) (int_bl n b) = Some (int_bl n (a + b))"
  by (simp add: ml_add_vec_def ml_add_vec_carry_def ml_add_vec_foldr)

lemma ml_sub_vec_int_bl [simp]: "ml_sub_vec (int_bl n a) (int_bl n b) = Some (int_bl n (a - b))"
  by (simp add: ml_sub_vec_def ml_add_vec_int_def not_int_def)

lemma ml_int_variants_int_bl [simp]:
  "ml_add_vec_int (int_bl n a) k = Some (int_bl n (a + k))"
  "ml_sub_vec_int (int_bl n a) k = Some (int_bl n (a - k))"
  by (simp_all add: ml_add_vec_int_def ml_sub_vec_int_def)

lemma ml_replicate_bits_eq: "ml_replicate_bits xs n = concat (replicate n xs)"
  by (induction n) simp_all

lemma ml_replicate_bit [simp]: "ml_replicate_bits [b] n = replicate n b"
  by (induction n) simp_all

lemma ml_zeros_eq [simp]: "ml_zeros n = replicate n False"
  by (simp add: ml_zeros_def)

lemma int_bl_push_bit: "int_bl (m + n) (push_bit n k) = int_bl m k @ replicate n False"
proof -
  have "int_bl n (push_bit n k) = replicate n False"
    by (rule int_bl_False) (simp add: bit_push_bit_iff)
  moreover have "int_bl m (drop_bit n (push_bit n k)) = int_bl m k"
    by (rule int_bl_eqI) (simp add: bit_drop_bit_eq bit_push_bit_iff)
  ultimately show ?thesis by (simp add: int_bl_add)
qed

lemma ml_shiftl_int_bl [simp]: "ml_shiftl (int_bl n k) y = int_bl n (push_bit y k)"
proof -
  have "int_bl n k @ replicate y False = int_bl (n + y) (push_bit y k)"
    by (simp add: int_bl_push_bit)
  then show ?thesis by (simp add: ml_shiftl_def drop_int_bl)
qed

lemma int_bl_take_bit_add: "int_bl (m + n) (take_bit n k) = replicate m False @ int_bl n k"
  by (simp add: int_bl_add) (simp add: int_bl_False bit_drop_bit_eq bit_take_bit_iff)

lemma ml_shiftr_int_bl [simp]: "ml_shiftr (int_bl n k) y = int_bl n (drop_bit y (take_bit n k))"
proof -
  have "replicate y False @ int_bl n k = int_bl (y + n) (take_bit n k)"
    by (simp add: int_bl_take_bit_add)
  then show ?thesis by (simp add: ml_shiftr_def take_int_bl)
qed

lemma int_bl_signed_take_bit:
  "0 < n \<Longrightarrow> int_bl (m + n) (signed_take_bit (n - 1) k) = replicate m (bit k (n - 1)) @ int_bl n k"
proof -
  assume n: "0 < n"
  have "int_bl n (signed_take_bit (n - 1) k) = int_bl n k"
  proof (rule int_bl_eqI)
    fix j assume "j < n"
    then have "j = n - 1 \<or> j < n - 1" by linarith
    then show "bit (signed_take_bit (n - 1) k) j = bit k j"
      by (auto simp: bit_signed_take_bit_iff)
  qed
  moreover have "int_bl m (drop_bit n (signed_take_bit (n - 1) k)) = replicate m (bit k (n - 1))"
  proof -
    have min: "min (n - 1) (n + j) = n - 1" for j by simp
    show ?thesis
      by (cases "bit k (n - 1)")
        (auto simp: bit_drop_bit_eq bit_signed_take_bit_iff min simp del: One_nat_def
          intro: int_bl_False int_bl_True)
  qed
  ultimately show ?thesis by (simp add: int_bl_add)
qed

lemma take_1_int_bl: "0 < n \<Longrightarrow> take 1 (int_bl n k) = [bit k (n - 1)]"
  by (cases n) (simp_all add: int_bl_Suc)

lemma ml_shift_right_arith_int_bl:
  assumes "0 < n"
  shows "ml_shift_bits_right_arith (int_bl n k) ys =
     int_bl n (drop_bit (nat (ml_uint ys)) (signed_take_bit (n - 1) k))"
proof -
  define y where "y = nat (ml_uint ys)"
  have "ml_replicate_bits (take 1 (int_bl n k)) y @ int_bl n k = int_bl (y + n) (signed_take_bit (n - 1) k)"
    unfolding int_bl_signed_take_bit [OF assms] take_1_int_bl [OF assms] by simp
  then show ?thesis
    by (simp only: ml_shift_bits_right_arith_def y_def [symmetric] length_int_bl) (simp add: take_int_bl)
qed

lemma ml_sign_extend_int_bl:
  "n \<le> m \<Longrightarrow> ml_sign_extend (int_bl n k) m = (if n = 0 then replicate m False
     else int_bl m (signed_take_bit (n - 1) k))"
proof (cases n)
  case (Suc p)
  assume "n \<le> m"
  then show ?thesis
    using int_bl_signed_take_bit [of n "m - n" k] by (simp add: Suc int_bl_Suc [of p k])
qed simp

lemma ml_zero_extend_int_bl: "n \<le> m \<Longrightarrow> ml_zero_extend (int_bl n k) m = int_bl m (take_bit n k)"
  using int_bl_take_bit_add [of "m - n" n k] by (auto simp: ml_zero_extend_def)

lemma ml_truncate_int_bl [simp]:
  "m \<le> n \<Longrightarrow> ml_vector_truncate (int_bl n k) m = int_bl m k"
  "m \<le> n \<Longrightarrow> ml_vector_truncateLSB (int_bl n k) m = int_bl m (drop_bit (n - m) k)"
  by (simp_all add: ml_vector_truncate_def ml_vector_truncateLSB_def rev_take drop_int_bl take_int_bl)

lemma ml_slice_int_bl: "s + m \<le> n \<Longrightarrow> ml_slice (int_bl n k) s m = int_bl m (drop_bit s k)"
  by (simp add: ml_slice_def rev_take rev_drop take_int_bl drop_int_bl)

lemma ml_subrange_int_bl:
  assumes "m \<le> h" "h < n"
  shows "ml_subrange (int_bl n k) h m = int_bl (h - m + 1) (drop_bit m k)"
proof -
  have "nat (int h - (int m - 1)) = h - m + 1" using assms by simp
  then have "ml_subrange (int_bl n k) h m = ml_slice (int_bl n k) m (h - m + 1)"
    by (simp only: ml_subrange_def ml_slice_def)
  then show ?thesis using assms by (simp add: ml_slice_int_bl)
qed

lemma ml_access_int_bl: "ml_access (int_bl n k) i = (if i < n then Some (bit k i) else None)"
  by (simp add: ml_access_def rev_int_bl)

lemma ml_append_int_bl: "ml_append (int_bl m a) (int_bl n b) = int_bl (m + n) (push_bit n a OR take_bit n b)"
proof -
  have "drop_bit n (push_bit n a OR take_bit n b) = a"
    by (auto simp: bit_eq_iff bit_drop_bit_eq bit_or_iff bit_push_bit_iff bit_take_bit_iff)
  moreover have "int_bl n (push_bit n a OR take_bit n b) = int_bl n b"
    by (rule int_bl_eqI) (auto simp: bit_or_iff bit_push_bit_iff bit_take_bit_iff)
  ultimately show ?thesis by (simp add: ml_append_def int_bl_add)
qed

lemma ml_update_nth:
  assumes "k < length xs"
  shows "length (ml_update xs k y) = length xs"
    "i < length xs \<Longrightarrow> rev (ml_update xs k y) ! i = (if i = k then y else rev xs ! i)"
proof -
  have upd: "ml_update xs k y = xs[length xs - k - 1 := y]"
    using assms by (simp add: ml_update_def upd_conv_take_nth_drop Let_def)
  show "length (ml_update xs k y) = length xs" by (simp add: upd)
  show "i < length xs \<Longrightarrow> rev (ml_update xs k y) ! i = (if i = k then y else rev xs ! i)"
    using assms by (auto simp: upd rev_nth nth_list_update)
qed

lemma ml_update_int_bl: "k < n \<Longrightarrow> ml_update (int_bl n z) k y = int_bl n (if y then set_bit k z else unset_bit k z)"
proof -
  assume k: "k < n"
  have "rev (ml_update (int_bl n z) k y) = rev (int_bl n (if y then set_bit k z else unset_bit k z))"
    using ml_update_nth [where k = k and xs = "int_bl n z" and y = y] k
    by (intro nth_equalityI) (auto simp: rev_int_bl bit_set_bit_iff bit_unset_bit_iff)
  then show ?thesis by simp
qed

lemma ml_update_subrange_aux_bits:
  assumes "h < n" "m \<le> Suc h"
    and "\<And>j. j < n \<Longrightarrow> bit r j \<longleftrightarrow> (if Suc h - m \<le> j \<and> j < Suc h then bit v (j - (Suc h - m)) else bit z j)"
  shows "ml_update_subrange_aux (int_bl n z) h (int_bl m v) = int_bl n r"
  using assms
proof (induction m arbitrary: h z)
  case 0
  have "int_bl n z = int_bl n r"
    using 0 by (intro int_bl_eqI) auto
  then show ?case by simp
next
  case (Suc m)
  define z' where "z' = (if bit v m then set_bit h z else unset_bit h z)"
  have z': "bit z' j = (if j = h then bit v m else bit z j)" for j
    by (auto simp: z'_def bit_set_bit_iff bit_unset_bit_iff)
  have step: "ml_update_subrange_aux (int_bl n z) h (int_bl (Suc m) v) =
      ml_update_subrange_aux (int_bl n z') (h - 1) (int_bl m v)"
    using Suc.prems(1) by (simp add: int_bl_Suc ml_update_int_bl z'_def)
  show ?case
  proof (cases "m = 0")
    case True
    have "int_bl n z' = int_bl n r"
      using Suc.prems by (intro int_bl_eqI) (auto simp: z' True)
    with step show ?thesis unfolding True by simp
  next
    case False
    have "ml_update_subrange_aux (int_bl n z') (h - 1) (int_bl m v) = int_bl n r"
    proof (rule Suc.IH)
      fix j assume j: "j < n"
      have "Suc (h - 1) - m = Suc h - Suc m" "Suc (h - 1) = h" using False Suc.prems by auto
      moreover have "bit r h = bit v m" using Suc.prems(1,2) by (simp add: Suc.prems(3))
      ultimately show "bit r j = (if Suc (h - 1) - m \<le> j \<and> j < Suc (h - 1)
          then bit v (j - (Suc (h - 1) - m)) else bit z' j)"
        using Suc.prems(3) [OF j] by (auto simp: z' less_Suc_eq)
    qed (use Suc.prems False in auto)
    then show ?thesis by (simp add: step)
  qed
qed

text \<open>Byte reversal of the low \<open>8 * n\<close> bits of an integer, the value of the loop.\<close>

fun rev_bytes_int :: "nat \<Rightarrow> int \<Rightarrow> int" where
  "rev_bytes_int 0 k = 0"
| "rev_bytes_int (Suc n) k = push_bit 8 (rev_bytes_int n k) OR take_bit 8 (drop_bit (8 * n) k)"

lemma ml_reverse_endianness_int_bl:
  "ml_reverse_endianness (int_bl (8 * n) k) = int_bl (8 * n) (rev_bytes_int n k)"
proof (induction n arbitrary: k)
  case 0
  then show ?case by (simp add: ml_reverse_endianness.simps)
next
  case (Suc n)
  have app: "int_bl (8 * Suc n) (rev_bytes_int (Suc n) k) =
      int_bl (8 * n) (rev_bytes_int n k) @ int_bl 8 (drop_bit (8 * n) k)"
    using ml_append_int_bl [of "8 * n" "rev_bytes_int n k" 8 "drop_bit (8 * n) k"]
    by (simp add: ml_append_def ac_simps)
  show ?case
  proof (cases "n = 0")
    case True
    then show ?thesis using app by (simp add: ml_reverse_endianness.simps)
  next
    case False
    then have "ml_reverse_endianness (int_bl (8 * Suc n) k) =
        ml_reverse_endianness (drop 8 (int_bl (8 * Suc n) k)) @ take 8 (int_bl (8 * Suc n) k)"
      by (subst ml_reverse_endianness.simps) simp
    also have "\<dots> = int_bl (8 * n) (rev_bytes_int n k) @ int_bl 8 (drop_bit (8 * n) k)"
      using Suc.IH [of k] by (simp add: drop_int_bl take_int_bl)
    finally show ?thesis by (simp only: app)
  qed
qed

end
