(* ===== verification/Sail_Reverse.thy ===== *)
theory Sail_Reverse
  imports Sail_Shift Bit_List
begin

text \<open>
  The byte reversal of \<open>lib/sail.c\<close>: the swap steps of the 16, 32 and 64-bit fast paths and the
  general loop compute the same function, \<open>rev_bytes_int\<close>.
\<close>

text \<open>The three swaps move the bit at position \<open>i\<close> by 32, 16 and 8: up when bit 5, 4 or 3 of \<open>i\<close> is clear.\<close>

definition flip_index :: "nat \<Rightarrow> nat \<Rightarrow> nat" where
  "flip_index s j = (if odd (j div s) then j - s else j + s)"

lemma swap_masks:
  "\<forall>i \<in> set [0..<64]. bit (0xFFFFFFFF00000000 :: u64) i \<longleftrightarrow> odd (i div 32)"
  "\<forall>i \<in> set [0..<64]. bit (0x00000000FFFFFFFF :: u64) i \<longleftrightarrow> even (i div 32)"
  "\<forall>i \<in> set [0..<64]. bit (0xFFFF0000FFFF0000 :: u64) i \<longleftrightarrow> odd (i div 16)"
  "\<forall>i \<in> set [0..<64]. bit (0x0000FFFF0000FFFF :: u64) i \<longleftrightarrow> even (i div 16)"
  "\<forall>i \<in> set [0..<64]. bit (0xFF00FF00FF00FF00 :: u64) i \<longleftrightarrow> odd (i div 8)"
  "\<forall>i \<in> set [0..<64]. bit (0x00FF00FF00FF00FF :: u64) i \<longleftrightarrow> even (i div 8)"
  by code_simp+

lemma byte_indices:
  "\<forall>j \<in> set [0..<64]. flip_index 8 j < 64 \<and> flip_index 16 (flip_index 8 j) < 64"
  "\<forall>j \<in> set [0..<64]. flip_index 32 (flip_index 16 (flip_index 8 j)) = 8 * (7 - j div 8) + j mod 8"
  "\<forall>j \<in> set [0..<64]. flip_index 16 (flip_index 8 j) =
     (if j < 32 then 8 * (3 - j div 8) + j mod 8 else 32 + flip_index 16 (flip_index 8 (j - 32)))"
  "\<forall>j \<in> set [0..<64]. flip_index 8 j =
     (if j < 16 then 8 * (1 - j div 8) + j mod 8 else 16 + flip_index 8 (j - 16))"
  by code_simp+

lemma bit_swap_step:
  fixes x m m' :: u64
  assumes j: "j < 64" and s: "0 < s"
    and m: "\<forall>i \<in> set [0..<64]. bit m i \<longleftrightarrow> odd (i div s)" and m': "\<forall>i \<in> set [0..<64]. bit m' i \<longleftrightarrow> even (i div s)"
  shows "bit (drop_bit s (x AND m) OR push_bit s (x AND m')) j \<longleftrightarrow> bit x (flip_index s j)"
proof -
  have up: "(j + s) div s = Suc (j div s)" and down: "s \<le> j \<Longrightarrow> j div s = Suc ((j - s) div s)"
    using s by (simp_all add: le_div_geq)
  have "bit (drop_bit s (x AND m)) j \<longleftrightarrow> bit x (j + s) \<and> even (j div s)"
    "bit (push_bit s (x AND m')) j \<longleftrightarrow> s \<le> j \<and> bit x (j - s) \<and> odd (j div s)"
    using m m' j up down bit_u64_less [of x "j + s"]
    by (auto simp: bit_drop_bit_eq bit_push_bit_iff bit_and_iff ac_simps)
  moreover have "odd (j div s) \<Longrightarrow> s \<le> j"
    using s by (metis div_less even_zero linorder_not_le)
  ultimately show ?thesis
    by (auto simp: bit_or_iff flip_index_def)
qed

lemma bit_swaps:
  assumes "j < 64"
  shows "bit (swap32 x) j \<longleftrightarrow> bit x (flip_index 32 j)"
    "bit (swap16 x) j \<longleftrightarrow> bit x (flip_index 16 j)"
    "bit (swap8 x) j \<longleftrightarrow> bit x (flip_index 8 j)"
  unfolding swap32_def swap16_def swap8_def
  by (rule bit_swap_step [OF assms _ swap_masks(1,2)] bit_swap_step [OF assms _ swap_masks(3,4)]
      bit_swap_step [OF assms _ swap_masks(5,6)]; simp)+

lemma bit_rev_bytes_int:
  "bit (rev_bytes_int n k) j \<longleftrightarrow> j < 8 * n \<and> bit k (8 * (n - 1 - j div 8) + j mod 8)"
proof (induction n arbitrary: j)
  case (Suc n)
  show ?case
  proof (cases "j < 8")
    case True
    then show ?thesis
      by (simp add: bit_or_iff bit_push_bit_iff bit_take_bit_iff bit_drop_bit_eq)
  next
    case False
    then have "j div 8 = Suc ((j - 8) div 8)" "j mod 8 = (j - 8) mod 8"
      by (simp_all add: le_div_geq le_mod_geq)
    then have "n - 1 - (j - 8) div 8 = Suc n - 1 - j div 8" "(j - 8) mod 8 = j mod 8" by simp_all
    with False Suc.IH [of "j - 8"] show ?thesis
      by (auto simp: bit_or_iff bit_push_bit_iff bit_take_bit_iff)
  qed
qed simp

lemma rev_bytes_int_range: "0 \<le> rev_bytes_int n k" "rev_bytes_int n k < 2 ^ (8 * n)"
proof -
  have "take_bit (8 * n) (rev_bytes_int n k) = rev_bytes_int n k"
    by (auto simp: bit_eq_iff bit_take_bit_iff bit_rev_bytes_int)
  then show "0 \<le> rev_bytes_int n k" "rev_bytes_int n k < 2 ^ (8 * n)"
    by (simp_all add: take_bit_id_iff)
qed

text \<open>The fast paths compute the general byte reversal.\<close>

lemma fast_reverse_64: "uint (swap8 (swap16 (swap32 x))) = rev_bytes_int 8 (uint x)"
proof (rule bit_eqI)
  fix j
  show "bit (uint (swap8 (swap16 (swap32 x)))) j \<longleftrightarrow> bit (rev_bytes_int 8 (uint x)) j"
  proof (cases "j < 64")
    case True
    with bspec [OF byte_indices(1), of j] bspec [OF byte_indices(2), of j] show ?thesis
      by (simp add: bit_uint64 bit_swaps bit_rev_bytes_int)
  next
    case False
    then show ?thesis using bit_u64_less by (auto simp: bit_uint64 bit_rev_bytes_int)
  qed
qed

lemma fast_reverse_32: 
  assumes "0 \<le> k" "k < 2 ^ 32"
  shows "uint (swap8 (swap16 (word_of_int k))) = rev_bytes_int 4 k"
proof (rule bit_eqI)
  fix j
  have k: "bit (word_of_int k :: u64) i \<longleftrightarrow> bit k i" for i
    using assms bit_ge_length [of k 32 i] by (cases "i < 32") (auto simp: bit_word_of_int_iff)
  show "bit (uint (swap8 (swap16 (word_of_int k)))) j \<longleftrightarrow> bit (rev_bytes_int 4 k) j"
  proof (cases "j < 64")
    case True
    have "32 \<le> j \<Longrightarrow> \<not> bit k (32 + i)" for i
      using assms by (intro bit_ge_length [of k 32]) auto
    with True bspec [OF byte_indices(1), of j] bspec [OF byte_indices(3), of j] show ?thesis
      by (auto simp: bit_uint64 bit_swaps bit_rev_bytes_int k split: if_splits)
  next
    case False
    then show ?thesis using bit_u64_less by (auto simp: bit_uint64 bit_rev_bytes_int)
  qed
qed

lemma fast_reverse_16: 
  assumes "0 \<le> k" "k < 2 ^ 16"
  shows "uint (swap8 (word_of_int k)) = rev_bytes_int 2 k"
proof (rule bit_eqI)
  fix j
  have k: "bit (word_of_int k :: u64) i \<longleftrightarrow> bit k i" for i
    using assms bit_ge_length [of k 16 i] by (cases "i < 16") (auto simp: bit_word_of_int_iff)
  show "bit (uint (swap8 (word_of_int k))) j \<longleftrightarrow> bit (rev_bytes_int 2 k) j"
  proof (cases "j < 64")
    case True
    have "16 \<le> j \<Longrightarrow> \<not> bit k (16 + i)" for i
      using assms by (intro bit_ge_length [of k 16]) auto
    with True bspec [OF byte_indices(1), of j] bspec [OF byte_indices(4), of j] show ?thesis
      by (auto simp: bit_uint64 bit_swaps bit_rev_bytes_int k split: if_splits)
  next
    case False
    then show ?thesis using bit_u64_less by (auto simp: bit_uint64 bit_rev_bytes_int)
  qed
qed

lemma rev_bytes_int_1: "0 \<le> k \<Longrightarrow> k < 2 ^ 8 \<Longrightarrow> rev_bytes_int 1 k = k"
  by (simp add: take_bit_int_eq_self)

context gmp_laws
begin

lemma reverse_bytes_eq:
  assumes "0 \<le> k" "unat n = 8 * m" "i \<le> m"
  shows "reverse_bytes G k n 255 (of_nat (8 * i)) (rev_bytes_int i k) = Some (rev_bytes_int m k)"
  using assms(3)
proof (induction "m - i" arbitrary: i)
  case 0
  then have "\<not> (of_nat (8 * i) :: u64) < n"
    using assms(2) unat_lt64 [of n] by (simp add: word_less_nat_alt unat_of_nat64 del: of_nat_mult)
  then show ?case using 0 by (simp add: reverse_bytes.simps)
next
  case (Suc d)
  then have i: "i < m" "8 * i < 2 ^ 64" "unat (of_nat (8 * i) :: u64) = 8 * i"
    using assms(2) unat_lt64 [of n] by (simp_all add: unat_of_nat64 del: of_nat_mult)
  have lt: "(of_nat (8 * i) :: u64) < n"
    using i assms(2) by (simp add: word_less_nat_alt del: of_nat_mult)
  have byte: "drop_bit (8 * i) k AND 255 = take_bit 8 (drop_bit (8 * i) k)"
    by (simp add: take_bit_eq_mask mask_eq_exp_minus_1)
  have "reverse_bytes G k n 255 (of_nat (8 * Suc i)) (rev_bytes_int (Suc i) k) = Some (rev_bytes_int m k)"
    using Suc by (intro Suc.hyps(1)) auto
  then show ?case
    using lt i assms(1)
    by (simp add: reverse_bytes.simps [of G k n 255 "of_nat (8 * i)"] Let_def sdiv_pow2_nonneg byte
        add.commute [of _ 8] del: of_nat_mult)
qed

lemma reverse_endianness_eq:
  assumes "wf_lbits v" "unat (l_len v) = 8 * m"
  shows "reverse_endianness G v = Inr \<lparr>l_len = l_len v, l_bits = rev_bytes_int m (l_bits v)\<rparr>"
proof -
  have v: "0 \<le> l_bits v" "l_bits v < 2 ^ unat (l_len v)"
    using assms(1) by (auto simp: wf_lbits_def)
  have gen: "reverse_bytes G (l_bits v) (l_len v) 255 0 0 = Some (rev_bytes_int m (l_bits v))"
    using reverse_bytes_eq [OF v(1) assms(2), of 0] by simp
  have m: "l_len v = 64 \<Longrightarrow> m = 8" "l_len v = 32 \<Longrightarrow> m = 4" "l_len v = 16 \<Longrightarrow> m = 2" "l_len v = 8 \<Longrightarrow> m = 1"
    using assms(2) by auto
  show ?thesis
    using v gen m fast_reverse_64 [of "word_of_int (l_bits v)"] fast_reverse_32 [of "l_bits v"]
      fast_reverse_16 [of "l_bits v"] rev_bytes_int_1 [of "l_bits v"]
    by (auto simp: reverse_endianness_def Let_def uint_word_of_int64)
qed

end
end
