(* ===== verification/Bits_Refine.thy ===== *)
theory Bits_Refine
  imports Sail_Reverse
begin

text \<open>
  Refinement of the C bitvector builtins to the reference semantics: \<open>bl_of\<close> reads an \<open>lbits\<close> as
  the list of its bits, and each builtin of \<open>lib/sail.c\<close> computes on \<open>lbits\<close> what the function
  of \<open>src/src/sail_lib.ml\<close> computes on lists, failed assertions included (\<open>ok\<close> forgets which
  fault it was).
\<close>

section \<open>The abstraction\<close>

definition bl_of :: "lbits \<Rightarrow> bool list" where
  "bl_of v = int_bl (unat (l_len v)) (l_bits v)"

fun ok :: "'a res \<Rightarrow> 'a option" where
  "ok (Inl e) = None"
| "ok (Inr x) = Some x"

lemma length_bl_of [simp]: "length (bl_of v) = unat (l_len v)"
  by (simp add: bl_of_def)

lemma bl_of_inject: "wf_lbits a \<Longrightarrow> wf_lbits b \<Longrightarrow> bl_of a = bl_of b \<longleftrightarrow> a = b"
proof
  assume wf: "wf_lbits a" "wf_lbits b" and eq: "bl_of a = bl_of b"
  have "l_len a = l_len b" using arg_cong [OF eq, of length] by (simp add: word_unat_eq_iff)
  moreover have "l_bits a = l_bits b"
    using eq wf \<open>l_len a = l_len b\<close> by (simp add: bl_of_def int_bl_inject wf_lbits_take_bit)
  ultimately show "a = b" by (cases a; cases b) simp
qed simp

lemma ok_check: "ok (check b e r) = (if b then ok r else None)"
  by (simp add: check_def)

lemma ml_length_mismatch:
  assumes "length xs \<noteq> length ys"
  shows "ml_and_vec xs ys = None" "ml_or_vec xs ys = None" "ml_xor_vec xs ys = None"
    "ml_add_vec xs ys = None"
  using assms by (simp_all add: ml_and_vec_def ml_or_vec_def ml_xor_vec_def ml_add_vec_def ml_add_vec_carry_def)

lemma length_ml_add_vec: "ml_add_vec xs ys = Some zs \<Longrightarrow> length zs = length ys"
proof -
  have "length (snd (foldr ml_add_step (zip xs ys) (c, []))) = min (length xs) (length ys)" for c
  proof (induction xs ys rule: list_induct2')
    case (4 x xs y ys)
    then show ?case
      by (cases "foldr ml_add_step (zip xs ys) (c, [])") (simp add: case_prod_unfold Let_def)
  qed simp_all
  then show "ml_add_vec xs ys = Some zs \<Longrightarrow> length zs = length ys"
    by (auto simp: ml_add_vec_def ml_add_vec_carry_def split: if_splits) (metis min.idem snd_conv)
qed

lemma ml_sub_vec_mismatch: "length xs \<noteq> length ys \<Longrightarrow> ml_sub_vec xs ys = None"
proof (cases "ml_add_vec_int (ml_not_vec ys) 1")
  case (Some zs)
  assume "length xs \<noteq> length ys"
  moreover have "length zs = length ys"
    using length_ml_add_vec [of "ml_not_vec ys" "ml_to_bits (length (ml_not_vec ys)) 1" zs] Some
    by (simp add: ml_add_vec_int_def ml_not_vec_def)
  ultimately show ?thesis by (simp add: ml_sub_vec_def Some ml_length_mismatch)
qed (simp add: ml_sub_vec_def)

lemma bl_of_mismatch: "l_len a \<noteq> l_len b \<Longrightarrow> length (bl_of a) \<noteq> length (bl_of b)"
  by (simp add: word_unat_eq_iff)

lemmas bl_of_mismatches = ml_sub_vec_mismatch [OF bl_of_mismatch] ml_length_mismatch [OF bl_of_mismatch]

context gmp_laws
begin

lemma add_bits_refines:
  "l_len a = l_len b \<Longrightarrow> ml_add_vec (bl_of a) (bl_of b) = Some (bl_of (add_bits G a b))"
  "ml_add_vec_int (bl_of a) k = Some (bl_of (add_bits_int G a k))"
  "ml_sub_vec_int (bl_of a) k = Some (bl_of (sub_bits_int G a k))"
  by (simp_all add: bl_of_def lbits_simps)

lemma sub_bits_refines: "map_option bl_of (ok (sub_bits G a b)) = ml_sub_vec (bl_of a) (bl_of b)"
proof (cases "l_len a = l_len b")
  case True
  then show ?thesis by (simp add: sub_bits_def) (simp add: bl_of_def lbits_simps)
qed (simp add: sub_bits_def bl_of_mismatches)

lemma bitwise_refines:
  "map_option bl_of (ok (and_bits G a b)) = ml_and_vec (bl_of a) (bl_of b)"
  "map_option bl_of (ok (or_bits G a b)) = ml_or_vec (bl_of a) (bl_of b)"
  "map_option bl_of (ok (xor_bits G a b)) = ml_xor_vec (bl_of a) (bl_of b)"
proof -
  show "map_option bl_of (ok (and_bits G a b)) = ml_and_vec (bl_of a) (bl_of b)"
    by (cases "l_len a = l_len b") (simp_all add: and_bits_def bl_of_mismatches, simp add: bl_of_def)
  show "map_option bl_of (ok (or_bits G a b)) = ml_or_vec (bl_of a) (bl_of b)"
    by (cases "l_len a = l_len b") (simp_all add: or_bits_def bl_of_mismatches, simp add: bl_of_def)
  show "map_option bl_of (ok (xor_bits G a b)) = ml_xor_vec (bl_of a) (bl_of b)"
    by (cases "l_len a = l_len b") (simp_all add: xor_bits_def bl_of_mismatches, simp add: bl_of_def)
qed

lemma not_bits_refines: "bl_of (not_bits G a) = ml_not_vec (bl_of a)"
  unfolding bl_of_def lbits_simps ml_not_vec_int_bl
  by (rule int_bl_eqI) (simp add: bit_xor_iff bit_mask_iff bit_not_iff)

lemma signed_refines: "wf_lbits a \<Longrightarrow> sail_signed G a = ml_sint (bl_of a)"
  by (simp add: sail_signed_eq bl_of_def ml_sint_int_bl unat_eq_0)

lemma unsigned_refines: "wf_lbits a \<Longrightarrow> sail_unsigned G a = ml_uint (bl_of a)"
  by (simp add: unsigned_eq bl_of_def wf_lbits_take_bit)

lemma mult_refines:
  assumes "wf_lbits a" "wf_lbits b" "l_len a = l_len b" "l_len a < 2 ^ 63"
  shows "bl_of (mult_vec G a b) = ml_mult_vec (bl_of a) (bl_of b)"
    "bl_of (mults_vec G a b) = ml_mults_vec (bl_of a) (bl_of b)"
proof -
  have "unat (l_len a * 2) = 2 * unat (l_len a)"
    using assms(4) by (simp add: unat_word_ariths word_less_nat_alt)
  then show "bl_of (mult_vec G a b) = ml_mult_vec (bl_of a) (bl_of b)"
    "bl_of (mults_vec G a b) = ml_mults_vec (bl_of a) (bl_of b)"
    using assms
    by (simp_all add: ml_mult_vec_def ml_mults_vec_def flip: signed_refines unsigned_refines)
     (simp_all add: bl_of_def lbits_simps)
qed

lemmas u64_of_int = abs_of_nonneg unat_word_of_int64

lemma extend_refines:
  assumes "wf_lbits v" "int (unat (l_len v)) \<le> k" "k < 2 ^ 64"
  shows "map_option bl_of (ok (zero_extend G v k)) = Some (ml_zero_extend (bl_of v) (nat k))"
    "map_option bl_of (ok (sign_extend G v k)) = Some (ml_sign_extend (bl_of v) (nat k))"
proof -
  have k: "0 \<le> k" using assms(2) of_nat_0_le_iff order_trans by blast
  have n: "unat (l_len v) \<le> nat k" using assms(2) by (simp add: le_nat_iff k)
  have u: "unat (word_of_int \<bar>k\<bar> :: u64) = nat k"
    using k assms(3) by (simp add: u64_of_int)
  then have le: "l_len v \<le> word_of_int \<bar>k\<bar>"
    unfolding word_le_nat_alt u using n by simp
  define r where "r = \<lparr>l_len = word_of_int \<bar>k\<bar>, l_bits = l_bits v\<rparr>"
  have "zero_extend G v k = Inr r"
    using le unfolding zero_extend_Inr_iff r_def by simp
  moreover have "bl_of r = ml_zero_extend (bl_of v) (nat k)"
    using n assms(1) u
    by (simp add: r_def bl_of_def ml_zero_extend_int_bl wf_lbits_take_bit)
  ultimately show "map_option bl_of (ok (zero_extend G v k)) = Some (ml_zero_extend (bl_of v) (nat k))"
    by simp
  define q where "q = \<lparr>l_len = word_of_int \<bar>k\<bar>,
    l_bits = take_bit (unat (word_of_int \<bar>k\<bar> :: u64)) (sail_signed G v)\<rparr>"
  have "sign_extend G v k = Inr q"
    using le unfolding sign_extend_Inr_iff [OF assms(1)] q_def by simp
  moreover have "bl_of q = ml_sign_extend (bl_of v) (nat k)"
    using n assms(1) u
    by (simp add: q_def bl_of_def ml_sign_extend_int_bl sail_signed_eq unat_eq_0 int_bl_False)
  ultimately show "map_option bl_of (ok (sign_extend G v k)) = Some (ml_sign_extend (bl_of v) (nat k))"
    by simp
qed

lemma truncate_refines:
  assumes "0 \<le> k" "k \<le> int (unat (l_len v))"
  shows "map_option bl_of (ok (sail_truncate G v k)) = Some (ml_vector_truncate (bl_of v) (nat k))"
    "map_option bl_of (ok (sail_truncateLSB G v k)) = Some (ml_vector_truncateLSB (bl_of v) (nat k))"
proof -
  have lt: "k < 2 ^ 64" using assms(2) uint_lt64 [of "l_len v"] by simp
  then have u: "unat (word_of_int \<bar>k\<bar> :: u64) = nat k" using assms(1) by (simp add: u64_of_int)
  have n: "nat k \<le> unat (l_len v)" using assms by (simp add: nat_le_iff)
  then have le: "word_of_int \<bar>k\<bar> \<le> l_len v" by (simp add: word_le_nat_alt u)
  define r where "r = \<lparr>l_len = word_of_int \<bar>k\<bar>, l_bits = take_bit (nat k) (l_bits v)\<rparr>"
  have "sail_truncate G v k = Inr r" using le unfolding truncate_Inr_iff r_def u by simp
  moreover have "bl_of r = ml_vector_truncate (bl_of v) (nat k)"
    using n by (simp add: r_def bl_of_def u del: abs_of_nonneg)
  ultimately show "map_option bl_of (ok (sail_truncate G v k)) = Some (ml_vector_truncate (bl_of v) (nat k))"
    by simp
  define q where "q = \<lparr>l_len = word_of_int \<bar>k\<bar>,
    l_bits = take_bit (nat k) (drop_bit (unat (l_len v - word_of_int \<bar>k\<bar>)) (l_bits v))\<rparr>"
  have "sail_truncateLSB G v k = Inr q" using le unfolding truncateLSB_Inr_iff q_def u by simp
  moreover have "bl_of q = ml_vector_truncateLSB (bl_of v) (nat k)"
    using n unfolding q_def bl_of_def lbits.simps u unat_sub64 [OF le]
    by simp
  ultimately show "map_option bl_of (ok (sail_truncateLSB G v k)) = Some (ml_vector_truncateLSB (bl_of v) (nat k))"
    by simp
qed

lemma append_refines:
  assumes "wf_lbits b" "unat (l_len a) + unat (l_len b) < 2 ^ 64"
  shows "bl_of (append G a b) = ml_append (bl_of a) (bl_of b)"
  using assms by (simp add: bl_of_def append_simps unat_add64 ml_append_int_bl wf_lbits_take_bit)

lemma access_refines:
  assumes "0 \<le> k" "k < int (unat (l_len v))"
  shows "ml_access (bl_of v) (nat k) = Some (bitvector_access G v k = 1)"
proof -
  have "k < 2 ^ 64" using assms(2) uint_lt64 [of "l_len v"] by simp
  moreover have "nat k < unat (l_len v)" using assms by (simp add: nat_less_iff)
  ultimately show ?thesis
    using assms(1) by (simp add: bl_of_def ml_access_int_bl access_eq unat_word_of_int64)
qed

lemma slice_refines:
  assumes "0 \<le> s" "0 \<le> k" "s + k \<le> int (unat (l_len v))"
  shows "map_option bl_of (ok (slice G v s k)) = Some (ml_slice (bl_of v) (nat s) (nat k))"
proof -
  have lt: "s + k < 2 ^ 64" using assms(3) uint_lt64 [of "l_len v"] by simp
  define r where "r = \<lparr>l_len = word_of_int k, l_bits = take_bit (nat k) (drop_bit (nat s) (l_bits v))\<rparr>"
  have n: "nat s + nat k \<le> unat (l_len v)" using assms by (simp add: nat_le_iff flip: nat_add_distrib)
  then have "slice G v s k = Inr r"
    unfolding slice_Inr_iff [OF assms(1,2) lt] r_def by simp
  moreover have "bl_of r = ml_slice (bl_of v) (nat s) (nat k)"
    using n lt assms by (simp add: r_def bl_of_def ml_slice_int_bl unat_word_of_int64)
  ultimately show ?thesis by simp
qed

lemma subrange_refines:
  assumes "0 \<le> b" "b \<le> a" "a < int (unat (l_len v))"
  shows "bl_of (vector_subrange_lbits G v a b) = ml_subrange (bl_of v) (nat a) (nat b)"
proof -
  have lt: "a + 1 < 2 ^ 64" using assms(3) uint_lt64 [of "l_len v"] by simp
  have "(word_of_int \<bar>a\<bar> - (word_of_int \<bar>b\<bar> - 1) :: u64) = word_of_int (a - b + 1)"
    using assms by (simp add: algebra_simps)
  moreover have "unat (word_of_int (a - b + 1) :: u64) = nat (a - b + 1)"
    using assms lt by (intro unat_word_of_int64) auto
  moreover have "nat (a - b + 1) = nat a - nat b + 1" using assms by linarith
  ultimately have n: "unat (word_of_int \<bar>a\<bar> - (word_of_int \<bar>b\<bar> - 1) :: u64) = nat a - nat b + 1"
    by (simp only:)
  have "unat (word_of_int \<bar>b\<bar> :: u64) = nat b" using assms lt by (simp add: u64_of_int)
  moreover have "nat a < unat (l_len v)" "nat b \<le> nat a" using assms by (simp_all add: nat_less_iff)
  ultimately show ?thesis
    unfolding bl_of_def subrange_simps n by (simp add: ml_subrange_int_bl)
qed

end

lemma ml_update_subrange_bl_of:
  assumes "nat a < unat (l_len v)" "nat b \<le> nat a" "unat (l_len src) = nat a - nat b + 1" "l_len r = l_len v"
    and "\<And>j. bit (l_bits r) j \<longleftrightarrow>
      (if nat b \<le> j \<and> j \<le> nat a then bit (l_bits src) (j - nat b) else bit (l_bits v) j)"
  shows "bl_of r = ml_update_subrange (bl_of v) (nat a) (nat b) (bl_of src)"
proof -
  have "ml_update_subrange_aux (int_bl (unat (l_len v)) (l_bits v)) (nat a) (int_bl (nat a - nat b + 1) (l_bits src))
      = int_bl (unat (l_len v)) (l_bits r)"
    using assms(1,2) by (intro ml_update_subrange_aux_bits) (auto simp: assms(5))
  then show ?thesis
    using assms(3,4) by (simp add: bl_of_def ml_update_subrange_def)
qed

lemma word_of_int_mod64: "word_of_int (k mod 2 ^ 64) = (word_of_int k :: u64)"
  by (simp only: word_of_int_eq_iff flip: take_bit_eq_mod) simp

context gmp_laws
begin

lemma update_subrange_refines:
  assumes "0 \<le> b" "b \<le> a" "a < int (unat (l_len v))" "int (unat (l_len src)) = a - b + 1"
  shows "bl_of (vector_update_subrange_lbits G v a b src) = ml_update_subrange (bl_of v) (nat a) (nat b) (bl_of src)"
proof (rule ml_update_subrange_bl_of)
  show "nat a < unat (l_len v)" "nat b \<le> nat a" using assms by (simp_all add: nat_less_iff)
  have "unat (l_len src) = nat (a - b + 1)"
    using assms(4) by (metis nat_int)
  then show "unat (l_len src) = nat a - nat b + 1"
    using assms by linarith
qed (use update_subrange_simps [OF assms(1-3)] in auto)

text \<open>\<open>set_slice\<close> of \<open>sail_lib.ml\<close> is \<open>update_subrange\<close> from \<open>n + len - 1\<close> down to \<open>n\<close>.\<close>

lemma set_slice_refines:
  assumes "0 \<le> s" "0 < l_len src" "s + int (unat (l_len src)) \<le> int (unat (l_len v))"
  shows "bl_of (set_slice G n k v s src) =
    ml_update_subrange (bl_of v) (nat s + unat (l_len src) - 1) (nat s) (bl_of src)"
proof -
  define a where "a = s + int (unat (l_len src)) - 1"
  have pos: "0 < unat (l_len src)" using assms(2) by (simp add: unat_gt_0 word_gt_0)
  have na: "nat a = nat s + unat (l_len src) - 1" using assms(1) pos by (simp add: a_def del: of_nat_unat)
  have le: "nat s + unat (l_len src) \<le> unat (l_len v)"
    using assms(1,3) by (simp del: of_nat_unat)
  have lt: "nat s + unat (l_len src) < 2 ^ 64" using order_le_less_trans [OF le unsigned_less] by simp
  then have s: "s < 2 ^ 64" using assms(1) by (simp add: nat_less_iff [symmetric])
  show ?thesis
    unfolding na [symmetric]
  proof (rule ml_update_subrange_bl_of)
    show "nat a < unat (l_len v)" "nat s \<le> nat a" "unat (l_len src) = nat a - nat s + 1"
      using pos le unfolding na by simp_all
    show "l_len (set_slice G n k v s src) = l_len v"
      using lt s assms(1) by (intro set_slice_simps) auto
    fix j
    have "nat s \<le> j \<and> j < nat s + unat (l_len src) \<longleftrightarrow> nat s \<le> j \<and> j \<le> nat a"
      using pos unfolding na by auto
    then show "bit (l_bits (set_slice G n k v s src)) j \<longleftrightarrow>
        (if nat s \<le> j \<and> j \<le> nat a then bit (l_bits src) (j - nat s) else bit (l_bits v) j)"
      using lt s assms(1) by (subst set_slice_simps) auto
  qed
qed

lemma shift_refines:
  assumes "wf_lbits v" "0 \<le> k" "k < 2 ^ 64"
  shows "bl_of (shiftl G v k) = ml_shiftl (bl_of v) (nat k)"
    "bl_of (shiftr G v k) = ml_shiftr (bl_of v) (nat k)"
  using assms shiftr_bits [of v k]
  by (simp_all add: bl_of_def lbits_simps unat_word_of_int64 wf_lbits_def take_bit_int_eq_self)

lemma shift_refines_mod:
  assumes "wf_lbits v" "0 \<le> k"
  shows "bl_of (shiftl G v k) = ml_shiftl (bl_of v) (nat (k mod 2 ^ 64))"
    "bl_of (shiftr G v k) = ml_shiftr (bl_of v) (nat (k mod 2 ^ 64))"
  using shift_refines [OF assms(1), of "k mod 2 ^ 64"]
  by (simp_all add: shiftl_def shiftr_def assms(2) word_of_int_mod64 [simplified])
lemma shift_right_arith_refines:
  assumes "wf_lbits v" "wf_lbits k" "0 < l_len v" "l_bits k \<le> int (unat (l_len v))"
  shows "bl_of (shift_bits_right_arith G v k) = ml_shift_bits_right_arith (bl_of v) (bl_of k)"
proof -
  have k: "0 \<le> l_bits k" "ml_uint (bl_of k) = l_bits k"
    using assms(2) by (auto simp: wf_lbits_def bl_of_def take_bit_int_eq_self)
  have "0 < unat (l_len v)" using assms(3) by (simp add: unat_gt_0 word_gt_0)
  then show ?thesis
    using shift_right_arith_bits [OF assms(1,3) k(1) assms(4)]
    by (simp add: bl_of_def [of v] bl_of_def [of "shift_bits_right_arith G v k"] lbits_simps
        ml_shift_right_arith_int_bl k(2))
qed

lemma reverse_endianness_refines:
  assumes "wf_lbits v" "unat (l_len v) = 8 * m"
  shows "map_option bl_of (ok (reverse_endianness G v)) = Some (ml_reverse_endianness (bl_of v))"
  using assms by (simp add: reverse_endianness_eq bl_of_def ml_reverse_endianness_int_bl)

lemma replicate_refines:
  assumes "wf_lbits v" "0 < l_len v" "0 \<le> k" "k \<le> int_max" "nat k * unat (l_len v) < 2 ^ 64"
  shows "map_option bl_of (ok (replicate_bits G v k)) = Some (ml_replicate_bits (bl_of v) (nat k))"
proof -
  define n where "n = unat (l_len v)"
  obtain r where r: "replicate_bits G v k = Inr r" "l_len r = l_len v * word_of_int k"
      "\<forall>j. bit (l_bits r) j \<longleftrightarrow> j < nat k * n \<and> bit (l_bits v) (j mod n)"
    using replicate_bits_Inr_iff [OF assms(1-4)] by (auto simp: n_def)
  have u: "unat (word_of_int k :: u64) = nat k" using assms by (simp add: unat_word_of_int64)
  have "unat (l_len r) = nat k * n"
    using assms(5) by (simp add: r(2) unat_word_ariths u n_def mult.commute)
  moreover have "i \<le> nat k \<Longrightarrow> int_bl (i * n) (l_bits r) = ml_replicate_bits (int_bl n (l_bits v)) i" for i
  proof (induction i)
    case (Suc i)
    have "Suc i * n \<le> nat k * n" using Suc.prems by (rule mult_le_mono1)
    then have "int_bl n (drop_bit (i * n) (l_bits r)) = int_bl n (l_bits v)"
      using r(3) by (intro int_bl_eqI) (auto simp: bit_drop_bit_eq)
    then show ?case using Suc by (simp add: int_bl_add)
  qed simp
  ultimately show ?thesis by (simp add: r(1)) (simp add: bl_of_def n_def)
qed

lemma get_slice_int_refines:
  assumes "0 \<le> s" "0 \<le> k" "s + k \<le> 2 ^ 64" "s < 2 ^ 64" "k < 2 ^ 64"
  shows "bl_of (get_slice_int G k z s) = ml_get_slice_int (nat k) z (nat s)"
  using assms by (simp add: bl_of_def get_slice_int_simps ml_get_slice_int_eq unat_word_of_int64)

end

section \<open>Every operation keeps the normal form\<close>

lemma wf_lbits_take_bitI [intro]: "l_bits v = take_bit (unat (l_len v)) k \<Longrightarrow> wf_lbits v"
  by (simp add: wf_lbits_take_bit)

lemma wf_lbits_bitsI:
  assumes "\<And>j. bit (l_bits v) j \<Longrightarrow> j < unat (l_len v)"
  shows "wf_lbits v"
proof (rule wf_lbits_take_bitI)
  show "l_bits v = take_bit (unat (l_len v)) (l_bits v)"
    using assms by (auto simp: bit_eq_iff bit_take_bit_iff)
qed

lemma bit_safe_rshift_max_wf: "wf_lbits \<lparr>l_len = n, l_bits = uint (x AND safe_rshift uint64_max (64 - n))\<rparr>"
proof (rule wf_lbits_bitsI)
  fix j assume j: "bit (l_bits \<lparr>l_len = n, l_bits = uint (x AND safe_rshift uint64_max (64 - n))\<rparr>) j"
  show "j < unat (l_len \<lparr>l_len = n, l_bits = uint (x AND safe_rshift uint64_max (64 - n))\<rparr>)"
  proof (cases "n \<le> 64")
    case True
    with j show ?thesis by (auto simp: bit_uint64 bit_and_iff bit_safe_rshift_max)
  next
    case False
    then have "64 < unat n" by (simp add: word_le_nat_alt)
    with j bit_u64_less show ?thesis by (fastforce simp: bit_uint64)
  qed
qed

context gmp_laws
begin

lemma wf_arith:
  "wf_lbits (add_bits G a b)" "wf_lbits (add_bits_int G a k)" "wf_lbits (sub_bits_int G a k)"
  "sub_bits G a b = Inr r \<Longrightarrow> wf_lbits r"
  "wf_lbits (mult_vec G a b)" "wf_lbits (mults_vec G a b)"
  by (auto simp: wf_lbits_take_bit lbits_simps)

lemma wf_bitwise:
  assumes "wf_lbits a" "wf_lbits b"
  shows "and_bits G a b = Inr r \<Longrightarrow> wf_lbits r" "or_bits G a b = Inr r \<Longrightarrow> wf_lbits r"
    "xor_bits G a b = Inr r \<Longrightarrow> wf_lbits r" "wf_lbits (not_bits G a)"
  using wf_lbits_bits [OF assms(1)] wf_lbits_bits [OF assms(2)]
  by (auto simp: lbits_simps bit_and_iff bit_or_iff bit_xor_iff bit_mask_iff
      intro!: wf_lbits_bitsI split: if_splits)

lemma wf_extend:
  assumes "wf_lbits v"
  shows "zero_extend G v k = Inr r \<Longrightarrow> wf_lbits r" "sign_extend G v k = Inr r \<Longrightarrow> wf_lbits r"
    "sail_truncate G v k = Inr r \<Longrightarrow> wf_lbits r" "sail_truncateLSB G v k = Inr r \<Longrightarrow> wf_lbits r"
proof -
  assume "zero_extend G v k = Inr r"
  then show "wf_lbits r"
    using assms by (auto simp: zero_extend_Inr_iff word_le_nat_alt intro!: wf_lbits_bitsI dest!: wf_lbits_bits)
qed (auto simp: sign_extend_Inr_iff [OF assms] truncate_Inr_iff truncateLSB_Inr_iff)

lemma wf_update:
  assumes "wf_lbits v"
  shows "\<lbrakk>0 \<le> b; b \<le> a; a < int (unat (l_len v))\<rbrakk> \<Longrightarrow> wf_lbits (vector_update_subrange_lbits G v a b src)"
    "\<lbrakk>0 \<le> s; s + int (unat (l_len src)) \<le> int (unat (l_len v))\<rbrakk> \<Longrightarrow> wf_lbits (set_slice G n k v s src)"
proof -
  assume r: "0 \<le> b" "b \<le> a" "a < int (unat (l_len v))"
  then have "nat a < unat (l_len v)" by (simp add: nat_less_iff)
  then show "wf_lbits (vector_update_subrange_lbits G v a b src)"
    using wf_lbits_bits [OF assms]
    by (intro wf_lbits_bitsI) (auto simp: update_subrange_simps [OF r] split: if_splits)
next
  assume r: "0 \<le> s" "s + int (unat (l_len src)) \<le> int (unat (l_len v))"
  then have le: "nat s + unat (l_len src) \<le> unat (l_len v)" by (simp del: of_nat_unat)
  then have lt: "nat s + unat (l_len src) < 2 ^ 64" using order_le_less_trans [OF le unsigned_less] by simp
  then have s: "s < 2 ^ 64" "nat s + unat (l_len src) \<le> 2 ^ 64"
    using r(1) by (simp_all add: nat_less_iff [symmetric])
  show "wf_lbits (set_slice G n k v s src)"
    using wf_lbits_bits [OF assms] le
    by (intro wf_lbits_bitsI)
      (auto simp: set_slice_simps [OF r(1) s(2,1)] split: if_splits)
qed

lemma wf_shift:
  assumes "wf_lbits v"
  shows "wf_lbits (shiftl G v k)" "wf_lbits (shiftr G v k)"
    "wf_lbits (shift_bits_left G v w)" "wf_lbits (shift_bits_right G v w)"
proof -
  show l: "wf_lbits (shiftl G v k)" for k by (auto simp: lbits_simps)
  show r: "wf_lbits (shiftr G v k)" for k
    using wf_lbits_bits [OF assms] assms
    by (intro wf_lbits_bitsI) (fastforce simp: lbits_simps shiftr_bits wf_lbits_def bit_drop_bit_eq)
  show "wf_lbits (shift_bits_left G v w)" "wf_lbits (shift_bits_right G v w)"
    by (simp_all add: shiftl_bits l r)
qed

lemma wf_append:
  assumes "wf_lbits a" "wf_lbits b" "unat (l_len a) + unat (l_len b) < 2 ^ 64"
  shows "wf_lbits (append G a b)"
  using assms
  by (intro wf_lbits_bitsI)
    (auto simp: append_simps unat_add64 bit_or_iff bit_push_bit_iff dest!: wf_lbits_bits)

lemma copy_bits_below: "bit (copy_bits G src start n 0) j \<Longrightarrow> j < unat n"
proof -
  have "\<forall>j. bit (for_up 0 (unat n)
      (\<lambda>i z. if mpz_tstbit G src (of_nat i + start) then mpz_setbit G z (of_nat i) else z) 0) j \<longrightarrow> j < unat n"
    (is "\<forall>j. bit ?z j \<longrightarrow> _")
  proof (rule for_up_induct [of 0 "unat n" "\<lambda>i z. \<forall>j. bit z j \<longrightarrow> j < i"])
    fix i and z :: int
    assume "i < unat n" "\<forall>j. bit z j \<longrightarrow> j < i"
    moreover from order_less_trans [OF this(1) unat_lt64] have "i < 2 ^ 64" by simp
    then have "unat (of_nat i :: u64) = i" by (rule unat_of_nat64)
    ultimately show "\<forall>j. bit (if mpz_tstbit G src (of_nat i + start) then mpz_setbit G z (of_nat i) else z) j \<longrightarrow> j < Suc i"
      by (auto simp: bit_set_bit_iff less_Suc_eq)
  qed simp_all
  then show "bit (copy_bits G src start n 0) j \<Longrightarrow> j < unat n"
    by (simp add: copy_bits_def)
qed

lemma wf_copied:
  "slice G v s k = Inr r \<Longrightarrow> wf_lbits r" "wf_lbits (get_slice_int G k z s)" "wf_lbits (vector_subrange_lbits G v a b)"
  using copy_bits_below
  by (auto simp: slice_def get_slice_int_def Let_def subrange_simps bit_take_bit_iff split: if_splits intro!: wf_lbits_bitsI)

lemma wf_masked:
  "wf_lbits (convert_lbits_of_fbits G w n d)" "wf_lbits (convert_lbits_of_sbits G s d)" "wf_lbits (zeros G k)"
  using bit_safe_rshift_max_wf 
  by (auto simp: convert_lbits_of_fbits_def convert_lbits_of_sbits_def zeros_def wf_lbits_def)

lemma wf_replicate:
  assumes "wf_lbits v" "nat \<bar>k\<bar> * unat (l_len v) < 2 ^ 64" "replicate_bits G v k = Inr r"
  shows "wf_lbits r"
proof (cases "l_len v = 0")
  case True
  then have "l_bits v = 0" using assms(1) by (simp add: wf_lbits_def)
  moreover have "for_up 0 n (\<lambda>i z. z) (0::int) = 0" for n by (induction n) (simp_all add: for_up_Suc)
  ultimately show ?thesis using True assms(3)
    by (auto simp: replicate_bits_def Let_def wf_lbits_def split: if_splits)
next
  case False
  then have n: "0 < unat (l_len v)" by (simp add: unat_gt_0)
  then have "nat \<bar>k\<bar> * 1 \<le> nat \<bar>k\<bar> * unat (l_len v)" by (intro mult_le_mono2) simp
  with assms(2) have "nat \<bar>k\<bar> < 2 ^ 64" by linarith
  then have u: "unat (word_of_int \<bar>k\<bar> :: u64) = nat \<bar>k\<bar>" by (simp add: unat_word_of_int64 nat_less_iff)
  show ?thesis
  proof (rule wf_lbits_bitsI)
    fix j assume j: "bit (l_bits r) j"
    have "l_len r = l_len v * word_of_int \<bar>k\<bar>"
      "l_bits r = for_up 0 (nat \<bar>k\<bar>) (\<lambda>i z. push_bit (unat (l_len v)) z OR l_bits v) 0"
      using assms(3) by (auto simp: replicate_bits_def Let_def u split: if_splits)
    moreover from this(1) have "unat (l_len r) = nat \<bar>k\<bar> * unat (l_len v)"
      using assms(2) by (simp add: unat_word_ariths u mult.commute)
    ultimately show "j < unat (l_len r)"
      using j bit_replicate_loop [OF n, of "l_bits v" "nat \<bar>k\<bar>" j] assms(1) by (simp add: wf_lbits_def)
  qed
qed

lemma wf_reverse:
  assumes "wf_lbits v" "8 dvd unat (l_len v)"
  shows "reverse_endianness G v = Inr r \<Longrightarrow> wf_lbits r"
proof -
  obtain m where m: "unat (l_len v) = 8 * m" using assms(2) by (elim dvdE)
  then show "reverse_endianness G v = Inr r \<Longrightarrow> wf_lbits r"
    using rev_bytes_int_range [of m "l_bits v"] by (auto simp: reverse_endianness_eq [OF assms(1) m] wf_lbits_def)
qed

lemma wf_shift_arith:
  assumes "wf_lbits v" "wf_lbits k" "l_bits k \<le> int (unat (l_len v))"
  shows "wf_lbits (shift_bits_right_arith G v k)"
proof (cases "l_len v = 0")
  case True
  then have "l_bits v = 0" using assms(1) by (simp add: wf_lbits_def)
  then show ?thesis using True by (simp add: shift_bits_right_arith_def Let_def wf_lbits_def)
next
  case False
  then have "0 < l_len v" "0 \<le> l_bits k" using assms(2) by (simp_all add: word_gt_0 wf_lbits_def)
  from shift_right_arith_bits [OF assms(1) this assms(3)] show ?thesis
    by (auto simp: wf_lbits_take_bit lbits_simps)
qed

lemma wf_arm_align: "arm_align G v y = Inr r \<Longrightarrow> wf_lbits r"
proof -
  assume "arm_align G v y = Inr r"
  then obtain z where r: "r = \<lparr>l_len = l_len v, l_bits = uint (z AND safe_rshift uint64_max (64 - (l_len v - 1)))\<rparr>"
    by (auto simp: arm_align_def Let_def and.commute split: if_splits)
  have w: "wf_lbits \<lparr>l_len = l_len v - 1, l_bits = l_bits r\<rparr>" unfolding r lbits.simps by (rule bit_safe_rshift_max_wf)
  show ?thesis
  proof (cases "l_len v = 0")
    case True
    then show ?thesis by (simp add: r safe_rshift_def wf_lbits_def)
  next
    case False
    then have "unat (l_len v - 1) < unat (l_len v)" by (simp add: unat_minus_one unat_gt_0)
    then show ?thesis using wf_lbits_bits [OF w]
      by (intro wf_lbits_bitsI) (auto simp only: r lbits.simps intro: less_trans)
  qed
qed

lemma replicate_bits_empty:
  assumes "0 \<le> k" "k \<le> int_max"
  shows "replicate_bits G \<lparr>l_len = 0, l_bits = 0\<rparr> k = Inr \<lparr>l_len = 0, l_bits = 0\<rparr>"
proof -
  have "uint (word_of_int k :: u64) = k"
    using assms by (intro uint_word_of_int64) auto
  then show ?thesis using assms by (simp add: replicate_bits_def Let_def for_up_skip)
qed

end

lemma fast_replicate_bits_empty: "sint cnt \<le> int_max \<Longrightarrow> fast_replicate_bits 0 0 cnt = Inr 0"
  by (simp add: fast_replicate_bits_def for_up_skip)

end
