(* ===== verification/Theorems_Bits.thy ===== *)
theory Theorems_Bits
  imports Bits_Refine
begin

text \<open>
  The properties of integers and bitvectors. The reference for bitvectors is \<open>sail_lib.ml\<close>, on
  lists of bits with the most significant first: \<open>bl_of\<close> is the list of a bitvector.
\<close>

section \<open>Arithmetic and bitwise operations\<close>

text \<open>
  C1. Addition and subtraction of bitvectors, by a bitvector or by an integer, compute the
  ripple-carry results of the reference semantics on the bits; subtracting bitvectors of
  different lengths fails on both sides.
\<close>

theorem add_sub_reference:
  assumes "gmp_laws G"
  shows "(l_len a = l_len b \<longrightarrow> Some (bl_of (add_bits G a b)) = ml_add_vec (bl_of a) (bl_of b)) \<and>
    map_option bl_of (ok (sub_bits G a b)) = ml_sub_vec (bl_of a) (bl_of b) \<and>
    Some (bl_of (add_bits_int G a k)) = ml_add_vec_int (bl_of a) k \<and>
    Some (bl_of (sub_bits_int G a k)) = ml_sub_vec_int (bl_of a) k"
  using gmp_laws.add_bits_refines [OF assms] gmp_laws.sub_bits_refines [OF assms] by simp

theorem add_sub_reference_witness:
  "Some (bl_of (add_bits gmp_ref \<lparr>l_len = 4, l_bits = 13\<rparr> \<lparr>l_len = 4, l_bits = 6\<rparr>)) = Some [False, False, True, True]
   \<and> ok (sub_bits gmp_ref \<lparr>l_len = 4, l_bits = 2\<rparr> \<lparr>l_len = 4, l_bits = 3\<rparr>) = Some \<lparr>l_len = 4, l_bits = 15\<rparr>"
  using add_sub_reference [OF gmp_ref_laws, of "\<lparr>l_len = 4, l_bits = 13\<rparr>" "\<lparr>l_len = 4, l_bits = 6\<rparr>" 0]
  by code_simp

text \<open>
  C2. The bitwise operations are the reference's maps over the two lists of bits, and fail where
  it fails, on different lengths; complement is the map of the negation.
\<close>

theorem bitwise_reference:
  assumes "gmp_laws G"
  shows "map_option bl_of (ok (and_bits G a b)) = ml_and_vec (bl_of a) (bl_of b) \<and>
    map_option bl_of (ok (or_bits G a b)) = ml_or_vec (bl_of a) (bl_of b) \<and>
    map_option bl_of (ok (xor_bits G a b)) = ml_xor_vec (bl_of a) (bl_of b) \<and>
    bl_of (not_bits G a) = ml_not_vec (bl_of a)"
  using gmp_laws.bitwise_refines [OF assms] gmp_laws.not_bits_refines [OF assms] by simp

theorem bitwise_reference_witness:
  "ml_xor_vec (bl_of \<lparr>l_len = 4, l_bits = 12\<rparr>) (bl_of \<lparr>l_len = 4, l_bits = 10\<rparr>) = Some [False, True, True, False] \<and>
   ok (and_bits gmp_ref \<lparr>l_len = 4, l_bits = 12\<rparr> \<lparr>l_len = 3, l_bits = 1\<rparr>) = None"
  using bitwise_reference [OF gmp_ref_laws, of "\<lparr>l_len = 4, l_bits = 12\<rparr>" "\<lparr>l_len = 4, l_bits = 10\<rparr>"]
  by code_simp

text \<open>
  C3. Reading a well-formed bitvector as a signed or unsigned number agrees with the reference,
  and so do both multiplications, which double the length.
\<close>

theorem mult_reference:
  assumes "gmp_laws G" "wf_lbits a" "wf_lbits b" "l_len a = l_len b" "l_len a < 2 ^ 63"
  shows "sail_signed G a = ml_sint (bl_of a) \<and> sail_unsigned G a = ml_uint (bl_of a) \<and>
    bl_of (mult_vec G a b) = ml_mult_vec (bl_of a) (bl_of b) \<and>
    bl_of (mults_vec G a b) = ml_mults_vec (bl_of a) (bl_of b)"
  using gmp_laws.signed_refines [OF assms(1,2)] gmp_laws.unsigned_refines [OF assms(1,2)]
    gmp_laws.mult_refines [OF assms] by simp

theorem mult_reference_witness:
  "sail_signed gmp_ref \<lparr>l_len = 4, l_bits = 13\<rparr> = - 3 \<and>
   mults_vec gmp_ref \<lparr>l_len = 4, l_bits = 13\<rparr> \<lparr>l_len = 4, l_bits = 2\<rparr> = \<lparr>l_len = 8, l_bits = 250\<rparr>"
  using mult_reference [OF gmp_ref_laws, of "\<lparr>l_len = 4, l_bits = 13\<rparr>" "\<lparr>l_len = 4, l_bits = 2\<rparr>"]
  by code_simp

section \<open>Changing the length\<close>

text \<open>
  C4. Zero and sign extension to a length that is not smaller, and truncation on either side to
  one that is not bigger, succeed and compute the reference's bits.
\<close>

theorem extend_truncate_reference:
  assumes "gmp_laws G" "wf_lbits v" "0 \<le> k" "k < 2 ^ 64"
  shows "(int (unat (l_len v)) \<le> k \<longrightarrow>
      map_option bl_of (ok (zero_extend G v k)) = Some (ml_zero_extend (bl_of v) (nat k)) \<and>
      map_option bl_of (ok (sign_extend G v k)) = Some (ml_sign_extend (bl_of v) (nat k))) \<and>
    (k \<le> int (unat (l_len v)) \<longrightarrow>
      map_option bl_of (ok (sail_truncate G v k)) = Some (ml_vector_truncate (bl_of v) (nat k)) \<and>
      map_option bl_of (ok (sail_truncateLSB G v k)) = Some (ml_vector_truncateLSB (bl_of v) (nat k)))"
  using gmp_laws.extend_refines [OF assms(1,2) _ assms(4)] gmp_laws.truncate_refines [OF assms(1,3)] by blast

theorem extend_truncate_reference_witness:
  "ok (sign_extend gmp_ref \<lparr>l_len = 4, l_bits = 9\<rparr> 6) = Some \<lparr>l_len = 6, l_bits = 57\<rparr> \<and>
   ok (sail_truncateLSB gmp_ref \<lparr>l_len = 4, l_bits = 9\<rparr> 2) = Some \<lparr>l_len = 2, l_bits = 2\<rparr>"
  using extend_truncate_reference [OF gmp_ref_laws, of "\<lparr>l_len = 4, l_bits = 9\<rparr>" 6]
    extend_truncate_reference [OF gmp_ref_laws, of "\<lparr>l_len = 4, l_bits = 9\<rparr>" 2]
  by code_simp

text \<open>
  C5. Appending is concatenation of the bits, and replication of a nonempty bitvector by a count
  from 0 up to the biggest int repeats them, as in the reference, when the result's length fits 64
  bits.
\<close>

theorem append_replicate_reference:
  assumes "gmp_laws G" "wf_lbits a" "wf_lbits b" "unat (l_len a) + unat (l_len b) < 2 ^ 64"
    and "0 < l_len a" "0 \<le> k" "k \<le> int_max" "nat k * unat (l_len a) < 2 ^ 64"
  shows "bl_of (append G a b) = ml_append (bl_of a) (bl_of b) \<and>
    map_option bl_of (ok (replicate_bits G a k)) = Some (ml_replicate_bits (bl_of a) (nat k))"
  using gmp_laws.append_refines [OF assms(1,3,4)] gmp_laws.replicate_refines [OF assms(1,2,5-8)] by simp

theorem append_replicate_reference_witness:
  "append gmp_ref \<lparr>l_len = 3, l_bits = 5\<rparr> \<lparr>l_len = 2, l_bits = 1\<rparr> = \<lparr>l_len = 5, l_bits = 21\<rparr> \<and>
   ok (replicate_bits gmp_ref \<lparr>l_len = 3, l_bits = 5\<rparr> 3) = Some \<lparr>l_len = 9, l_bits = 365\<rparr>"
proof -
  have "map_option bl_of (ok (replicate_bits gmp_ref \<lparr>l_len = 3, l_bits = 5\<rparr> 3)) =
      Some (ml_replicate_bits (bl_of \<lparr>l_len = 3, l_bits = 5\<rparr>) (nat 3))"
    by (rule append_replicate_reference [OF gmp_ref_laws, of _ "\<lparr>l_len = 2, l_bits = 1\<rparr>", THEN conjunct2])
      (simp_all add: wf_lbits_def)
  then show ?thesis by code_simp
qed

section \<open>Reading and writing parts\<close>

text \<open>
  C6. For positions below 2^64: reading a bit and a subrange inside the bitvector reads the
  reference's bits; a slice that ends at the top or below it does too and one that ends above it
  fails; a slice of an integer is the reference's, whatever the integer.
\<close>

theorem select_reference:
  assumes "gmp_laws G" "0 \<le> i" "0 \<le> s" "0 \<le> n" "s + n < 2 ^ 64"
  shows "(i < int (unat (l_len v)) \<longrightarrow> ml_access (bl_of v) (nat i) = Some (bitvector_access G v i = 1)) \<and>
    (i \<le> j \<and> j < int (unat (l_len v)) \<longrightarrow>
      bl_of (vector_subrange_lbits G v j i) = ml_subrange (bl_of v) (nat j) (nat i)) \<and>
    map_option bl_of (ok (slice G v s n)) =
      (if s + n \<le> int (unat (l_len v)) then Some (ml_slice (bl_of v) (nat s) (nat n)) else None) \<and>
    bl_of (get_slice_int G n z s) = ml_get_slice_int (nat n) z (nat s)"
proof -
  have "nat s + nat n \<le> unat (l_len v) \<longleftrightarrow> s + n \<le> int (unat (l_len v))"
    using assms(3,4) by linarith
  then have "\<not> s + n \<le> int (unat (l_len v)) \<Longrightarrow> ok (slice G v s n) = None"
    using gmp_laws.slice_Inr_iff [OF assms(1,3-5), of v] assms(3,4)
    by (cases "slice G v s n") (auto simp del: of_nat_unat)
  then show ?thesis
    using gmp_laws.access_refines [OF assms(1,2), of v] gmp_laws.subrange_refines [OF assms(1,2), of j v]
      gmp_laws.slice_refines [OF assms(1,3,4), of v] gmp_laws.get_slice_int_refines [OF assms(1,3,4), of z] assms(3-5)
    by (auto split: if_splits)
qed

theorem select_reference_witness:
  "vector_subrange_lbits gmp_ref \<lparr>l_len = 8, l_bits = 180\<rparr> 5 2 = \<lparr>l_len = 4, l_bits = 13\<rparr> \<and>
   ok (slice gmp_ref \<lparr>l_len = 8, l_bits = 180\<rparr> 2 6) = Some \<lparr>l_len = 6, l_bits = 45\<rparr> \<and>
   ok (slice gmp_ref \<lparr>l_len = 8, l_bits = 180\<rparr> 2 7) = None"
  using select_reference [OF gmp_ref_laws, of 2 2 6 "\<lparr>l_len = 8, l_bits = 180\<rparr>" 5 180]
    select_reference [OF gmp_ref_laws, of 2 2 7 "\<lparr>l_len = 8, l_bits = 180\<rparr>" 5 180]
  by code_simp

text \<open>
  C7. Updating a subrange or a slice of a bitvector writes the source's bits there and leaves the
  others, as in the reference.
\<close>

theorem update_reference:
  assumes "gmp_laws G" "0 \<le> s" "0 < l_len src" "s + int (unat (l_len src)) \<le> int (unat (l_len v))"
  shows "bl_of (vector_update_subrange_lbits G v (s + int (unat (l_len src)) - 1) s src) =
      ml_update_subrange (bl_of v) (nat s + unat (l_len src) - 1) (nat s) (bl_of src) \<and>
    bl_of (set_slice G n k v s src) =
      ml_update_subrange (bl_of v) (nat s + unat (l_len src) - 1) (nat s) (bl_of src)"
proof -
  have "0 < unat (l_len src)" using assms(3) by (simp add: word_less_nat_alt)
  moreover from this have "nat (s + int (unat (l_len src)) - 1) = nat s + unat (l_len src) - 1"
    using assms(2) by (simp add: nat_diff_distrib nat_add_distrib del: of_nat_unat)
  ultimately show ?thesis
    using gmp_laws.update_subrange_refines [OF assms(1,2), of "s + int (unat (l_len src)) - 1" v src]
      gmp_laws.set_slice_refines [OF assms] assms(4) by (simp del: of_nat_unat)
qed

theorem update_reference_witness:
  "vector_update_subrange_lbits gmp_ref \<lparr>l_len = 8, l_bits = 255\<rparr> 4 2 \<lparr>l_len = 3, l_bits = 2\<rparr> = \<lparr>l_len = 8, l_bits = 235\<rparr> \<and>
   set_slice gmp_ref 8 3 \<lparr>l_len = 8, l_bits = 255\<rparr> 2 \<lparr>l_len = 3, l_bits = 2\<rparr> = \<lparr>l_len = 8, l_bits = 235\<rparr>"
  using update_reference [OF gmp_ref_laws, of 2 "\<lparr>l_len = 3, l_bits = 2\<rparr>" "\<lparr>l_len = 8, l_bits = 255\<rparr>" 8 3]
  by code_simp

section \<open>Shifts and byte order\<close>

text \<open>
  C8. Logical shifts of a well-formed bitvector by an integer or by the value of a bitvector are the
  reference's shifts for every amount from 0 to 2^64 - 1, the length and more included. Of a bigger amount only the lowest 64
  bits count: the shift is the reference's by the amount modulo 2^64.
\<close>

theorem shift_reference:
  assumes "gmp_laws G" "wf_lbits v" "0 \<le> k" "wf_lbits w"
  shows "bl_of (shiftl G v k) = ml_shiftl (bl_of v) (nat (k mod 2 ^ 64)) \<and>
    bl_of (shiftr G v k) = ml_shiftr (bl_of v) (nat (k mod 2 ^ 64)) \<and>
    bl_of (shift_bits_left G v w) = ml_shiftl (bl_of v) (nat (ml_uint (bl_of w) mod 2 ^ 64)) \<and>
    bl_of (shift_bits_right G v w) = ml_shiftr (bl_of v) (nat (ml_uint (bl_of w) mod 2 ^ 64)) \<and>
    (k < 2 ^ 64 \<longrightarrow> bl_of (shiftl G v k) = ml_shiftl (bl_of v) (nat k) \<and>
      bl_of (shiftr G v k) = ml_shiftr (bl_of v) (nat k)) \<and>
    (ml_uint (bl_of w) < 2 ^ 64 \<longrightarrow> bl_of (shift_bits_left G v w) = ml_shift_bits_left (bl_of v) (bl_of w) \<and>
      bl_of (shift_bits_right G v w) = ml_shift_bits_right (bl_of v) (bl_of w))"
proof -
  have w: "ml_uint (bl_of w) = l_bits w" "0 \<le> l_bits w"
    using assms(4) by (simp_all add: bl_of_def wf_lbits_def take_bit_int_eq_self)
  show ?thesis
    using gmp_laws.shift_refines_mod [OF assms(1,2,3)] gmp_laws.shift_refines_mod [OF assms(1,2) w(2)]
      gmp_laws.shiftl_bits(2,3) [OF assms(1)] assms(3) w(2)
    by (simp add: w(1) ml_shift_bits_left_def ml_shift_bits_right_def)
qed

theorem shift_reference_witness:
  "shiftl gmp_ref \<lparr>l_len = 8, l_bits = 200\<rparr> 3 = \<lparr>l_len = 8, l_bits = 64\<rparr> \<and>
   shift_bits_right gmp_ref \<lparr>l_len = 8, l_bits = 200\<rparr> \<lparr>l_len = 8, l_bits = 9\<rparr> = \<lparr>l_len = 8, l_bits = 0\<rparr>"
  using shift_reference [OF gmp_ref_laws, of "\<lparr>l_len = 8, l_bits = 200\<rparr>" 3 "\<lparr>l_len = 8, l_bits = 9\<rparr>"]
  by code_simp

text \<open>
  C9. The arithmetic right shift by an amount up to the length shifts copies of the sign bit in,
  as the reference does. (For a bigger amount the loop that sets the sign bits starts at an index
  that wraps around.)
\<close>

theorem arith_shift_reference:
  assumes "gmp_laws G" "wf_lbits v" "wf_lbits k" "0 < l_len v" "l_bits k \<le> int (unat (l_len v))"
  shows "bl_of (shift_bits_right_arith G v k) = ml_shift_bits_right_arith (bl_of v) (bl_of k)"
  by (rule gmp_laws.shift_right_arith_refines [OF assms])

theorem arith_shift_reference_witness:
  "shift_bits_right_arith gmp_ref \<lparr>l_len = 8, l_bits = 200\<rparr> \<lparr>l_len = 4, l_bits = 3\<rparr> = \<lparr>l_len = 8, l_bits = 249\<rparr>"
  using arith_shift_reference [OF gmp_ref_laws, of "\<lparr>l_len = 8, l_bits = 200\<rparr>" "\<lparr>l_len = 4, l_bits = 3\<rparr>"]
  by code_simp

text \<open>
  C10. Reversing the byte order of a bitvector of a whole number of bytes, by the swaps of 64, 32
  and 16 bits or by the loop over the bytes, reverses the bytes of the reference's list.
\<close>

theorem reverse_endianness_reference:
  assumes "gmp_laws G" "wf_lbits v" "unat (l_len v) = 8 * m"
  shows "map_option bl_of (ok (reverse_endianness G v)) = Some (ml_reverse_endianness (bl_of v))"
  by (rule gmp_laws.reverse_endianness_refines [OF assms])

theorem reverse_endianness_reference_witness:
  "ok (reverse_endianness gmp_ref \<lparr>l_len = 24, l_bits = 0x123456\<rparr>) = Some \<lparr>l_len = 24, l_bits = 0x563412\<rparr>"
  using reverse_endianness_reference [OF gmp_ref_laws, of "\<lparr>l_len = 24, l_bits = 0x123456\<rparr>" 3]
  by code_simp

section \<open>Well-formed bitvectors\<close>

definition result_wf :: "lbits res \<Rightarrow> bool" where
  "result_wf r = (case r of Inl e \<Rightarrow> True | Inr v \<Rightarrow> wf_lbits v)"

lemma result_wfI: "(\<And>v. r = Inr v \<Longrightarrow> wf_lbits v) \<Longrightarrow> result_wf r"
  by (auto simp: result_wf_def split: sum.splits)

text \<open>
  C11. The operations on bitvectors keep the bits below the length of the result. The arithmetic and bitwise
  operations, extension, truncation, logical shifts, slices, subranges, alignment and the masking
  conversions do so for all arguments; appending when the length fits 64 bits, and so replication;
  updates inside the bitvector; the byte reversal of whole bytes; the arithmetic right shift by at
  most the length (beyond it, it sets bits above the length).
\<close>

theorem operations_well_formed:
  assumes "gmp_laws G" "wf_lbits a" "wf_lbits b"
  shows "wf_lbits (add_bits G a b) \<and> result_wf (sub_bits G a b) \<and> wf_lbits (add_bits_int G a k) \<and>
    wf_lbits (sub_bits_int G a k) \<and> wf_lbits (mult_vec G a b) \<and> wf_lbits (mults_vec G a b) \<and>
    result_wf (and_bits G a b) \<and> result_wf (or_bits G a b) \<and> result_wf (xor_bits G a b) \<and> wf_lbits (not_bits G a) \<and>
    result_wf (zero_extend G a k) \<and> result_wf (sign_extend G a k) \<and> result_wf (sail_truncate G a k) \<and>
    result_wf (sail_truncateLSB G a k) \<and> wf_lbits (shiftl G a k) \<and> wf_lbits (shiftr G a k) \<and>
    wf_lbits (shift_bits_left G a b) \<and> wf_lbits (shift_bits_right G a b) \<and>
    result_wf (slice G a s n) \<and> wf_lbits (get_slice_int G n k s) \<and> wf_lbits (vector_subrange_lbits G a i j) \<and>
    result_wf (arm_align G a k) \<and> wf_lbits (zeros G k) \<and>
    wf_lbits (convert_lbits_of_fbits G f m d) \<and> wf_lbits (convert_lbits_of_sbits G sb d) \<and>
    (unat (l_len a) + unat (l_len b) < 2 ^ 64 \<longrightarrow> wf_lbits (append G a b)) \<and>
    (nat \<bar>k\<bar> * unat (l_len a) < 2 ^ 64 \<longrightarrow> result_wf (replicate_bits G a k)) \<and>
    (0 \<le> s \<and> s + int (unat (l_len b)) \<le> int (unat (l_len a)) \<longrightarrow> wf_lbits (set_slice G n k a s b)) \<and>
    (0 \<le> j \<and> j \<le> i \<and> i < int (unat (l_len a)) \<longrightarrow> wf_lbits (vector_update_subrange_lbits G a i j b)) \<and>
    (8 dvd unat (l_len a) \<longrightarrow> result_wf (reverse_endianness G a)) \<and>
    (l_bits b \<le> int (unat (l_len a)) \<longrightarrow> wf_lbits (shift_bits_right_arith G a b))"
proof -
  note G = assms(1)
  note facts = gmp_laws.wf_arith [OF G] gmp_laws.wf_bitwise [OF G assms(2,3)] gmp_laws.wf_extend [OF G assms(2)]
    gmp_laws.wf_shift [OF G assms(2)] gmp_laws.wf_append [OF G assms(2,3)] gmp_laws.wf_copied [OF G]
    gmp_laws.wf_masked [OF G] gmp_laws.wf_replicate [OF G assms(2)] gmp_laws.wf_reverse [OF G assms(2)]
    gmp_laws.wf_shift_arith [OF G assms(2,3)] gmp_laws.wf_arm_align [OF G] gmp_laws.wf_update [OF G assms(2)]
  show ?thesis
    by (intro conjI impI result_wfI; (elim conjE)?; (rule facts; assumption))
qed

theorem operations_well_formed_witness:
  "wf_lbits (add_bits gmp_ref \<lparr>l_len = 4, l_bits = 15\<rparr> \<lparr>l_len = 4, l_bits = 15\<rparr>) \<and>
   wf_lbits (not_bits gmp_ref \<lparr>l_len = 4, l_bits = 15\<rparr>) \<and>
   wf_lbits (vector_update_subrange_lbits gmp_ref \<lparr>l_len = 4, l_bits = 15\<rparr> 3 0 \<lparr>l_len = 4, l_bits = 15\<rparr>)"
  using operations_well_formed [OF gmp_ref_laws, of "\<lparr>l_len = 4, l_bits = 15\<rparr>" "\<lparr>l_len = 4, l_bits = 15\<rparr>" 0 0 0 3 0]
  by (simp add: wf_lbits_def)

text \<open>
  On well-formed bitvectors of one length the loop of the comparison decides equality, and
  that of the other comparison inequality.
\<close>

theorem comparison_decides_equality:
  assumes "gmp_laws G" "wf_lbits a" "wf_lbits b" "l_len a = l_len b"
  shows "eq_bits G a b = Inr (a = b) \<and> neq_bits G a b = Inr (a \<noteq> b)"
  using gmp_laws.eq_bits_Inr [OF assms] by simp

theorem comparison_decides_equality_witness:
  "eq_bits gmp_ref \<lparr>l_len = 4, l_bits = 5\<rparr> \<lparr>l_len = 4, l_bits = 7\<rparr> = Inr False"
  using comparison_decides_equality [OF gmp_ref_laws, of "\<lparr>l_len = 4, l_bits = 5\<rparr>" "\<lparr>l_len = 4, l_bits = 7\<rparr>"]
  by (simp add: wf_lbits_def)

section \<open>Small bitvectors\<close>

lemma fast_replicate_agrees:
  assumes "gmp_laws G" "0 < unat shift" "0 < sint cnt" "sint cnt \<le> int_max" "nat (sint cnt) * unat shift \<le> 64"
    and "take_bit (unat shift) v = v"
  shows "\<exists>r. replicate_bits G \<lparr>l_len = shift, l_bits = uint v\<rparr> (sint cnt) = Inr r \<and>
    fast_replicate_bits shift v cnt = Inr (convert_fbits_of_lbits G r d)"
proof -
  have v: "take_bit (unat shift) (uint v) = uint v"
    using arg_cong [OF assms(6), of uint] by (simp add: unsigned_take_bit_eq)
  have "wf_lbits \<lparr>l_len = shift, l_bits = uint v\<rparr>" using v by (intro wf_lbitsI) simp
  moreover have "0 < shift" using assms(2) by (simp add: word_less_nat_alt)
  ultimately obtain r where r: "replicate_bits G \<lparr>l_len = shift, l_bits = uint v\<rparr> (sint cnt) = Inr r"
    "\<And>j. bit (l_bits r) j \<longleftrightarrow> j < nat (sint cnt) * unat shift \<and> bit (uint v) (j mod unat shift)"
    using gmp_laws.replicate_bits_Inr_iff [OF assms(1), of "\<lparr>l_len = shift, l_bits = uint v\<rparr>" "sint cnt"] assms(3,4)
    unfolding lbits.simps by (metis less_imp_le)
  obtain w where w: "fast_replicate_bits shift v cnt = Inr w"
    "\<And>j. bit w j \<longleftrightarrow> j < nat (sint cnt) * unat shift \<and> bit v (j mod unat shift)"
    using fast_replicate_bits_Inr [OF assms(2-6)] by blast
  have lt: "j < nat (sint cnt) * unat shift \<Longrightarrow> j < 64" for j using assms(5) by linarith
  have "take_bit 64 (l_bits r) = l_bits r"
    by (rule bit_eqI) (use lt in \<open>auto simp: bit_take_bit_iff r(2)\<close>)
  then have "0 \<le> l_bits r" by (metis take_bit_nonnegative)
  moreover have "w = word_of_int (l_bits r)"
    by (rule bit_word_eqI) (simp add: w(2) bit_word_of_int_iff r(2) bit_uint64)
  ultimately have "w = word_of_int \<bar>l_bits r\<bar>" by simp
  then show ?thesis using r(1) w(1) gmp_laws.bits_conversions(9) [OF assms(1)] by simp
qed

lemma fast_replicate_agrees_all:
  assumes "gmp_laws G" "0 < sint cnt" "sint cnt \<le> int_max" "nat (sint cnt) * unat shift \<le> 64"
    and "take_bit (unat shift) v = v"
  shows "\<exists>r. replicate_bits G \<lparr>l_len = shift, l_bits = uint v\<rparr> (sint cnt) = Inr r \<and>
    fast_replicate_bits shift v cnt = Inr (convert_fbits_of_lbits G r d)"
proof (cases "shift = 0")
  case True
  then have v: "v = 0" using assms(5) by simp
  then show ?thesis
    using True assms(2,3) gmp_laws.replicate_bits_empty [OF assms(1), of "sint cnt"] fast_replicate_bits_empty [of cnt]
    by (simp add: gmp_laws.bits_conversions [OF assms(1)])
qed (use fast_replicate_agrees [OF assms(1) _ assms(2-5)] in \<open>simp add: unat_gt_0\<close>)

text \<open>
  C12. The operations on bitvectors of at most 64 bits agree with the general ones: the slice inside
  64 bits, in both of its implementations, and replication by a positive count up to INT_MAX when the
  result fits 64 bits. For a count of 0 they differ: the small replication delivers its argument, as for every
  count that is not positive, and the general one the empty bitvector.
\<close>

theorem small_operations_agree:
  assumes "gmp_laws G" "s < 64" "n \<le> 64" "unat s + unat n \<le> 64"
    and "sint cnt \<le> int_max" "nat (sint cnt) * unat shift \<le> 64" "take_bit (unat shift) v = v"
  shows "(\<exists>r. slice G (create_lbits_of_fbits G op 64 d) (uint s) (uint n) = Inr r \<and>
      sslice op s n = Inr (convert_sbits_of_lbits G r d)) \<and> sslice_bmi op s n = sslice op s n \<and>
    (0 < sint cnt \<longrightarrow> (\<exists>r. replicate_bits G \<lparr>l_len = shift, l_bits = uint v\<rparr> (sint cnt) = Inr r \<and>
      fast_replicate_bits shift v cnt = Inr (convert_fbits_of_lbits G r d))) \<and>
    (sint cnt \<le> 0 \<longrightarrow> fast_replicate_bits shift v cnt = Inr v) \<and>
    replicate_bits G \<lparr>l_len = shift, l_bits = uint v\<rparr> 0 = Inr \<lparr>l_len = 0, l_bits = 0\<rparr>"
proof -
  define r where "r = \<lparr>l_len = n, l_bits = take_bit (unat n) (drop_bit (unat s) (uint op))\<rparr>"
  have "uint s + uint n < 2 ^ 64" using assms(4) by (simp add: uint_nat del: of_nat_unat)
  then have "slice G (create_lbits_of_fbits G op 64 d) (uint s) (uint n) = Inr r"
    using gmp_laws.slice_Inr_iff [OF assms(1), of "uint s" "uint n" "create_lbits_of_fbits G op 64 d" r] assms(4)
      gmp_laws.bits_conversions(4) [OF assms(1)]
    by (simp add: r_def)
  moreover have "word_of_int (take_bit (unat n) (drop_bit (unat s) (uint op))) = take_bit (unat n) (drop_bit (unat s) op)"
    by (rule bit_word_eqI) (simp add: bit_word_of_int_iff bit_take_bit_iff bit_drop_bit_eq bit_uint64)
  moreover have "sint cnt \<le> 0 \<Longrightarrow> fast_replicate_bits shift v cnt = Inr v"
    by (simp add: fast_replicate_bits_def)
  moreover have "replicate_bits G \<lparr>l_len = shift, l_bits = uint v\<rparr> 0 = Inr \<lparr>l_len = 0, l_bits = 0\<rparr>"
    by (simp add: replicate_bits_def gmp_laws.mpz_get_ui_law [OF assms(1)] gmp_laws.mpz_set_ui_law [OF assms(1)])
  ultimately show ?thesis
    using sslice_Inr [OF assms(2,3), of op] fast_replicate_agrees_all [OF assms(1) _ assms(5-7), of d]
      gmp_laws.bits_conversions(11) [OF assms(1)]
    by (simp add: r_def)
qed

theorem small_operations_agree_witness:
  "sslice 0xABCD 4 8 = Inr \<lparr>s_len = 8, s_bits = 0xBC\<rparr> \<and> fast_replicate_bits 4 0xA 3 = Inr 0xAAA \<and>
   fast_replicate_bits 4 0xA 0 = Inr 0xA"
proof -
  have "sslice_bmi 0xABCD 4 8 = sslice 0xABCD 4 8"
    by (rule small_operations_agree [OF gmp_ref_laws, of 4 8 3 4 "0xA" "0xABCD" True, THEN conjunct2, THEN conjunct1]) (simp_all add: take_bit_eq_mask mask_eq_exp_minus_1)
  then show ?thesis by code_simp
qed

text \<open>
  C13. A bitvector of at most 64 bits survives the conversion to a machine word or to a small
  bitvector and back, and a word the conversion to a bitvector and back.
\<close>

theorem conversions_round_trip:
  assumes "gmp_laws G" "wf_lbits v" "l_len v \<le> 64"
  shows "convert_lbits_of_fbits G (convert_fbits_of_lbits G v d) (l_len v) d' = v \<and>
    convert_lbits_of_sbits G (convert_sbits_of_lbits G v d) d' = v \<and>
    convert_fbits_of_lbits G (create_lbits_of_fbits G w n d) d' = w"
proof -
  have b: "0 \<le> l_bits v" "take_bit (unat (l_len v)) (l_bits v) = l_bits v"
    using assms(2) by (auto simp: wf_lbits_def take_bit_int_eq_self)
  have "unat (l_len v) \<le> 64" using assms(3) by (simp add: word_le_nat_alt)
  then have "take_bit (unat (l_len v)) (take_bit 64 (l_bits v)) = l_bits v" using b(2) by (simp add: min_def)
  then show ?thesis
    using b assms(3) gmp_laws.convert_lbits_of_fbits_eq [OF assms(1,3)] gmp_laws.convert_lbits_of_sbits_eq [OF assms(1)]
      gmp_laws.bits_conversions [OF assms(1)]
    by (simp add: uint_word_of_int_eq)
qed

theorem conversions_round_trip_witness:
  "convert_lbits_of_sbits gmp_ref (convert_sbits_of_lbits gmp_ref \<lparr>l_len = 12, l_bits = 0xABC\<rparr> True) True =
   \<lparr>l_len = 12, l_bits = 0xABC\<rparr>"
  using conversions_round_trip [OF gmp_ref_laws, of "\<lparr>l_len = 12, l_bits = 0xABC\<rparr>" True True 0 0]
  by (simp add: wf_lbits_def)

section \<open>Integers\<close>

text \<open>
  C14. Division by zero aborts; otherwise the truncating and the flooring division deliver the
  quotient and remainder that belong together, the remainder smaller than the divisor and with
  the sign of the dividend or of the divisor.
\<close>

theorem division_laws:
  assumes "gmp_laws G"
  shows "if b = 0
    then tdiv_int G a b = Inl Gmp_abort \<and> tmod_int G a b = Inl Gmp_abort \<and>
      fdiv_int G a b = Inl Gmp_abort \<and> fmod_int G a b = Inl Gmp_abort
    else (\<exists>q r. tdiv_int G a b = Inr q \<and> tmod_int G a b = Inr r \<and> a = b * q + r \<and> \<bar>r\<bar> < \<bar>b\<bar> \<and> (r = 0 \<or> sgn r = sgn a)) \<and>
      (\<exists>q r. fdiv_int G a b = Inr q \<and> fmod_int G a b = Inr r \<and> a = b * q + r \<and> \<bar>r\<bar> < \<bar>b\<bar> \<and> (r = 0 \<or> sgn r = sgn b))"
proof (cases "b = 0")
  case False
  have "\<bar>a mod b\<bar> < \<bar>b\<bar>" using False by (simp add: abs_mod_less)
  moreover have "a mod b = 0 \<or> sgn (a mod b) = sgn b"
  proof (cases "0 < b")
    case True
    have "a mod b = 0 \<or> 0 < a mod b" using pos_mod_sign [OF True, of a] by linarith
    with True show ?thesis by (auto simp: sgn_if)
  next
    case F: False
    with False have "b < 0" by simp
    have "a mod b = 0 \<or> a mod b < 0" using neg_mod_sign [OF \<open>b < 0\<close>, of a] by linarith
    with F \<open>b < 0\<close> show ?thesis by (auto simp: sgn_if)
  qed
  moreover have "a = b * (a div b) + a mod b" by simp
  ultimately show ?thesis
    using False gmp_laws.int_division [OF assms, of a b] sdiv_smod_unique [OF False, of a] by simp
qed (use gmp_laws.int_division [OF assms, of a b] in simp)

theorem division_laws_witness:
  "tdiv_int gmp_ref (- 7) 2 = Inr (- 3) \<and> fmod_int gmp_ref (- 7) 2 = Inr 1"
  using division_laws [OF gmp_ref_laws, of 2 "- 7"] by (simp add: gmp_ref.int_division signed_divide_int_def)

text \<open>
  C15. Truncated subtraction is meant for natural numbers, but its test for a negative result
  never holds: it is plain subtraction, and negative for a bigger second operand. The machine
  integer made from an integer loses the sign, the converted one does not.
\<close>

theorem sub_nat_never_clamps:
  assumes "gmp_laws G" "0 \<le> a" "a < b" "b < 2 ^ 63"
  shows "sub_nat G a b = a - b \<and> sub_nat G a b < 0 \<and>
    create_mach_int_of_sail_int G (- b) = create_mach_int_of_sail_int G b \<and>
    sint (convert_mach_int_of_sail_int G (- b)) = - b"
  using gmp_laws.sub_nat_eq [OF assms(1), of a b] gmp_laws.mach_int_convert [OF assms(1), of "- b"] assms
    gmp_laws.mpz_get_ui_law [OF assms(1)]
  by (simp add: create_mach_int_of_sail_int_def)

theorem sub_nat_never_clamps_witness:
  "sub_nat gmp_ref 2 3 = - 1 \<and> create_mach_int_of_sail_int gmp_ref (- 3) = 3"
  using sub_nat_never_clamps [OF gmp_ref_laws, of 2 3] gmp_laws.mpz_get_ui_law [OF gmp_ref_laws]
  by (simp add: create_mach_int_of_sail_int_def)

end
