(* ===== verification/Sail_Text.thy ===== *)
theory Sail_Text
  imports Bits_Refine
begin

text \<open>
  Strings and printing (\<open>lib/sail.c\<close>, "Sail strings" and "Printing functions"). A \<open>sail_string\<close>
  is the list of its characters before the terminating zero. The two output streams are kept as
  the text written to them. Formatting and parsing of \<open>mpz_t\<close> is GMP's, hence a parameter, the
  record \<open>gmp_text\<close>; formatting of \<open>uint64_t\<close> is C's \<open>printf\<close> and is defined here.
\<close>

section \<open>Numerals\<close>

fun digits :: "nat \<Rightarrow> nat \<Rightarrow> nat list" where
  "digits b n = (if b \<le> 1 \<or> n < b then [n] else digits b (n div b) @ [n mod b])"

declare digits.simps [simp del]

definition digit_char :: "nat \<Rightarrow> char" where
  "digit_char d = (if d < 10 then char_of (48 + d) else char_of (87 + d))"

definition digit_CHAR :: "nat \<Rightarrow> char" where
  "digit_CHAR d = (if d < 10 then char_of (48 + d) else char_of (55 + d))"

definition dec_of_nat :: "nat \<Rightarrow> string" where
  "dec_of_nat n = map digit_char (digits 10 n)"

definition dec_of_int :: "int \<Rightarrow> string" where
  "dec_of_int k = (if k < 0 then CHR ''-'' # dec_of_nat (nat (- k)) else dec_of_nat (nat k))"

definition hex_of_nat :: "nat \<Rightarrow> string" where
  "hex_of_nat n = map digit_char (digits 16 n)"

definition HEX_of_nat :: "nat \<Rightarrow> string" where
  "HEX_of_nat n = map digit_CHAR (digits 16 n)"

definition pad_zeros :: "nat \<Rightarrow> string \<Rightarrow> string" where
  "pad_zeros w s = replicate (w - length s) (CHR ''0'') @ s"

definition is_space :: "char \<Rightarrow> bool" where
  "is_space c \<longleftrightarrow> c \<in> {CHR '' '', char_of (9::nat), char_of (10::nat), char_of (11::nat), char_of (12::nat), char_of (13::nat)}"

definition is_digit :: "char \<Rightarrow> bool" where
  "is_digit c \<longleftrightarrow> 48 \<le> (of_char c :: nat) \<and> (of_char c :: nat) \<le> 57"

definition dec_value :: "string \<Rightarrow> nat" where
  "dec_value s = foldl (\<lambda>v c. 10 * v + (of_char c - 48)) 0 s"

definition parse_dec :: "string \<Rightarrow> int option" where
  "parse_dec s =
     (case filter (\<lambda>c. \<not> is_space c) s of
        [] \<Rightarrow> None
      | c # cs \<Rightarrow>
          if c = CHR ''-'' then if cs \<noteq> [] \<and> list_all is_digit cs then Some (- int (dec_value cs)) else None
          else if list_all is_digit (c # cs) then Some (int (dec_value (c # cs))) else None)"

section \<open>GMP's formatting and parsing\<close>

record gmp_text =
  fmt_Zd :: "int \<Rightarrow> string"
  fmt_Zx :: "int \<Rightarrow> string"
  fmt_0ZX :: "nat \<Rightarrow> int \<Rightarrow> string"
  fmt_Z :: "int \<Rightarrow> string"
  mpz_out_str :: "int \<Rightarrow> string"
  mpz_set_str :: "string \<Rightarrow> int option"

text \<open>
  What GMP documents of them: \<open>%Zd\<close> and \<open>mpz_out_str\<close> print in base 10, \<open>%Zx\<close> and \<open>%ZX\<close> in base
  16 with a sign, a \<open>0\<close> flag pads with zeros to the width, and \<open>mpz_set_str\<close> ignores white space
  and fails on anything that is not a number. Nothing is documented of the format \<open>%Z\<close>.
\<close>

locale gmp_text_laws =
  fixes T :: gmp_text
  assumes fmt_Zd_law [simp]: "fmt_Zd T k = dec_of_int k"
    and fmt_Zx_law: "0 \<le> k \<Longrightarrow> fmt_Zx T k = hex_of_nat (nat k)"
    and fmt_0ZX_law: "0 \<le> k \<Longrightarrow> fmt_0ZX T w k = pad_zeros w (HEX_of_nat (nat k))"
    and mpz_out_str_law [simp]: "mpz_out_str T k = dec_of_int k"
    and mpz_set_str_law [simp]: "mpz_set_str T s = parse_dec s"

definition gmp_text_ref :: gmp_text where
  "gmp_text_ref = \<lparr>
     fmt_Zd = dec_of_int,
     fmt_Zx = (\<lambda>k. (if k < 0 then ''-'' else []) @ hex_of_nat (nat \<bar>k\<bar>)),
     fmt_0ZX = (\<lambda>w k. pad_zeros w (HEX_of_nat (nat \<bar>k\<bar>))),
     fmt_Z = (\<lambda>k. []),
     mpz_out_str = dec_of_int,
     mpz_set_str = parse_dec \<rparr>"

interpretation gmp_text_ref: gmp_text_laws gmp_text_ref
  by unfold_locales (simp_all add: gmp_text_ref_def)

lemma gmp_text_ref_laws: "gmp_text_laws gmp_text_ref"
  by (rule gmp_text_ref.gmp_text_laws_axioms)

section \<open>Strings\<close>

text \<open>\<open>strcmp\<close> and \<open>strstr\<close> of the C library.\<close>

fun strcmp :: "string \<Rightarrow> string \<Rightarrow> int" where
  "strcmp [] [] = 0"
| "strcmp [] (c # cs) = - 1"
| "strcmp (c # cs) [] = 1"
| "strcmp (c # cs) (d # ds) = (if c = d then strcmp cs ds else of_char c - of_char d)"

fun strstr_from :: "nat \<Rightarrow> string \<Rightarrow> string \<Rightarrow> nat option" where
  "strstr_from i [] p = (if p = [] then Some i else None)"
| "strstr_from i (c # cs) p = (if take (length p) (c # cs) = p then Some i else strstr_from (Suc i) cs p)"

definition create_sail_string :: string where
  "create_sail_string = []"

definition recreate_sail_string :: string where
  "recreate_sail_string = []"

definition copy_sail_string :: "string \<Rightarrow> string" where
  "copy_sail_string str2 = str2"

definition dec_str :: "gmp_text \<Rightarrow> int \<Rightarrow> string" where
  "dec_str T n = fmt_Zd T n"

definition hex_str :: "gmp_text \<Rightarrow> int \<Rightarrow> string" where
  "hex_str T n = ''0x'' @ fmt_Zx T n"

definition eq_string :: "string \<Rightarrow> string \<Rightarrow> bool" where
  "eq_string str1 str2 \<longleftrightarrow> strcmp str1 str2 = 0"

definition eq_sail_string :: "string \<Rightarrow> string \<Rightarrow> bool" where
  "eq_sail_string str1 str2 \<longleftrightarrow> strcmp str1 str2 = 0"

definition undefined_string :: "string \<Rightarrow> sail_unit \<Rightarrow> string" where
  "undefined_string str u = str"

definition concat_str :: "string \<Rightarrow> string \<Rightarrow> string" where
  "concat_str str1 str2 = str1 @ str2"

definition string_startswith :: "string \<Rightarrow> string \<Rightarrow> bool" where
  "string_startswith s pref \<longleftrightarrow> strstr_from 0 s pref = Some 0"

definition string_length :: "gmp \<Rightarrow> string \<Rightarrow> int" where
  "string_length G s = mpz_set_ui G (of_nat (length s))"

text \<open>
  \<open>len >= n\<close> compares a \<open>size_t\<close> with a \<open>mach_int\<close>, hence unsigned. In \<open>string_take\<close> the last
  line is \<open>*dst[to_copy] = '\0'\<close>, that is \<open>*(dst[to_copy])\<close>: for \<open>to_copy > 0\<close> it reads a pointer
  past the variable \<open>dst\<close> points to.
\<close>

definition string_drop :: "gmp \<Rightarrow> string \<Rightarrow> int \<Rightarrow> string" where
  "string_drop G s ns =
     (let n = create_mach_int_of_sail_int G ns
      in if (of_nat (length s) :: u64) \<ge> n then drop (unat n) s else [])"

definition string_take :: "gmp \<Rightarrow> string \<Rightarrow> int \<Rightarrow> string res" where
  "string_take G s ns =
     (let n = create_mach_int_of_sail_int G ns;
          to_copy = (if (of_nat (length s) :: u64) \<le> n then of_nat (length s) else n)
      in check (to_copy = 0) Undefined_behaviour (Inr (take (unat to_copy) s)))"

text \<open>
  The conversions from strings ignore the return value of \<open>mpz_set_str\<close>; \<open>None\<close> stands for the
  unspecified value a failed parse leaves.
\<close>

definition create_sail_int_of_sail_string :: "gmp_text \<Rightarrow> string \<Rightarrow> int option" where
  "create_sail_int_of_sail_string T str = mpz_set_str T str"

definition convert_sail_int_of_sail_string :: "gmp_text \<Rightarrow> string \<Rightarrow> int option" where
  "convert_sail_int_of_sail_string T str = mpz_set_str T str"

definition recreate_sail_int_of_sail_string :: "gmp_text \<Rightarrow> string \<Rightarrow> int option" where
  "recreate_sail_int_of_sail_string T str = mpz_set_str T str"

section \<open>Conversion of values to strings\<close>

definition string_of_int :: "gmp_text \<Rightarrow> int \<Rightarrow> string" where
  "string_of_int T i = fmt_Zd T i"

definition string_of_fbits :: "fbits \<Rightarrow> string" where
  "string_of_fbits op = ''0x'' @ hex_of_nat (unat op)"

text \<open>
  The loop index of the binary case is an \<open>int\<close> compared with the \<open>uint64_t\<close> length, and would
  overflow at \<open>INT_MAX\<close>.
\<close>

definition string_of_lbits :: "gmp \<Rightarrow> gmp_text \<Rightarrow> lbits \<Rightarrow> string res" where
  "string_of_lbits G T op =
     (if l_len op mod 4 = 0 then
        Inr (''0x'' @ fmt_0ZX T (unat (l_len op div 4)) (l_bits op))
      else
        check (uint (l_len op) < int_max) Undefined_behaviour
          (Inr (''0b'' @ map (\<lambda>i. char_of (of_bool (mpz_tstbit G (l_bits op) (l_len op - of_nat i)) + (48::nat)))
                          [1..<unat (l_len op) + 1])))"

definition decimal_string_of_fbits :: "fbits \<Rightarrow> string" where
  "decimal_string_of_fbits op = dec_of_int (sint op)"

definition decimal_string_of_lbits :: "gmp_text \<Rightarrow> lbits \<Rightarrow> string" where
  "decimal_string_of_lbits T op = fmt_Z T (l_bits op)"

section \<open>Printing\<close>

record streams =
  out_text :: string
  err_text :: string

definition put_out :: "string \<Rightarrow> 'a streams_scheme \<Rightarrow> 'a streams_scheme" where
  "put_out s st = st\<lparr>out_text := out_text st @ s\<rparr>"

definition put_err :: "string \<Rightarrow> 'a streams_scheme \<Rightarrow> 'a streams_scheme" where
  "put_err s st = st\<lparr>err_text := err_text st @ s\<rparr>"

text \<open>
  \<open>hex_buffer\<close> is the loop that fills the array \<open>hex\<close>, least significant digit first;
  \<open>fprint_bits\<close> then writes the array backwards. The loop indices are \<open>int\<close>: more than
  \<open>INT_MAX\<close> digits overflow, and in the binary case the length is converted to \<open>int\<close>.
\<close>

definition hex_digit :: "u64 \<Rightarrow> char" where
  "hex_digit x = (let c = unat (15 AND x) + 48 in char_of (if c < 58 then c else c + 7))"

fun hex_buffer :: "gmp \<Rightarrow> nat \<Rightarrow> int \<Rightarrow> string" where
  "hex_buffer G 0 buf = []"
| "hex_buffer G (Suc k) buf = hex_digit (mpz_get_ui G buf) # hex_buffer G k (mpz_fdiv_q_2exp G buf 4)"

definition fprint_bits :: "gmp \<Rightarrow> string \<Rightarrow> lbits \<Rightarrow> string \<Rightarrow> string res" where
  "fprint_bits G pre op post =
     (if l_len op mod 4 = 0 then
        check (uint (l_len op div 4) \<le> int_max) Undefined_behaviour
          (Inr (pre @ ''0x'' @ rev (hex_buffer G (unat (l_len op div 4)) (mpz_set G (l_bits op))) @ post))
      else
        Inr (pre @ ''0b'' @
             rev (map (\<lambda>i. char_of (of_bool (mpz_tstbit G (l_bits op) (of_nat i)) + (48::nat)))
                    [0..<nat (sint (ucast (l_len op) :: u32))]) @ post))"

definition print_bits :: "gmp \<Rightarrow> string \<Rightarrow> lbits \<Rightarrow> 'a streams_scheme \<Rightarrow> 'a streams_scheme res" where
  "print_bits G str op st = bind_res (fprint_bits G str op [char_of (10::nat)]) (\<lambda>s. Inr (put_out s st))"

definition prerr_bits :: "gmp \<Rightarrow> string \<Rightarrow> lbits \<Rightarrow> 'a streams_scheme \<Rightarrow> 'a streams_scheme res" where
  "prerr_bits G str op st = bind_res (fprint_bits G str op [char_of (10::nat)]) (\<lambda>s. Inr (put_err s st))"

definition print :: "string \<Rightarrow> 'a streams_scheme \<Rightarrow> 'a streams_scheme" where
  "print str st = put_out str st"

definition print_endline :: "string \<Rightarrow> 'a streams_scheme \<Rightarrow> 'a streams_scheme" where
  "print_endline str st = put_out (str @ [char_of (10::nat)]) st"

definition prerr :: "string \<Rightarrow> 'a streams_scheme \<Rightarrow> 'a streams_scheme" where
  "prerr str st = put_err str st"

definition prerr_endline :: "string \<Rightarrow> 'a streams_scheme \<Rightarrow> 'a streams_scheme" where
  "prerr_endline str st = put_err (str @ [char_of (10::nat)]) st"

definition print_int :: "gmp_text \<Rightarrow> string \<Rightarrow> int \<Rightarrow> 'a streams_scheme \<Rightarrow> 'a streams_scheme" where
  "print_int T str op st = put_out [char_of (10::nat)] (put_out (mpz_out_str T op) (put_out str st))"

definition prerr_int :: "gmp_text \<Rightarrow> string \<Rightarrow> int \<Rightarrow> 'a streams_scheme \<Rightarrow> 'a streams_scheme" where
  "prerr_int T str op st = put_err [char_of (10::nat)] (put_err (mpz_out_str T op) (put_err str st))"

definition sail_putchar :: "gmp \<Rightarrow> int \<Rightarrow> 'a streams_scheme \<Rightarrow> 'a streams_scheme" where
  "sail_putchar G op st = put_out [char_of (unat (mpz_get_ui G op))] st"

section \<open>The reference: printing and parsing of bit lists in \<open>sail_lib.ml\<close>\<close>

definition ml_hex_table :: "(char \<times> bool list) list" where
  "ml_hex_table =
    [(CHR ''0'', [False, False, False, False]), (CHR ''1'', [False, False, False, True]),
     (CHR ''2'', [False, False, True, False]), (CHR ''3'', [False, False, True, True]),
     (CHR ''4'', [False, True, False, False]), (CHR ''5'', [False, True, False, True]),
     (CHR ''6'', [False, True, True, False]), (CHR ''7'', [False, True, True, True]),
     (CHR ''8'', [True, False, False, False]), (CHR ''9'', [True, False, False, True]),
     (CHR ''A'', [True, False, True, False]), (CHR ''B'', [True, False, True, True]),
     (CHR ''C'', [True, True, False, False]), (CHR ''D'', [True, True, False, True]),
     (CHR ''E'', [True, True, True, False]), (CHR ''F'', [True, True, True, True])]"

definition ml_hex_char :: "char \<Rightarrow> bool list option" where
  "ml_hex_char c = map_of (ml_hex_table @
    [(CHR ''a'', [True, False, True, False]), (CHR ''b'', [True, False, True, True]),
     (CHR ''c'', [True, True, False, False]), (CHR ''d'', [True, True, False, True]),
     (CHR ''e'', [True, True, True, False]), (CHR ''f'', [True, True, True, True])]) c"

definition ml_string_of_hex :: "bool list \<Rightarrow> string option" where
  "ml_string_of_hex bs = map_option (\<lambda>c. [c]) (map_of (map prod.swap ml_hex_table) bs)"

fun concat_options :: "'a list option list \<Rightarrow> 'a list option" where
  "concat_options [] = Some []"
| "concat_options (x # xs) =
     Option.bind x (\<lambda>y. map_option ((@) y) (concat_options xs))"

definition ml_bits_of_string :: "string \<Rightarrow> bool list option" where
  "ml_bits_of_string str = concat_options (map ml_hex_char str)"

fun ml_break :: "nat \<Rightarrow> bool list \<Rightarrow> bool list list" where
  "ml_break n [] = []"
| "ml_break n (x # xs) = [take n (x # xs)] @ (if n = 0 then [] else ml_break n (drop n (x # xs)))"

definition ml_string_of_bit :: "bool \<Rightarrow> string" where
  "ml_string_of_bit b = (if b then ''1'' else ''0'')"

definition ml_string_of_bits :: "bool list \<Rightarrow> string option" where
  "ml_string_of_bits bits =
     (if length bits mod 4 = 0
      then map_option ((@) ''0x'') (concat_options (map ml_string_of_hex (ml_break 4 bits)))
      else Some (''0b'' @ concat (map ml_string_of_bit bits)))"

lemma hex_digits:
  "\<forall>d \<in> set [0..<16]. ml_string_of_hex (int_bl 4 (int d)) = Some [hex_digit (of_nat d)]"
  "\<forall>d \<in> set [0..<16]. ml_hex_char (hex_digit (of_nat d)) = Some (int_bl 4 (int d))"
  "\<forall>d \<in> set [0..<16]. hex_digit (of_nat d) = digit_CHAR d"
  by code_simp+

lemma concat_options_singletons:
  "concat_options (map (\<lambda>x. Some [f x]) xs) = Some (map f xs)"
  by (induction xs) simp_all

lemma concat_options_Some:
  "concat_options (map (\<lambda>x. Some (f x)) xs) = Some (concat (map f xs))"
  by (induction xs) simp_all

lemma ml_break_int_bl:
  "ml_break 4 (int_bl (4 * k) b) = map (\<lambda>i. int_bl 4 (drop_bit (4 * i) b)) (rev [0..<k])"
proof (induction k)
  case (Suc k)
  have split: "int_bl (4 * Suc k) b = int_bl 4 (drop_bit (4 * k) b) @ int_bl (4 * k) b"
    using int_bl_add [of 4 "4 * k" b] by simp
  obtain x xs where "int_bl 4 (drop_bit (4 * k) b) = x # xs"
    by (cases "int_bl 4 (drop_bit (4 * k) b)") (auto dest: arg_cong [of _ _ length])
  then have "ml_break 4 (int_bl 4 (drop_bit (4 * k) b) @ ys) = int_bl 4 (drop_bit (4 * k) b) # ml_break 4 ys" for ys
    using length_int_bl [of 4 "drop_bit (4 * k) b"] by simp
  then show ?case unfolding split by (simp add: Suc.IH)
qed simp

lemma nibble_bl: "\<exists>d. d < 16 \<and> int_bl 4 k = int_bl 4 (int d) \<and> k mod 16 = int d"
  by (rule exI [of _ "nat (k mod 16)"])
    (auto simp: nat_less_iff int_bl_inject take_bit_eq_mod)

definition nibble :: "int \<Rightarrow> nat \<Rightarrow> nat" where
  "nibble b i = nat (drop_bit (4 * i) b mod 16)"

lemma nibble_less: "nibble b i < 16"
  by (simp add: nibble_def nat_less_iff)

lemma nibble_int_bl: "int_bl 4 (drop_bit (4 * i) b) = int_bl 4 (int (nibble b i))"
  by (simp add: nibble_def int_bl_inject take_bit_eq_mod)

lemma ml_hex_int_bl:
  "ml_string_of_bits (int_bl (4 * k) b) = Some (''0x'' @ map (\<lambda>i. hex_digit (of_nat (nibble b i))) (rev [0..<k]))"
proof -
  have "ml_string_of_hex (int_bl 4 (drop_bit (4 * i) b)) = Some [hex_digit (of_nat (nibble b i))]" for i
    using bspec [OF hex_digits(1), of "nibble b i"] nibble_less [of b i] by (simp add: nibble_int_bl)
  then show ?thesis
    by (simp add: ml_string_of_bits_def ml_break_int_bl o_def concat_options_singletons [simplified] map_map rev_map del: upt.simps)
qed

lemma ml_bits_of_hex:
  "ml_bits_of_string (map (\<lambda>i. hex_digit (of_nat (nibble b i))) (rev [0..<k])) = Some (int_bl (4 * k) b)"
proof (induction k)
  case (Suc k)
  have "ml_hex_char (hex_digit (of_nat (nibble b k))) = Some (int_bl 4 (drop_bit (4 * k) b))"
    using bspec [OF hex_digits(2), of "nibble b k"] nibble_less [of b k] by (simp add: nibble_int_bl)
  with Suc show ?case
    using int_bl_add [of 4 "4 * k" b] by (simp add: ml_bits_of_string_def)
qed (simp add: ml_bits_of_string_def)

lemma unat_low_nibble: "unat (15 AND (word_of_int b :: u64)) = nat (b mod 16)"
proof -
  have "uint (15 AND (word_of_int b :: u64)) = 15 AND take_bit 64 b"
    by (simp add: uint_and uint_word_of_int_eq)
  also have "\<dots> = take_bit 4 (take_bit 64 b)"
    by (simp add: take_bit_eq_mask mask_eq_exp_minus_1 and.commute)
  also have "\<dots> = b mod 16"
    by (simp add: take_bit_eq_mod [of 4])
  finally show ?thesis by (metis nat_uint_eq)
qed

lemma hex_digit_mod: "hex_digit (word_of_int b) = hex_digit (of_nat (nat (b mod 16)))"
proof -
  have "(of_nat (nat (b mod 16)) :: u64) = word_of_int (b mod 16)"
    by (simp add: of_nat_nat)
  then show ?thesis
    by (simp add: hex_digit_def unat_low_nibble)
qed

lemma chr_bits: "CHR ''0'' = char_of (48::nat)" "CHR ''1'' = char_of (49::nat)"
  by code_simp+

lemma map_rev_bits:
  "concat (map ml_string_of_bit (int_bl n b)) = rev (map (\<lambda>i. char_of (of_bool (bit b i) + (48::nat))) [0..<n])"
  by (induction n) (simp_all add: int_bl_Suc ml_string_of_bit_def chr_bits)

lemma len_div_4: "n mod 4 = 0 \<Longrightarrow> unat n = 4 * unat (n div 4)" for n :: u64
proof -
  assume "n mod 4 = 0"
  then have "unat n mod unat (4::u64) = unat (0::u64)" by (metis unat_mod)
  then have "unat n mod 4 = 0" by simp
  then show ?thesis using mult_div_mod_eq [of 4 "unat n"] by (simp add: unat_div)
qed

context gmp_laws
begin

lemma hex_buffer_eq:
  "0 \<le> b \<Longrightarrow> hex_buffer G k b = map (\<lambda>i. hex_digit (of_nat (nibble b i))) [0..<k]"
proof (induction k arbitrary: b)
  case (Suc k)
  have "nibble (drop_bit 4 b) i = nibble b (Suc i)" for i
    by (simp add: nibble_def ac_simps)
  moreover have "hex_buffer G k (drop_bit 4 b) = map (\<lambda>i. hex_digit (of_nat (nibble (drop_bit 4 b) i))) [0..<k]"
    using Suc by simp
  moreover have "hex_digit (word_of_int b) = hex_digit (of_nat (nibble b 0))"
    using hex_digit_mod [of b] by (simp add: nibble_def)
  ultimately show ?case
    using Suc.prems by (simp add: upt_conv_Cons map_Suc_upt [symmetric] del: upt.simps)
qed simp

lemma fprint_bits_hex:
  assumes "wf_lbits v" "l_len v mod 4 = 0" "uint (l_len v div 4) \<le> int_max"
  shows "\<exists>s. ml_string_of_bits (bl_of v) = Some s \<and> fprint_bits G pre v post = Inr (pre @ s @ post)"
proof -
  have n: "unat (l_len v) = 4 * unat (l_len v div 4)"
    using len_div_4 [OF assms(2)] .
  have "0 \<le> l_bits v" using assms(1) by (simp add: wf_lbits_def)
  then show ?thesis
    using assms(2,3) ml_hex_int_bl [of "unat (l_len v div 4)" "l_bits v"]
    by (simp add: fprint_bits_def bl_of_def n hex_buffer_eq rev_map)
qed

lemma fprint_bits_bin:
  assumes "l_len v mod 4 \<noteq> 0" "unat (l_len v) < 2 ^ 31"
  shows "\<exists>s. ml_string_of_bits (bl_of v) = Some s \<and> fprint_bits G pre v post = Inr (pre @ s @ post)"
proof -
  have "unat (l_len v) mod 4 \<noteq> 0"
    using assms(1) unat_mod [of "l_len v" 4] unsigned_eq_0_iff [of "l_len v mod 4"] by fastforce
  then have "ml_string_of_bits (bl_of v) =
      Some (''0b'' @ rev (map (\<lambda>i. char_of (of_bool (bit (l_bits v) i) + (48::nat))) [0..<unat (l_len v)]))"
    by (simp add: ml_string_of_bits_def map_rev_bits bl_of_def)
  moreover have "nat (sint (ucast (l_len v) :: u32)) = unat (l_len v)"
  proof -
    have "unat (ucast (l_len v) :: u32) = unat (l_len v)"
      using assms(2) by (simp add: unsigned_ucast_eq take_bit_nat_eq_self)
    then have u: "uint (ucast (l_len v) :: u32) = int (unat (l_len v))"
      by (metis uint_nat)
    have "signed_take_bit 31 (int (unat (l_len v))) = int (unat (l_len v))"
      using assms(2) by (intro signed_take_bit_int_eq_self) (simp_all del: of_nat_unat)
    then show ?thesis by (simp add: sint_uint u del: of_nat_unat)
  qed
  moreover have "unat (of_nat i :: u64) = i" if "i < unat (l_len v)" for i
    using that assms(2) by (simp add: unat_of_nat64)
  ultimately show ?thesis
    using assms(1) by (simp add: fprint_bits_def)
qed

end

text \<open>Padded digits: \<open>w\<close> digits of \<open>n\<close>, whatever its own length.\<close>

definition fixed_digits :: "nat \<Rightarrow> nat \<Rightarrow> nat \<Rightarrow> nat list" where
  "fixed_digits b w n = map (\<lambda>i. n div b ^ i mod b) (rev [0..<w])"

lemma fixed_digits_Suc: "fixed_digits b (Suc w) n = fixed_digits b w (n div b) @ [n mod b]"
proof -
  have "[0..<Suc w] = 0 # map Suc [0..<w]"
    by (simp add: upt_conv_Cons map_Suc_upt del: upt.simps)
  then show ?thesis
    by (simp add: fixed_digits_def rev_map div_mult2_eq o_def)
qed

lemma padded_digits:
  "1 < b \<Longrightarrow> 0 < w \<Longrightarrow> n < b ^ w \<Longrightarrow>
   length (digits b n) \<le> w \<and> replicate (w - length (digits b n)) 0 @ digits b n = fixed_digits b w n"
proof (induction w arbitrary: n)
  case (Suc w)
  show ?case
  proof (cases "n < b")
    case True
    have "fixed_digits b w 0 = replicate w 0"
      by (rule replicate_eqI) (auto simp: fixed_digits_def)
    with True show ?thesis by (simp add: digits.simps [of b n] fixed_digits_Suc)
  next
    case False
    then have "0 < w" using Suc.prems by (cases w) auto
    moreover have "n div b < b ^ w"
      using Suc.prems by (simp add: less_mult_imp_div_less mult.commute)
    ultimately have "length (digits b (n div b)) \<le> w \<and>
        replicate (w - length (digits b (n div b))) 0 @ digits b (n div b) = fixed_digits b w (n div b)"
      using Suc.prems(1) by (intro Suc.IH)
    with False Suc.prems(1) show ?thesis
      by (simp add: digits.simps [of b n] fixed_digits_Suc flip: append_assoc)
  qed
qed simp

lemma digits_less: "1 < b \<Longrightarrow> \<forall>d \<in> set (digits b n). d < b"
  by (induction b n rule: digits.induct) (subst digits.simps, auto)

lemma digit_CHAR_0: "digit_CHAR 0 = CHR ''0''"
  by code_simp

lemma pad_HEX:
  assumes "0 < w" "n < 16 ^ w"
  shows "pad_zeros w (HEX_of_nat n) = map digit_CHAR (fixed_digits 16 w n)"
proof -
  have "fixed_digits 16 w n = replicate (w - length (digits 16 n)) 0 @ digits 16 n"
    using padded_digits [of 16 w n] assms by simp
  then show ?thesis by (simp add: pad_zeros_def HEX_of_nat_def digit_CHAR_0)
qed

lemma nibble_fixed:
  "0 \<le> b \<Longrightarrow> map (nibble b) (rev [0..<w]) = fixed_digits 16 w (nat b)"
proof -
  assume b: "0 \<le> b"
  have "drop_bit (4 * i) b mod 16 = b div 16 ^ i mod 16" for i
    by (simp add: drop_bit_eq_div power_mult)
  moreover have "nat (b div 16 ^ i mod 16) = nat b div 16 ^ i mod 16" for i
    using b by (simp add: nat_mod_distrib nat_div_distrib nat_power_eq pos_imp_zdiv_nonneg_iff)
  ultimately show ?thesis by (simp add: nibble_def fixed_digits_def)
qed

lemma string_of_lbits_reference:
  assumes "gmp_laws G" "gmp_text_laws T" "wf_lbits v" "0 < l_len v" "unat (l_len v) < 2 ^ 31 - 1"
  shows "\<exists>s. ml_string_of_bits (bl_of v) = Some s \<and> string_of_lbits G T v = Inr s"
proof (cases "l_len v mod 4 = 0")
  case True
  define w where "w = unat (l_len v div 4)"
  have "0 < unat (l_len v)" using assms(4) by (simp add: word_less_nat_alt)
  then have w: "unat (l_len v) = 4 * w" "0 < w"
    using len_div_4 [OF True] unfolding w_def by linarith+
  have b: "0 \<le> l_bits v" "l_bits v < 2 ^ (4 * w)" using assms(3) w by (auto simp: wf_lbits_def)
  then have "nat (l_bits v) < 16 ^ w" by (simp add: nat_less_iff power_mult)
  then have pad: "fmt_0ZX T w (l_bits v) = map digit_CHAR (fixed_digits 16 w (nat (l_bits v)))"
    using b w gmp_text_laws.fmt_0ZX_law [OF assms(2) b(1)] by (simp add: pad_HEX)
  have "hex_digit (of_nat (nibble (l_bits v) i)) = digit_CHAR (nibble (l_bits v) i)" for i
    using bspec [OF hex_digits(3), of "nibble (l_bits v) i"] nibble_less [of "l_bits v" i] by simp
  then have "map (\<lambda>i. hex_digit (of_nat (nibble (l_bits v) i))) (rev [0..<w]) = map digit_CHAR (map (nibble (l_bits v)) (rev [0..<w]))"
    by simp
  also have "\<dots> = fmt_0ZX T w (l_bits v)" unfolding nibble_fixed [OF b(1)] pad ..
  finally show ?thesis
    using True ml_hex_int_bl [of w "l_bits v"] by (simp add: string_of_lbits_def bl_of_def w(1) flip: w_def)
next
  case False
  have "unat (l_len v) mod 4 \<noteq> 0"
    using False unat_mod [of "l_len v" 4] unsigned_eq_0_iff [of "l_len v mod 4"] by fastforce
  then have ml: "ml_string_of_bits (bl_of v) =
      Some (''0b'' @ rev (map (\<lambda>i. char_of (of_bool (bit (l_bits v) i) + (48::nat))) [0..<unat (l_len v)]))"
    by (simp add: ml_string_of_bits_def map_rev_bits bl_of_def)
  have idx: "unat (l_len v - of_nat i) = unat (l_len v) - i" if "i \<le> unat (l_len v)" for i
    using that assms(5) by (subst unat_sub64) (simp_all add: word_le_nat_alt unat_of_nat64)
  have idx': "unat (l_len v - (1 + of_nat i)) = unat (l_len v) - Suc i" if "i < unat (l_len v)" for i
    using idx [of "Suc i"] that by simp
  have "map (\<lambda>i. char_of (of_bool (mpz_tstbit G (l_bits v) (l_len v - of_nat i)) + (48::nat))) [1..<unat (l_len v) + 1]
      = rev (map (\<lambda>i. char_of (of_bool (bit (l_bits v) i) + (48::nat))) [0..<unat (l_len v)])"
    by (rule nth_equalityI)
      (auto simp: rev_nth gmp_laws.mpz_tstbit_law [OF assms(1)] idx' simp del: upt_Suc)
  moreover have "uint (l_len v) < int_max"
    using assms(5) by (simp add: uint_nat del: of_nat_unat)
  ultimately show ?thesis
    using False ml by (simp add: string_of_lbits_def del: upt_Suc)
qed

lemma string_of_lbits_empty:
  assumes "gmp_text_laws T" "wf_lbits v" "l_len v = 0"
  shows "string_of_lbits G T v = Inr ''0x0''" "ml_string_of_bits (bl_of v) = Some ''0x''"
proof -
  have "l_bits v = 0" using assms(2,3) by (simp add: wf_lbits_def)
  then show "string_of_lbits G T v = Inr ''0x0''"
    using assms(3) gmp_text_laws.fmt_0ZX_law [OF assms(1), of 0 0] by (simp add: string_of_lbits_def) code_simp
  show "ml_string_of_bits (bl_of v) = Some ''0x''"
    using assms(3) ml_hex_int_bl [of 0 "l_bits v"] by (simp add: bl_of_def)
qed

section \<open>Strings and decimal numerals\<close>

lemma strcmp_0_iff: "strcmp s t = 0 \<longleftrightarrow> s = t"
  by (induction s t rule: strcmp.induct) auto

lemma eq_string_iff: "eq_string s t \<longleftrightarrow> s = t" "eq_sail_string s t \<longleftrightarrow> s = t"
  for s :: string
  by (simp_all add: eq_string_def eq_sail_string_def strcmp_0_iff)

lemma strstr_from_ge: "strstr_from i s p = Some j \<Longrightarrow> i \<le> j"
  by (induction i s p rule: strstr_from.induct) (auto split: if_splits)

lemma string_startswith_iff: "string_startswith s p \<longleftrightarrow> (\<exists>t. s = p @ t)"
proof (cases s)
  case (Cons c cs)
  have "strstr_from 0 (c # cs) p = Some 0 \<longleftrightarrow> take (length p) (c # cs) = p"
    using strstr_from_ge [of "Suc 0" cs p 0] by auto
  then show ?thesis
    by (metis Cons append_eq_conv_conj append_take_drop_id string_startswith_def)
qed (simp add: string_startswith_def)

lemma dec_value_append: "dec_value (s @ [c]) = 10 * dec_value s + (of_char c - 48)"
  by (simp add: dec_value_def)

lemma digit_char_ascii: "d < 10 \<Longrightarrow> (of_char (digit_char d) :: nat) = 48 + d"
  by (simp add: digit_char_def)

lemma dec_of_nat_digits:
  "dec_value (dec_of_nat n) = n \<and> list_all is_digit (dec_of_nat n) \<and> dec_of_nat n \<noteq> []"
proof (induction n rule: less_induct)
  case (less n)
  show ?case
  proof (cases "n < 10")
    case True
    then show ?thesis
      by (simp add: dec_of_nat_def digits.simps [of 10 n] dec_value_def is_digit_def digit_char_ascii)
  next
    case False
    then have "dec_of_nat n = dec_of_nat (n div 10) @ [digit_char (n mod 10)]"
      by (simp add: dec_of_nat_def digits.simps [of 10 n])
    with less.IH [of "n div 10"] False show ?thesis
      by (simp add: dec_value_append is_digit_def digit_char_ascii)
  qed
qed

lemma is_digit_not_space: "is_digit c \<Longrightarrow> \<not> is_space c"
  by (auto simp: is_digit_def is_space_def)

lemma is_digit_not_minus: "is_digit c \<Longrightarrow> c \<noteq> CHR ''-''"
  by (auto simp: is_digit_def)

lemma parse_dec_of_int: "parse_dec (dec_of_int k) = Some k"
proof -
  have f: "filter (\<lambda>c. \<not> is_space c) (dec_of_nat n) = dec_of_nat n" for n
    using dec_of_nat_digits [of n] is_digit_not_space by (auto simp: filter_id_conv list_all_iff)
  have m: "\<not> is_space CHR ''-''" by code_simp
  obtain c cs where c: "dec_of_nat (nat k) = c # cs" "is_digit c"
    using dec_of_nat_digits [of "nat k"] by (cases "dec_of_nat (nat k)") auto
  show ?thesis
  proof (cases "k < 0")
    case True
    then show ?thesis
      using dec_of_nat_digits [of "nat (- k)"] m by (simp add: parse_dec_def dec_of_int_def f)
  next
    case False
    then show ?thesis
      using dec_of_nat_digits [of "nat k"] c is_digit_not_minus [OF c(2)] f [of "nat k"]
      by (simp add: parse_dec_def dec_of_int_def)
  qed
qed

context gmp_laws
begin

lemma string_drop_eq:
  assumes "0 \<le> k" "k < 2 ^ 64" "length s < 2 ^ 64"
  shows "string_drop G s k = drop (nat k) s"
  using assms
  by (auto simp: string_drop_def create_mach_int_of_sail_int_def unat_word_of_int64 word_le_nat_alt
      unat_of_nat64)

text \<open>Taking a nonempty prefix always runs into the misplaced subscript.\<close>

lemma string_take_eq:
  assumes "0 \<le> k" "k < 2 ^ 64" "length s < 2 ^ 64"
  shows "string_take G s k = (if k = 0 \<or> s = [] then Inr [] else Inl Undefined_behaviour)"
proof -
  define L :: u64 where "L = of_nat (length s)"
  define N :: u64 where "N = word_of_int k"
  have u: "unat L = length s" "unat N = nat k"
    using assms by (simp_all add: L_def N_def unat_of_nat64 unat_word_of_int64)
  have "L = 0 \<longleftrightarrow> s = []" "N = 0 \<longleftrightarrow> k = 0"
    using u assms(1) unsigned_eq_0_iff [of L] unsigned_eq_0_iff [of N] by fastforce+
  then have "(if L \<le> N then L else N) = 0 \<longleftrightarrow> k = 0 \<or> s = []"
    using u by (auto simp: word_le_nat_alt)
  moreover have "string_take G s k =
      check ((if L \<le> N then L else N) = 0) Undefined_behaviour (Inr (take (unat (if L \<le> N then L else N)) s))"
    using assms(1) by (simp add: string_take_def Let_def L_def N_def create_mach_int_of_sail_int_def)
  ultimately show ?thesis by (auto simp: check_def)
qed

end

end
