(* ===== verification/Rts_Memory.thy ===== *)
theory Rts_Memory
  imports Sail_Text
begin

text \<open>
  The memory of the emulator (\<open>lib/rts.c\<close>, "Sail memory builtins" and "Memory builtins"): two
  linked lists of blocks of \<open>MASK + 1\<close> cells, one of bytes and one of capability tags, and the
  builtins that read and write bitvectors of bytes in them. The state \<open>rts\<close> holds the static
  variables of the file and the two output streams.
\<close>

section \<open>Blocks\<close>

text \<open>An array allocated by \<open>calloc\<close>; an access past its end is a fault.\<close>

record 'a buffer =
  buf_size :: nat
  buf_at :: "nat \<Rightarrow> 'a"

definition calloc :: "nat \<Rightarrow> 'a \<Rightarrow> 'a buffer" where
  "calloc n z = \<lparr>buf_size = n, buf_at = (\<lambda>i. z)\<rparr>"

definition buf_read :: "'a buffer \<Rightarrow> nat \<Rightarrow> 'a res" where
  "buf_read b i = check (i < buf_size b) Out_of_bounds (Inr (buf_at b i))"

definition buf_write :: "'a buffer \<Rightarrow> nat \<Rightarrow> 'a \<Rightarrow> 'a buffer res" where
  "buf_write b i x = check (i < buf_size b) Out_of_bounds (Inr (b\<lparr>buf_at := (buf_at b)(i := x)\<rparr>))"

text \<open>\<open>struct block\<close> with \<open>uint8_t\<close> cells and \<open>struct tag_block\<close> with \<open>bool\<close> cells.\<close>

record 'a block =
  block_id :: u64
  block_mem :: "'a buffer"

type_synonym mem_block = "u8 block"
type_synonym tag_block = "bool block"

definition MASK :: u64 where
  "MASK = 0xFFFFFF"

text \<open>The loops over the list: \<open>None\<close> when no block has the identifier.\<close>

fun write_block :: "u64 \<Rightarrow> u64 \<Rightarrow> 'a \<Rightarrow> 'a block list \<Rightarrow> 'a block list option res" where
  "write_block blk offset x [] = Inr None"
| "write_block blk offset x (current # rest) =
     (if block_id current = blk
      then bind_res (buf_write (block_mem current) (unat offset) x)
             (\<lambda>m. Inr (Some (current\<lparr>block_mem := m\<rparr> # rest)))
      else bind_res (write_block blk offset x rest) (\<lambda>r. Inr (map_option ((#) current) r)))"

fun read_block :: "u64 \<Rightarrow> u64 \<Rightarrow> 'a \<Rightarrow> 'a block list \<Rightarrow> 'a res" where
  "read_block blk offset none [] = Inr none"
| "read_block blk offset none (current # rest) =
     (if block_id current = blk then buf_read (block_mem current) (unat offset)
      else read_block blk offset none rest)"

section \<open>The state of the runtime\<close>

record rts = streams +
  sail_memory :: "mem_block list"
  sail_tags :: "tag_block list"
  g_elf_entry :: u64
  g_cycle_count :: u64
  g_cycle_limit :: u64
  g_verbosity :: u64
  g_sleeping :: bool
  g_trace_depth :: i64
  g_trace_enabled :: bool

text \<open>
  The initial values of the variables, as they are declared in several places of the file. A static variable
  without an initialiser starts zeroed.
\<close>

definition init_counters :: "u64 \<times> u64 \<times> u64" where
  [simp]: "init_counters = (0, 0, 0)"

definition init_verbosity :: u64 where
  [simp]: "init_verbosity = 0"

definition init_sleeping :: bool where
  [simp]: "init_sleeping = False"

definition init_memory :: "mem_block list" where
  [simp]: "init_memory = []"

definition init_tags :: "tag_block list" where
  [simp]: "init_tags = []"

definition init_trace :: "i64 \<times> bool" where
  [simp]: "init_trace = (0, False)"

definition init_rts :: rts where
  "init_rts = \<lparr>out_text = [], err_text = [], sail_memory = init_memory, sail_tags = init_tags,
     g_elf_entry = fst init_counters, g_cycle_count = fst (snd init_counters), g_cycle_limit = snd (snd init_counters),
     g_verbosity = init_verbosity, g_sleeping = init_sleeping,
     g_trace_depth = fst init_trace, g_trace_enabled = snd init_trace\<rparr>"

section \<open>Single cells\<close>

definition newline :: string where
  "newline = [char_of (10::nat)]"

definition write_mem :: "u64 \<Rightarrow> u64 \<Rightarrow> rts \<Rightarrow> rts res" where
  "write_mem address byte st =
     (let blk = address AND NOT MASK; offset = address AND MASK
      in bind_res (write_block blk offset (ucast byte) (sail_memory st)) (\<lambda>r.
           case r of
             Some bs \<Rightarrow> Inr (st\<lparr>sail_memory := bs\<rparr>)
           | None \<Rightarrow>
               let st = put_err (''[Sail] Allocating new block 0x'' @ hex_of_nat (unat blk) @ newline) st
               in bind_res (buf_write (calloc (unat (MASK + 1)) 0) (unat offset) (ucast byte)) (\<lambda>m.
                    Inr (st\<lparr>sail_memory := \<lparr>block_id = blk, block_mem = m\<rparr> # sail_memory st\<rparr>))))"

definition read_mem :: "u64 \<Rightarrow> rts \<Rightarrow> u64 res" where
  "read_mem address st =
     (let blk = address AND NOT MASK; offset = address AND MASK
      in bind_res (read_block blk offset 0 (sail_memory st)) (\<lambda>b. Inr (ucast b)))"

definition write_tag_bool :: "u64 \<Rightarrow> bool \<Rightarrow> rts \<Rightarrow> rts res" where
  "write_tag_bool address tag st =
     (let blk = address AND NOT MASK; offset = address AND MASK
      in bind_res (write_block blk offset tag (sail_tags st)) (\<lambda>r.
           case r of
             Some bs \<Rightarrow> Inr (st\<lparr>sail_tags := bs\<rparr>)
           | None \<Rightarrow>
               let st = put_err (''[Sail] Allocating new tag block 0x'' @ hex_of_nat (unat blk) @ newline) st
               in bind_res (buf_write (calloc (unat (MASK + 1)) False) (unat offset) tag) (\<lambda>m.
                    Inr (st\<lparr>sail_tags := \<lparr>block_id = blk, block_mem = m\<rparr> # sail_tags st\<rparr>))))"

definition read_tag_bool :: "u64 \<Rightarrow> rts \<Rightarrow> bool res" where
  "read_tag_bool address st =
     (let blk = address AND NOT MASK; offset = address AND MASK
      in read_block blk offset False (sail_tags st))"

definition kill_mem :: "rts \<Rightarrow> rts" where
  "kill_mem st = st\<lparr>sail_memory := [], sail_tags := []\<rparr>"

section \<open>Bitvectors in memory\<close>

definition write_ram :: "gmp \<Rightarrow> int \<Rightarrow> int \<Rightarrow> lbits \<Rightarrow> lbits \<Rightarrow> lbits \<Rightarrow> rts \<Rightarrow> (bool \<times> rts) res" where
  "write_ram G addr_size data_size_mpz hex_ram addr_bv data st =
     (let addr = mpz_get_ui G (l_bits addr_bv);
          data_size = mpz_get_ui G data_size_mpz;
          buf = mpz_set G (l_bits data)
      in bind_res
           (for_up_res 0 (unat data_size)
              (\<lambda>i (buf, st).
                 let byte = mpz_get_ui G buf AND 0xFF
                 in bind_res (write_mem (addr + of_nat i) byte st)
                      (\<lambda>st. Inr (mpz_fdiv_q_2exp G buf 8, st)))
              (buf, st))
           (\<lambda>(buf, st). Inr (True, st)))"

text \<open>\<open>data_size * 8\<close> is computed on \<open>int64_t\<close>.\<close>

definition fast_read_ram :: "i64 \<Rightarrow> u64 \<Rightarrow> rts \<Rightarrow> sbits res" where
  "fast_read_ram data_size addr st =
     bind_res
       (for_down_res (unat data_size)
          (\<lambda>i r. bind_res (read_mem (addr + (of_nat i - 1)) st) (\<lambda>byte. Inr (push_bit 8 r + byte))) (0 :: u64))
       (\<lambda>r. check (- (2 ^ 63) \<le> sint data_size * 8 \<and> sint data_size * 8 < 2 ^ 63) Undefined_behaviour
              (Inr \<lparr>s_len = data_size * 8, s_bits = r\<rparr>))"

definition read_ram :: "gmp \<Rightarrow> int \<Rightarrow> int \<Rightarrow> lbits \<Rightarrow> lbits \<Rightarrow> rts \<Rightarrow> lbits res" where
  "read_ram G addr_size data_size_mpz hex_ram addr_bv st =
     (let addr = mpz_get_ui G (l_bits addr_bv);
          data_size = mpz_get_ui G data_size_mpz
      in bind_res
           (for_down_res (unat data_size)
              (\<lambda>i z. bind_res (read_mem (addr + (of_nat i - 1)) st) (\<lambda>b.
                 let byte = mpz_set_ui G b;
                     z = mpz_mul_2exp G z 8
                 in Inr (mpz_add G z byte)))
              (mpz_set_ui G 0))
           (\<lambda>z. Inr \<lparr>l_len = data_size * 8, l_bits = z\<rparr>))"

section \<open>The interface of a store of cells\<close>

text \<open>
  What the memory builtins rely on: in a well-formed state every cell can be read and written,
  and a write changes the one cell it is made to. \<open>cell\<close> is what a cell keeps of a value: its low
  byte for the memory, the value itself for the tags.
\<close>

locale cell_store =
  fixes rd :: "u64 \<Rightarrow> 's \<Rightarrow> 'v res"
    and wr :: "u64 \<Rightarrow> 'v \<Rightarrow> 's \<Rightarrow> 's res"
    and inv :: "'s \<Rightarrow> bool"
    and cell :: "'v \<Rightarrow> 'v"
  assumes rd_total: "inv s \<Longrightarrow> \<exists>v. rd a s = Inr v"
    and wr_total: "inv s \<Longrightarrow> \<exists>s'. wr a v s = Inr s' \<and> inv s'"
    and rd_wr: "inv s \<Longrightarrow> wr a v s = Inr s' \<Longrightarrow> rd b s' = (if b = a then Inr (cell v) else rd b s)"
begin

text \<open>A loop that writes consecutive cells, the address wrapping around at the end.\<close>

lemma wr_cells_from:
  assumes "inv s" "n \<le> 2 ^ 64"
  shows "\<exists>s'. for_up_res k n (\<lambda>i. wr (a + of_nat i) (f i)) s = Inr s' \<and> inv s' \<and>
    (\<forall>b. rd b s' = (if k \<le> unat (b - a) \<and> unat (b - a) < n then Inr (cell (f (unat (b - a)))) else rd b s))"
proof (cases "k \<le> n")
  case True
  have "\<exists>s'. for_up_res k n (\<lambda>i. wr (a + of_nat i) (f i)) s = Inr s' \<and>
    (inv s' \<and> (\<forall>b. rd b s' = (if k \<le> unat (b - a) \<and> unat (b - a) < n then Inr (cell (f (unat (b - a)))) else rd b s)))"
  proof (rule for_up_res_induct [OF True])
    fix i t
    assume i: "k \<le> i" "i < n" and t: "inv t \<and>
      (\<forall>b. rd b t = (if k \<le> unat (b - a) \<and> unat (b - a) < i then Inr (cell (f (unat (b - a)))) else rd b s))"
    obtain t' where t': "wr (a + of_nat i) (f i) t = Inr t'" "inv t'"
      using wr_total [of t "a + of_nat i" "f i"] t by blast
    have "b = a + of_nat i \<longleftrightarrow> unat (b - a) = i" for b
      using i assms(2) unat_of_nat64 [of i] by (auto simp: algebra_simps)
    then have "rd b t' = (if k \<le> unat (b - a) \<and> unat (b - a) < Suc i then Inr (cell (f (unat (b - a)))) else rd b s)" for b
      using rd_wr [OF _ t'(1), of b] t i by (auto simp: less_Suc_eq)
    with t' show "\<exists>t'. wr (a + of_nat i) (f i) t = Inr t' \<and>
        (inv t' \<and> (\<forall>b. rd b t' = (if k \<le> unat (b - a) \<and> unat (b - a) < Suc i then Inr (cell (f (unat (b - a)))) else rd b s)))"
      by blast
  qed (use assms in auto)
  then show ?thesis by blast
qed (use assms in auto)

lemma wr_cells:
  assumes "inv s" "n \<le> 2 ^ 64"
  shows "\<exists>s'. for_up_res 0 n (\<lambda>i. wr (a + of_nat i) (f i)) s = Inr s' \<and> inv s' \<and>
    (\<forall>b. rd b s' = (if unat (b - a) < n then Inr (cell (f (unat (b - a)))) else rd b s))"
  using wr_cells_from [OF assms, of 0 a f] by simp

lemma rd_wr_same: "inv s \<Longrightarrow> wr a v s = Inr s' \<Longrightarrow> rd a s' = Inr (cell v)"
  by (simp add: rd_wr)

text \<open>Writes to different cells commute, as far as any read can tell.\<close>

lemma wr_commute:
  assumes "inv s" "a \<noteq> b"
  shows "\<exists>s1 s2. bind_res (wr a v s) (wr b w) = Inr s1 \<and> bind_res (wr b w s) (wr a v) = Inr s2 \<and>
    (\<forall>c. rd c s1 = rd c s2)"
proof -
  obtain t1 t2 where t: "wr a v s = Inr t1" "inv t1" "wr b w s = Inr t2" "inv t2"
    using wr_total assms(1) by metis
  obtain s1 s2 where s: "wr b w t1 = Inr s1" "wr a v t2 = Inr s2"
    using wr_total t by metis
  have "rd c s1 = rd c s2" for c
    using rd_wr [OF t(2) s(1), of c] rd_wr [OF t(4) s(2), of c] rd_wr [OF assms(1) t(1), of c]
      rd_wr [OF assms(1) t(3), of c] assms(2) by (cases "c = a"; cases "c = b") simp_all
  with s t show ?thesis by simp
qed

end

section \<open>The block lists provide it\<close>

definition wf_blocks :: "'a block list \<Rightarrow> bool" where
  "wf_blocks bs \<longleftrightarrow> distinct (map block_id bs) \<and>
     list_all (\<lambda>i. i AND MASK = 0) (map block_id bs) \<and>
     list_all (\<lambda>b. buf_size (block_mem b) = 2 ^ 24) bs"

lemma write_block_None:
  "i \<notin> set (map block_id bs) \<Longrightarrow> write_block i off x bs = Inr None \<and> read_block i off d bs = Inr d"
  by (induction bs) auto

lemma write_block_Some:
  assumes "i \<in> set (map block_id bs)" "unat off < 2 ^ 24"
    and "list_all (\<lambda>b. buf_size (block_mem b) = 2 ^ 24) bs"
  shows "\<exists>bs'. write_block i off x bs = Inr (Some bs') \<and> map block_id bs' = map block_id bs \<and>
    list_all (\<lambda>b. buf_size (block_mem b) = 2 ^ 24) bs' \<and>
    (\<forall>j off' d. read_block j off' d bs' = (if j = i \<and> off' = off then Inr x else read_block j off' d bs))"
  using assms
proof (induction bs)
  case (Cons b bs)
  show ?case
  proof (cases "block_id b = i")
    case True
    have "unat off' = unat off \<longleftrightarrow> off' = off" for off' by (simp add: word_unat_eq_iff)
    then show ?thesis
      using True Cons.prems by (auto simp: buf_write_def buf_read_def check_def)
  next
    case False
    then have "\<exists>bs'. write_block i off x bs = Inr (Some bs') \<and> map block_id bs' = map block_id bs \<and>
      list_all (\<lambda>b. buf_size (block_mem b) = 2 ^ 24) bs' \<and>
      (\<forall>j off' d. read_block j off' d bs' = (if j = i \<and> off' = off then Inr x else read_block j off' d bs))"
      using Cons.prems by (intro Cons.IH) auto
    then show ?thesis using False Cons.prems by auto
  qed
qed simp

lemma read_block_total:
  assumes "unat off < 2 ^ 24" "list_all (\<lambda>b. buf_size (block_mem b) = 2 ^ 24) bs"
  shows "\<exists>x. read_block i off d bs = Inr x"
  using assms by (induction bs) (auto simp: buf_read_def)

text \<open>An address is its block identifier and its offset.\<close>

lemma offset_less: "unat (a AND MASK) < 2 ^ 24"
proof -
  have "a AND MASK = take_bit 24 a" by (simp add: MASK_def take_bit_eq_mask mask_eq_exp_minus_1)
  then show ?thesis using take_bit_nat_less_exp [of 24 "unat a"] by (simp add: unsigned_take_bit_eq)
qed

lemma address_parts: "a = b \<longleftrightarrow> a AND NOT MASK = b AND NOT MASK \<and> a AND MASK = b AND MASK" for a b :: u64
proof
  assume h: "a AND NOT MASK = b AND NOT MASK \<and> a AND MASK = b AND MASK"
  have "(a AND NOT m) OR (a AND m) = a" for a m :: u64
    by (auto simp: bit_eq_iff bit_or_iff bit_and_iff bit_not_iff)
  with h show "a = b" by metis
qed simp

lemma block_size: "unat (MASK + 1) = 2 ^ 24"
  by (simp add: MASK_def)

lemma new_block_id: "(a AND NOT MASK) AND MASK = 0" for a :: u64
  by (simp add: and.assoc)

definition blocks_read :: "u64 \<Rightarrow> 'a \<Rightarrow> 'a block list \<Rightarrow> 'a res" where
  "blocks_read a d bs = read_block (a AND NOT MASK) (a AND MASK) d bs"

lemma blocks_write_old:
  assumes "wf_blocks bs" "write_block (a AND NOT MASK) (a AND MASK) x bs = Inr (Some bs')"
  shows "wf_blocks bs'" "blocks_read b d bs' = (if b = a then Inr x else blocks_read b d bs)"
proof -
  have "a AND NOT MASK \<in> set (map block_id bs)"
    using assms(2) write_block_None by fastforce
  then obtain bs'' where bs: "write_block (a AND NOT MASK) (a AND MASK) x bs = Inr (Some bs'')"
      "map block_id bs'' = map block_id bs" "list_all (\<lambda>b. buf_size (block_mem b) = 2 ^ 24) bs''"
      "\<forall>j off' d. read_block j off' d bs'' =
         (if j = a AND NOT MASK \<and> off' = a AND MASK then Inr x else read_block j off' d bs)"
    using write_block_Some [of "a AND NOT MASK" bs "a AND MASK" x] assms(1) offset_less [of a]
    by (auto simp: wf_blocks_def)
  then have [simp]: "bs'' = bs'" using assms(2) by simp
  show "wf_blocks bs'"
    using assms(1) bs(2,3) by (simp add: wf_blocks_def)
  show "blocks_read b d bs' = (if b = a then Inr x else blocks_read b d bs)"
    using bs(4) address_parts [of b a] by (simp add: blocks_read_def)
qed

lemma blocks_write_new:
  assumes "wf_blocks bs" "write_block (a AND NOT MASK) (a AND MASK) x bs = Inr None"
    and m: "buf_write (calloc (unat (MASK + 1)) d) (unat (a AND MASK)) x = Inr m"
  shows "wf_blocks (\<lparr>block_id = a AND NOT MASK, block_mem = m\<rparr> # bs)"
    "blocks_read b d (\<lparr>block_id = a AND NOT MASK, block_mem = m\<rparr> # bs) =
      (if b = a then Inr x else blocks_read b d bs)"
proof -
  have new: "a AND NOT MASK \<notin> set (map block_id bs)"
  proof
    assume "a AND NOT MASK \<in> set (map block_id bs)"
    from write_block_Some [OF this, of "a AND MASK" x] assms(1,2) offset_less [of a]
    show False by (auto simp: wf_blocks_def list_all_iff)
  qed
  have m': "m = \<lparr>buf_size = 2 ^ 24, buf_at = (\<lambda>i. d)(unat (a AND MASK) := x)\<rparr>"
    using m by (auto simp: buf_write_def calloc_def block_size)
  then show "wf_blocks (\<lparr>block_id = a AND NOT MASK, block_mem = m\<rparr> # bs)"
    using assms(1) new by (simp add: wf_blocks_def new_block_id)
  have "blocks_read b d bs = Inr d" if "b AND NOT MASK = a AND NOT MASK"
    using write_block_None [OF new, where x = x and off = "b AND MASK" and d = d] that by (simp add: blocks_read_def)
  then show "blocks_read b d (\<lparr>block_id = a AND NOT MASK, block_mem = m\<rparr> # bs) =
      (if b = a then Inr x else blocks_read b d bs)"
    using address_parts [of b a] offset_less [of b]
    by (auto simp: blocks_read_def buf_read_def m' word_unat_eq_iff)
qed

lemma write_block_cases:
  assumes "wf_blocks bs"
  obtains (Old) bs' where "write_block (a AND NOT MASK) (a AND MASK) x bs = Inr (Some bs')"
  | (New) m where "write_block (a AND NOT MASK) (a AND MASK) x bs = Inr None"
      "buf_write (calloc (unat (MASK + 1)) d) (unat (a AND MASK)) x = Inr m"
proof (cases "a AND NOT MASK \<in> set (map block_id bs)")
  case True
  then show thesis
    using Old write_block_Some [of "a AND NOT MASK" bs "a AND MASK" x] assms offset_less [of a]
    by (auto simp: wf_blocks_def)
next
  case False
  have "\<exists>m. buf_write (calloc (unat (MASK + 1)) d) (unat (a AND MASK)) x = Inr m"
    using offset_less [of a] by (simp add: buf_write_def calloc_def block_size)
  with New write_block_None [OF False] show thesis by blast
qed

lemma blocks_read_total: "wf_blocks bs \<Longrightarrow> \<exists>x. blocks_read a d bs = Inr x"
  unfolding blocks_read_def by (rule read_block_total [OF offset_less]) (simp add: wf_blocks_def)

definition wf_rts :: "rts \<Rightarrow> bool" where
  "wf_rts st \<longleftrightarrow> wf_blocks (sail_memory st) \<and> wf_blocks (sail_tags st)"

lemma put_err_simps [simp]:
  "sail_memory (put_err s st) = sail_memory st" "sail_tags (put_err s st) = sail_tags st"
  by (simp_all add: put_err_def)

lemma low_byte_mask: "v AND 0xFF = v AND mask 8" for v :: u64
  by (simp add: mask_eq_exp_minus_1)

lemma write_mem_cases:
  assumes "wf_rts st"
  shows "\<exists>st'. write_mem a v st = Inr st' \<and> wf_rts st' \<and> sail_tags st' = sail_tags st \<and>
    (\<forall>b. read_mem b st' = (if b = a then Inr (v AND 0xFF) else read_mem b st))"
proof -
  have v: "ucast (ucast v :: u8) = v AND 0xFF"
    unfolding low_byte_mask
    by (rule bit_word_eqI) (auto simp: bit_ucast_iff bit_and_iff bit_mask_iff)
  have wf: "wf_blocks (sail_memory st)" "wf_blocks (sail_tags st)" using assms by (auto simp: wf_rts_def)
  show ?thesis
  proof (cases rule: write_block_cases [OF wf(1), where a = a and x = "ucast v" and d = 0])
    case (1 bs')
    then show ?thesis
      using blocks_write_old [OF wf(1) 1] wf(2) v
      by (simp add: write_mem_def read_mem_def wf_rts_def Let_def flip: blocks_read_def)
  next
    case (2 m)
    then show ?thesis
      using blocks_write_new [OF wf(1) 2] wf(2) v
      by (simp add: write_mem_def read_mem_def wf_rts_def Let_def flip: blocks_read_def)
  qed
qed

lemma write_tag_cases:
  assumes "wf_rts st"
  shows "\<exists>st'. write_tag_bool a v st = Inr st' \<and> wf_rts st' \<and> sail_memory st' = sail_memory st \<and>
    (\<forall>b. read_tag_bool b st' = (if b = a then Inr v else read_tag_bool b st))"
proof -
  have wf: "wf_blocks (sail_memory st)" "wf_blocks (sail_tags st)" using assms by (auto simp: wf_rts_def)
  show ?thesis
  proof (cases rule: write_block_cases [OF wf(2), where a = a and x = v and d = False])
    case (1 bs')
    then show ?thesis
      using blocks_write_old [OF wf(2) 1] wf(1)
      by (simp add: write_tag_bool_def read_tag_bool_def wf_rts_def Let_def flip: blocks_read_def)
  next
    case (2 m)
    then show ?thesis
      using blocks_write_new [OF wf(2) 2] wf(1)
      by (simp add: write_tag_bool_def read_tag_bool_def wf_rts_def Let_def flip: blocks_read_def)
  qed
qed

interpretation mem: cell_store read_mem write_mem wf_rts "\<lambda>v. v AND 0xFF"
proof unfold_locales
  show "wf_rts s \<Longrightarrow> \<exists>v. read_mem a s = Inr v" for s a
    using blocks_read_total [of "sail_memory s" a 0]
    by (auto simp: read_mem_def Let_def wf_rts_def simp flip: blocks_read_def)
  show "wf_rts s \<Longrightarrow> \<exists>s'. write_mem a v s = Inr s' \<and> wf_rts s'" for s a v
    using write_mem_cases by blast
  show "wf_rts s \<Longrightarrow> write_mem a v s = Inr s' \<Longrightarrow>
      read_mem b s' = (if b = a then Inr (v AND 0xFF) else read_mem b s)" for s s' a b v
    using write_mem_cases [of s a v] by auto
qed

interpretation tags: cell_store read_tag_bool write_tag_bool wf_rts "\<lambda>v. v"
proof unfold_locales
  show "wf_rts s \<Longrightarrow> \<exists>v. read_tag_bool a s = Inr v" for s a
    using blocks_read_total [of "sail_tags s" a False]
    by (auto simp: read_tag_bool_def Let_def wf_rts_def simp flip: blocks_read_def)
  show "wf_rts s \<Longrightarrow> \<exists>s'. write_tag_bool a v s = Inr s' \<and> wf_rts s'" for s a v
    using write_tag_cases by blast
  show "wf_rts s \<Longrightarrow> write_tag_bool a v s = Inr s' \<Longrightarrow>
      read_tag_bool b s' = (if b = a then Inr v else read_tag_bool b s)" for s s' a b v
    using write_tag_cases [of s a v] by auto
qed

section \<open>Little-endian numbers\<close>

fun le_bytes :: "(nat \<Rightarrow> int) \<Rightarrow> nat \<Rightarrow> int" where
  "le_bytes f 0 = 0"
| "le_bytes f (Suc n) = f 0 + 2 ^ 8 * le_bytes (\<lambda>i. f (Suc i)) n"

lemma le_bytes_cong: "(\<And>i. i < n \<Longrightarrow> f i = g i) \<Longrightarrow> le_bytes f n = le_bytes g n"
proof (induction n arbitrary: f g)
  case (Suc n)
  have "le_bytes (\<lambda>i. f (Suc i)) n = le_bytes (\<lambda>i. g (Suc i)) n"
    using Suc.prems by (intro Suc.IH) simp
  then show ?case using Suc.prems by simp
qed simp

lemma le_bytes_range:
  "(\<And>i. i < n \<Longrightarrow> 0 \<le> f i \<and> f i < 2 ^ 8) \<Longrightarrow> 0 \<le> le_bytes f n \<and> le_bytes f n < 2 ^ (8 * n)"
proof (induction n arbitrary: f)
  case (Suc n)
  have "0 \<le> f 0 \<and> f 0 < 2 ^ 8" using Suc.prems by simp
  moreover have "0 \<le> le_bytes (\<lambda>i. f (Suc i)) n \<and> le_bytes (\<lambda>i. f (Suc i)) n < 2 ^ (8 * n)"
    using Suc.prems by (intro Suc.IH) auto
  ultimately show ?case by (simp add: power_add)
qed simp

lemma le_bytes_of_int: "le_bytes (\<lambda>i. take_bit 8 (drop_bit (8 * i) k)) n = take_bit (8 * n) k"
proof (induction n arbitrary: k)
  case (Suc n)
  have "le_bytes (\<lambda>i. take_bit 8 (drop_bit (8 * i) (drop_bit 8 k))) n = take_bit (8 * n) (drop_bit 8 k)"
    by (rule Suc.IH)
  then have "le_bytes (\<lambda>i. take_bit 8 (drop_bit (8 * Suc i) k)) n = take_bit (8 * n) (drop_bit 8 k)"
    by (simp add: ac_simps)
  moreover have "take_bit (8 * Suc n) k = take_bit 8 k + push_bit 8 (take_bit (8 * n) (drop_bit 8 k))"
  proof -
    have "take_bit (8 * Suc n) k = push_bit 8 (take_bit (8 * n) (drop_bit 8 k)) OR take_bit 8 k"
      by (rule bit_eqI) (auto simp: bit_take_bit_iff bit_or_iff bit_push_bit_iff bit_drop_bit_eq)
    also have "\<dots> = take_bit (8 * n) (drop_bit 8 k) * 2 ^ 8 + take_bit 8 k"
      by (rule or_push_bit_plus) (rule take_bit_nonnegative, rule take_bit_int_less_exp)
    finally show ?thesis by (simp add: push_bit_eq_mult)
  qed
  ultimately show ?case by (simp add: push_bit_eq_mult)
qed simp

lemma for_up_res_pair:
  assumes "\<And>i. h (H i) = H (Suc i)" "i \<le> n"
  shows "for_up_res i n (\<lambda>i (b, s). bind_res (g i b s) (\<lambda>s. Inr (h b, s))) (H i, s) =
    bind_res (for_up_res i n (\<lambda>i. g i (H i)) s) (\<lambda>s. Inr (H n, s))"
  using assms(2)
proof (induction "n - i" arbitrary: i s)
  case 0
  then show ?case by simp
next
  case (Suc d)
  then have i: "i < n" by simp
  show ?case
  proof (cases "g i (H i) s")
    case (Inr t)
    have "for_up_res (Suc i) n (\<lambda>i (b, s). bind_res (g i b s) (\<lambda>s. Inr (h b, s))) (H (Suc i), t) =
        bind_res (for_up_res (Suc i) n (\<lambda>i. g i (H i)) t) (\<lambda>s. Inr (H n, s))"
      using Suc i by (intro Suc.hyps(1)) auto
    with i Inr show ?thesis by (simp add: for_up_res_step assms(1))
  qed (use i in \<open>simp add: for_up_res_step\<close>)
qed

section \<open>What the memory builtins compute\<close>

text \<open>The \<open>n\<close> bytes at an address, as a little-endian number.\<close>

definition byte_at :: "rts \<Rightarrow> u64 \<Rightarrow> u64" where
  "byte_at st a = (case read_mem a st of Inl e \<Rightarrow> 0 | Inr b \<Rightarrow> b)"

definition mem_value :: "rts \<Rightarrow> u64 \<Rightarrow> nat \<Rightarrow> int" where
  "mem_value st a n = le_bytes (\<lambda>i. uint (byte_at st (a + of_nat i))) n"

lemma read_mem_byte_at: "wf_rts st \<Longrightarrow> read_mem a st = Inr (byte_at st a)"
  using mem.rd_total [of st a] by (auto simp: byte_at_def)

lemma byte_at_less: "uint (byte_at st a) < 2 ^ 8"
proof -
  have "uint (ucast (b::u8) :: u64) < 2 ^ 8" for b
    using uint_lt2p [of b] by (simp add: unsigned_ucast_eq take_bit_int_eq_self)
  then show ?thesis
    by (auto simp: byte_at_def read_mem_def Let_def bind_res_def split: sum.splits)
qed

lemma mem_value_range: "0 \<le> mem_value st a n" "mem_value st a n < 2 ^ (8 * n)"
  using le_bytes_range [of n "\<lambda>i. uint (byte_at st (a + of_nat i))"] byte_at_less
  by (auto simp: mem_value_def)

lemma mem_value_Suc:
  "i < n \<Longrightarrow> mem_value st (a + of_nat i) (n - i) =
     2 ^ 8 * mem_value st (a + of_nat (Suc i)) (n - Suc i) + uint (byte_at st (a + of_nat i))"
  by (cases "n - i") (auto simp: mem_value_def Suc_diff_Suc [symmetric] algebra_simps)

context gmp_laws
begin

lemma read_ram_eq:
  fixes sz :: int and addr :: lbits
  assumes "wf_rts st"
  defines "n \<equiv> unat (mpz_get_ui G sz)" and "a \<equiv> mpz_get_ui G (l_bits addr)"
  shows "read_ram G as sz hr addr st =
    Inr \<lparr>l_len = mpz_get_ui G sz * 8, l_bits = mem_value st a n\<rparr>"
proof -
  have "\<exists>z. for_down_res n
      (\<lambda>i z. bind_res (read_mem (a + (of_nat i - 1)) st) (\<lambda>b.
         let byte = mpz_set_ui G b; z = mpz_mul_2exp G z 8 in Inr (mpz_add G z byte))) 0 = Inr z \<and>
      z = mem_value st (a + of_nat 0) (n - 0)"
  proof (rule for_down_res_induct)
    show "0 = mem_value st (a + of_nat n) (n - n)" by (simp add: mem_value_def)
  next
    fix j t assume "j < n" "t = mem_value st (a + of_nat (Suc j)) (n - Suc j)"
    then show "\<exists>t'. bind_res (read_mem (a + (of_nat (Suc j) - 1)) st) (\<lambda>b.
         let byte = mpz_set_ui G b; z = mpz_mul_2exp G t 8 in Inr (mpz_add G z byte)) = Inr t' \<and>
       t' = mem_value st (a + of_nat j) (n - j)"
      using read_mem_byte_at [OF assms(1)] mem_value_Suc [of j n st a]
      by (simp add: Let_def push_bit_eq_mult)
  qed
  then show ?thesis by (simp add: read_ram_def Let_def n_def a_def)
qed

lemma write_ram_eq:
  fixes sz :: int and addr data :: lbits
  assumes "wf_rts st" "0 \<le> l_bits data"
  defines "n \<equiv> unat (mpz_get_ui G sz)" and "a \<equiv> mpz_get_ui G (l_bits addr)"
  shows "\<exists>st'. write_ram G as sz hr addr data st = Inr (True, st') \<and> wf_rts st' \<and>
    (\<forall>b. uint (byte_at st' b) = (if unat (b - a) < n then take_bit 8 (drop_bit (8 * unat (b - a)) (l_bits data))
       else uint (byte_at st b)))"
proof -
  define f where "f i = (mpz_get_ui G (drop_bit (8 * i) (l_bits data)) AND 0xFF :: u64)" for i
  have "n \<le> 2 ^ 64" using less_imp_le [OF unat_lt64 [of "mpz_get_ui G sz"]] by (simp add: n_def del: mpz_get_ui_law)
  from mem.wr_cells [OF assms(1) this, of a f]
  obtain st' where st': "for_up_res 0 n (\<lambda>i. write_mem (a + of_nat i) (f i)) st = Inr st'" "wf_rts st'"
      "\<And>b. read_mem b st' = (if unat (b - a) < n then Inr (f (unat (b - a)) AND 0xFF) else read_mem b st)"
    by blast
  have loop: "for_up_res 0 n (\<lambda>i (buf, st). bind_res (write_mem (a + of_nat i) (mpz_get_ui G buf AND 0xFF) st)
        (\<lambda>st. Inr (drop_bit 8 buf, st))) (l_bits data, st) = Inr (drop_bit (8 * n) (l_bits data), st')"
    using for_up_res_pair [where h = "drop_bit 8" and H = "\<lambda>i. drop_bit (8 * i) (l_bits data)" and i = 0 and n = n
        and g = "\<lambda>i b. write_mem (a + of_nat i) (mpz_get_ui G b AND 0xFF)" and s = st] st'(1)
    by (simp add: f_def ac_simps)
  have f: "uint (f i AND 0xFF) = take_bit 8 (drop_bit (8 * i) (l_bits data))" for i
  proof -
    have "uint (f i AND 0xFF) = take_bit 64 (drop_bit (8 * i) (l_bits data)) AND 255"
      using assms(2) by (simp add: f_def uint_and uint_word_of_int_eq and.assoc)
    then show ?thesis
      using and_low_mask [of "take_bit 64 (drop_bit (8 * i) (l_bits data))" 8] by simp
  qed
  have "uint (byte_at st' b) = (if unat (b - a) < n then take_bit 8 (drop_bit (8 * unat (b - a)) (l_bits data))
       else uint (byte_at st b))" for b
    using st'(3) [of b] f [of "unat (b - a)"] by (simp add: byte_at_def)
  with st'(2) loop show ?thesis
    unfolding n_def a_def by (auto simp: write_ram_def Let_def)
qed

end

lemma fast_read_ram_eq:
  assumes "wf_rts st" "unat n \<le> 8"
  shows "fast_read_ram n a st = Inr \<lparr>s_len = n * 8, s_bits = word_of_int (mem_value st a (unat n))\<rparr>"
proof -
  have "\<exists>r. for_down_res (unat n)
      (\<lambda>i r. bind_res (read_mem (a + (of_nat i - 1)) st) (\<lambda>byte. Inr (push_bit 8 r + byte))) (0 :: u64) = Inr r \<and>
      r = word_of_int (mem_value st (a + of_nat 0) (unat n - 0))"
  proof (rule for_down_res_induct)
    show "0 = word_of_int (mem_value st (a + of_nat (unat n)) (unat n - unat n))" by (simp add: mem_value_def)
  next
    fix j :: nat and t :: u64
    assume "j < unat n" "t = word_of_int (mem_value st (a + of_nat (Suc j)) (unat n - Suc j))"
    then show "\<exists>t'. bind_res (read_mem (a + (of_nat (Suc j) - 1)) st) (\<lambda>byte. Inr (push_bit 8 t + byte)) = Inr t' \<and>
       t' = word_of_int (mem_value st (a + of_nat j) (unat n - j))"
      using read_mem_byte_at [OF assms(1)] mem_value_Suc [of j "unat n" st a]
      by (simp add: push_bit_eq_mult)
  qed
  moreover have "sint n = int (unat n)" using assms(2) by (intro sint_small) simp
  ultimately show ?thesis
    using assms(2) by (auto simp: fast_read_ram_def simp del: of_nat_unat)
qed

lemma byte_at_written:
  assumes "\<And>b. uint (byte_at st' b) = (if unat (b - a) < n then take_bit 8 (drop_bit (8 * unat (b - a)) d)
       else uint (byte_at st b))" "n \<le> 2 ^ 64"
  shows "mem_value st' a n = take_bit (8 * n) d"
proof -
  have "uint (byte_at st' (a + of_nat i)) = take_bit 8 (drop_bit (8 * i) d)" if "i < n" for i
    using assms(1) [of "a + of_nat i"] that assms(2) by (simp add: unat_of_nat64)
  then show ?thesis
    unfolding mem_value_def le_bytes_of_int [symmetric] by (intro le_bytes_cong)
qed

context gmp_laws
begin

lemma ram_roundtrip:
  assumes "wf_rts st" "wf_lbits data" "0 \<le> sz" "sz < 2 ^ 61" "unat (l_len data) = 8 * nat sz"
  shows "\<exists>st'. write_ram G as sz hr addr data st = Inr (True, st') \<and> wf_rts st' \<and>
    read_ram G as' sz hr' addr st' = Inr data \<and>
    (\<forall>b. unat (b - mpz_get_ui G (l_bits addr)) \<ge> nat sz \<longrightarrow> read_mem b st' = read_mem b st)"
proof -
  define a where "a = mpz_get_ui G (l_bits addr)"
  have n: "unat (mpz_get_ui G sz) = nat sz" using assms by (simp add: unat_word_of_int64)
  have d: "0 \<le> l_bits data" "l_bits data < 2 ^ (8 * nat sz)" using assms by (auto simp: wf_lbits_def)
  from write_ram_eq [OF assms(1) d(1), of as sz hr addr]
  obtain st' where st': "write_ram G as sz hr addr data st = Inr (True, st')" "wf_rts st'"
    "\<And>b. uint (byte_at st' b) = (if unat (b - a) < nat sz then take_bit 8 (drop_bit (8 * unat (b - a)) (l_bits data))
       else uint (byte_at st b))"
    unfolding n a_def by blast
  have "nat sz \<le> 2 ^ 64" using assms(4) by simp
  from byte_at_written [OF st'(3) this] have "mem_value st' a (nat sz) = l_bits data"
    using d by (simp add: take_bit_int_eq_self)
  moreover have "mpz_get_ui G sz * 8 = l_len data"
  proof -
    have "unat (mpz_get_ui G sz * 8) = 8 * nat sz"
      using n assms(3,4) by (subst unat_mult_lem [THEN iffD1]) auto
    then show ?thesis using assms(5) by (metis word_unat_eq_iff)
  qed
  ultimately have "read_ram G as' sz hr' addr st' = Inr data"
    using read_ram_eq [OF st'(2), of as' sz hr' addr] n by (simp add: a_def)
  moreover have "read_mem b st' = read_mem b st" if "unat (b - a) \<ge> nat sz" for b
    using st'(3) [of b] that read_mem_byte_at [OF st'(2)] read_mem_byte_at [OF assms(1)]
    by (simp add: word_uint_eq_iff)
  ultimately show ?thesis using st'(1,2) by (auto simp: a_def)
qed

text \<open>The short read returns what the general one does.\<close>

lemma fast_read_ram_agrees:
  assumes "wf_rts st" "0 \<le> sz" "sz \<le> 8"
  shows "\<exists>r. read_ram G as sz hr addr st = Inr r \<and>
    fast_read_ram (word_of_int sz) (mpz_get_ui G (l_bits addr)) st = Inr (convert_sbits_of_lbits G r d) \<and>
    convert_lbits_of_sbits G (convert_sbits_of_lbits G r d) d = r"
proof -
  define a where "a = mpz_get_ui G (l_bits addr)"
  have n: "unat (word_of_int sz :: u64) = nat sz" "mpz_get_ui G sz = word_of_int sz"
    using assms by (simp_all add: unat_word_of_int64)
  have len: "word_of_int sz * 8 \<le> (64 :: u64)" "unat (word_of_int sz * 8 :: u64) = 8 * nat sz"
  proof -
    show "unat (word_of_int sz * 8 :: u64) = 8 * nat sz"
      using n assms by (subst unat_mult_lem [THEN iffD1]) auto
    then show "word_of_int sz * 8 \<le> (64 :: u64)" using assms by (simp add: word_le_nat_alt)
  qed
  have v: "0 \<le> mem_value st a (nat sz)" "mem_value st a (nat sz) < 2 ^ (8 * nat sz)"
    by (rule mem_value_range)+
  moreover have "(2::int) ^ (8 * nat sz) \<le> 2 ^ 64" using assms by (intro power_increasing) auto
  ultimately have u: "uint (word_of_int (mem_value st a (nat sz)) :: u64) = mem_value st a (nat sz)"
    by (intro uint_word_of_int64) auto
  define r where "r = \<lparr>l_len = word_of_int sz * 8, l_bits = mem_value st a (nat sz)\<rparr>"
  have "read_ram G as sz hr addr st = Inr r"
    using read_ram_eq [OF assms(1), of as sz hr addr] n assms(2) by (simp add: r_def a_def)
  moreover have "fast_read_ram (word_of_int sz) a st = Inr (convert_sbits_of_lbits G r d)"
    using fast_read_ram_eq [OF assms(1), of "word_of_int sz" a] n assms v
    by (simp add: r_def bits_conversions)
  moreover have "convert_lbits_of_sbits G (convert_sbits_of_lbits G r d) d = r"
    using len v u by (simp add: convert_lbits_of_sbits_eq bits_conversions r_def take_bit_int_eq_self)
  ultimately show ?thesis by (auto simp: a_def)
qed

end

section \<open>Loading a raw file\<close>

text \<open>
  The file system is a parameter: the bytes of each file that \<open>fopen\<close> can open. The loop reads
  a byte, stores it and increments the 64-bit address.
\<close>

type_synonym files = "string \<Rightarrow> u8 list option"

fun load_bytes :: "u64 \<Rightarrow> u8 list \<Rightarrow> rts \<Rightarrow> rts res" where
  "load_bytes addr [] st = Inr st"
| "load_bytes addr (byte # rest) st =
     bind_res (write_mem addr (ucast byte) st) (load_bytes (addr + 1) rest)"

definition load_raw :: "files \<Rightarrow> u64 \<Rightarrow> string \<Rightarrow> rts \<Rightarrow> rts res" where
  "load_raw fs addr file st =
     (case fs file of
        None \<Rightarrow> Inl (Exit_failure (''[Sail] Raw file '' @ file @ '' could not be loaded'' @ newline))
      | Some bytes \<Rightarrow> load_bytes addr bytes st)"

lemma for_up_res_shift:
  "for_up_res (Suc i) (Suc n) body s = for_up_res i n (\<lambda>i. body (Suc i)) s"
proof (induction "n - i" arbitrary: i s)
  case (Suc d)
  then have "i < n" by simp
  have "for_up_res (Suc (Suc i)) (Suc n) body t = for_up_res (Suc i) n (\<lambda>i. body (Suc i)) t" for t
    using Suc by (intro Suc.hyps(1)) simp
  then have "for_up_res (Suc (Suc i)) (Suc n) body = for_up_res (Suc i) n (\<lambda>i. body (Suc i))" by blast
  with \<open>i < n\<close> show ?case by (simp add: for_up_res_step)
qed simp

lemma load_bytes_loop:
  "load_bytes a bs st = for_up_res 0 (length bs) (\<lambda>i. write_mem (a + of_nat i) (ucast (bs ! i))) st"
proof (induction bs arbitrary: a st)
  case (Cons b bs)
  have "load_bytes (a + 1) bs = for_up_res (Suc 0) (Suc (length bs)) (\<lambda>i. write_mem (a + of_nat i) (ucast ((b # bs) ! i)))"
    by (rule ext) (simp add: Cons.IH for_up_res_shift ac_simps)
  then show ?case by (simp add: for_up_res_step)
qed simp

lemma load_bytes_eq:
  assumes "wf_rts st" "length bs \<le> 2 ^ 64"
  shows "\<exists>st'. load_bytes a bs st = Inr st' \<and> wf_rts st' \<and>
    (\<forall>b. read_mem b st' = (if unat (b - a) < length bs then Inr (ucast (bs ! unat (b - a))) else read_mem b st))"
proof -
  have low: "(ucast (x :: u8) :: u64) AND 0xFF = ucast x" for x
    unfolding low_byte_mask
    by (rule bit_word_eqI) (auto simp: bit_and_iff bit_ucast_iff bit_mask_iff dest: bit_imp_le_length)
  from mem.wr_cells [OF assms, of a "\<lambda>i. ucast (bs ! i)"] show ?thesis
    unfolding load_bytes_loop low .
qed

end
