(* ===== verification/Elf.thy ===== *)
theory Elf
  imports Rts_Memory
begin

text \<open>
  The ELF loader (\<open>lib/elf.c\<close>): byte order, the file header checks, loading of program segments
  into the memory of \<open>Rts_Memory\<close>, and reading of a possibly compressed file.

  The buffer that holds the file is the list of the bytes read, on a little-endian host. A
  structure is accessed through a pointer into the buffer; it is read as a whole, and one that
  is not entirely inside the bytes read is a \<open>Past_data\<close> fault, with the index at which it ends. The
  buffer that \<open>load_elf\<close> allocates is longer than the bytes read: \<open>in_allocation\<close> tells whether such an access
  used bytes that were never written or left the allocation. Offsets and sizes keep the
  widths of the code, so that its sums and differences wrap as they do in C. Messages printed
  before an \<open>exit\<close> are not kept. Decompression is zlib's and a parameter.
\<close>

section \<open>Types and constants\<close>

type_synonym Elf32_Addr = u32
type_synonym Elf32_Half = u16
type_synonym Elf32_Off = u32
type_synonym Elf32_Word = u32

type_synonym Elf64_Addr = u64
type_synonym Elf64_Half = u16
type_synonym Elf64_Off = u64
type_synonym Elf64_Word = u32
type_synonym Elf64_Xword = u64

type_synonym Elf32_Section = u16
type_synonym Elf64_Section = u16

text \<open>The macros of the file that the code uses, as abbreviations.\<close>

abbreviation (input) EI_NIDENT :: nat where "EI_NIDENT \<equiv> 16"

abbreviation (input) EI_MAG0 :: nat where "EI_MAG0 \<equiv> 0"
abbreviation (input) EI_MAG1 :: nat where "EI_MAG1 \<equiv> 1"
abbreviation (input) EI_MAG2 :: nat where "EI_MAG2 \<equiv> 2"
abbreviation (input) EI_MAG3 :: nat where "EI_MAG3 \<equiv> 3"
abbreviation (input) EI_CLASS :: nat where "EI_CLASS \<equiv> 4"
abbreviation (input) EI_DATA :: nat where "EI_DATA \<equiv> 5"

abbreviation (input) ELFMAG0 :: u8 where "ELFMAG0 \<equiv> 0x7f"
abbreviation (input) ELFMAG1 :: u8 where "ELFMAG1 \<equiv> 0x45"
abbreviation (input) ELFMAG2 :: u8 where "ELFMAG2 \<equiv> 0x4c"
abbreviation (input) ELFMAG3 :: u8 where "ELFMAG3 \<equiv> 0x46"

abbreviation (input) ELFCLASS32 :: u8 where "ELFCLASS32 \<equiv> 1"
abbreviation (input) ELFCLASS64 :: u8 where "ELFCLASS64 \<equiv> 2"
abbreviation (input) ELFDATA2LSB :: u8 where "ELFDATA2LSB \<equiv> 1"

abbreviation (input) ET_EXEC :: u16 where "ET_EXEC \<equiv> 2"
abbreviation (input) EM_ARM :: u16 where "EM_ARM \<equiv> 0x28"
abbreviation (input) EM_AARCH64 :: u16 where "EM_AARCH64 \<equiv> 0xB7"
abbreviation (input) EM_RISCV :: u16 where "EM_RISCV \<equiv> 0xF3"

abbreviation (input) PT_LOAD :: u32 where "PT_LOAD \<equiv> 1"
abbreviation (input) SHT_SYMTAB :: u32 where "SHT_SYMTAB \<equiv> 2"
abbreviation (input) SHT_STRTAB :: u32 where "SHT_STRTAB \<equiv> 3"

section \<open>Byte order\<close>

definition rev16 :: "u16 \<Rightarrow> u16" where
  "rev16 x =
     (let a = drop_bit 0 x AND 0xff;
          b = drop_bit 8 x AND 0xff
      in push_bit 8 a OR push_bit 0 b)"

definition rev32 :: "u32 \<Rightarrow> u32" where
  "rev32 x =
     (let a = drop_bit 0 x AND 0xff;
          b = drop_bit 8 x AND 0xff;
          c = drop_bit 16 x AND 0xff;
          d = drop_bit 24 x AND 0xff
      in push_bit 24 a OR push_bit 16 b OR push_bit 8 c OR push_bit 0 d)"

definition rev64 :: "u64 \<Rightarrow> u64" where
  "rev64 x =
     (let a = drop_bit 0 x AND 0xff;
          b = drop_bit 8 x AND 0xff;
          c = drop_bit 16 x AND 0xff;
          d = drop_bit 24 x AND 0xff;
          e = drop_bit 32 x AND 0xff;
          f = drop_bit 40 x AND 0xff;
          g = drop_bit 48 x AND 0xff;
          h = drop_bit 56 x AND 0xff
      in push_bit 56 a OR push_bit 48 b OR push_bit 40 c OR push_bit 32 d OR
         push_bit 24 e OR push_bit 16 f OR push_bit 8 g OR push_bit 0 h)"

text \<open>
  The macros \<open>rdHalf32\<close> and \<open>rdHalf64\<close>; \<open>rdAddr32\<close>, \<open>rdOff32\<close>, \<open>rdWord32\<close> and \<open>rdWord64\<close>;
  \<open>rdAddr64\<close>, \<open>rdOff64\<close> and \<open>rdXword64\<close>.
\<close>

definition rd_half :: "bool \<Rightarrow> u16 \<Rightarrow> u16" where
  "rd_half le x = (if le then x else rev16 x)"

definition rd_word :: "bool \<Rightarrow> u32 \<Rightarrow> u32" where
  "rd_word le x = (if le then x else rev32 x)"

definition rd_xword :: "bool \<Rightarrow> u64 \<Rightarrow> u64" where
  "rd_xword le x = (if le then x else rev64 x)"

text \<open>\<open>rdWord64\<close> applied to a 64-bit field: the big-endian case goes through 32 bits.\<close>

definition rd_word_of_xword :: "bool \<Rightarrow> u64 \<Rightarrow> u64" where
  "rd_word_of_xword le x = (if le then x else ucast (rev32 (ucast x)))"

section \<open>Structures\<close>

record Elf32_Ehdr =
  e32_ident :: "u8 list"
  e32_type :: Elf32_Half
  e32_machine :: Elf32_Half
  e32_version :: Elf32_Word
  e32_entry :: Elf32_Addr
  e32_phoff :: Elf32_Off
  e32_shoff :: Elf32_Off
  e32_flags :: Elf32_Word
  e32_ehsize :: Elf32_Half
  e32_phentsize :: Elf32_Half
  e32_phnum :: Elf32_Half
  e32_shensize :: Elf32_Half
  e32_shnum :: Elf32_Half
  e32_shtrndx :: Elf32_Half

record Elf32_Phdr =
  p32_type :: Elf32_Word
  p32_offset :: Elf32_Off
  p32_vaddr :: Elf32_Addr
  p32_paddr :: Elf32_Addr
  p32_filesz :: Elf32_Word
  p32_memsz :: Elf32_Word
  p32_flags :: Elf32_Word
  p32_align :: Elf32_Word

record Elf64_Ehdr =
  e64_ident :: "u8 list"
  e64_type :: Elf64_Half
  e64_machine :: Elf64_Half
  e64_version :: Elf64_Word
  e64_entry :: Elf64_Addr
  e64_phoff :: Elf64_Off
  e64_shoff :: Elf64_Off
  e64_flags :: Elf64_Word
  e64_ehsize :: Elf64_Half
  e64_phentsize :: Elf64_Half
  e64_phnum :: Elf64_Half
  e64_shensize :: Elf64_Half
  e64_shnum :: Elf64_Half
  e64_shtrndx :: Elf64_Half

record Elf64_Phdr =
  p64_type :: Elf64_Word
  p64_flags :: Elf64_Word
  p64_offset :: Elf64_Off
  p64_vaddr :: Elf64_Addr
  p64_paddr :: Elf64_Addr
  p64_filesz :: Elf64_Xword
  p64_memsz :: Elf64_Xword
  p64_align :: Elf64_Xword

record Elf32_Shdr =
  sh32_name :: Elf32_Word
  sh32_type :: Elf32_Word
  sh32_flags :: Elf32_Word
  sh32_addr :: Elf32_Addr
  sh32_offset :: Elf32_Off
  sh32_size :: Elf32_Word
  sh32_link :: Elf32_Word
  sh32_info :: Elf32_Word
  sh32_addralign :: Elf32_Word
  sh32_entsize :: Elf32_Word

record Elf64_Shdr =
  sh64_name :: Elf64_Word
  sh64_type :: Elf64_Word
  sh64_flags :: Elf64_Xword
  sh64_addr :: Elf64_Addr
  sh64_offset :: Elf64_Off
  sh64_size :: Elf64_Xword
  sh64_link :: Elf64_Word
  sh64_info :: Elf64_Word
  sh64_addralign :: Elf64_Xword
  sh64_entsize :: Elf64_Xword

record Elf32_Sym =
  st32_name :: Elf32_Word
  st32_value :: Elf32_Addr
  st32_size :: Elf32_Word
  st32_info :: u8
  st32_other :: u8
  st32_shndx :: Elf32_Section

record Elf64_Sym =
  st64_name :: Elf64_Word
  st64_info :: u8
  st64_other :: u8
  st64_shndx :: Elf64_Section
  st64_value :: Elf64_Addr
  st64_size :: Elf64_Xword

text \<open>The field of \<open>n\<close> bytes at an index, as a word.\<close>

definition field :: "u8 list \<Rightarrow> nat \<Rightarrow> nat \<Rightarrow> 'a::len word" where
  "field buffer i n = word_of_int (le_bytes (\<lambda>j. uint (buffer ! (i + j))) n)"

definition get_Elf32_Ehdr :: "u8 list \<Rightarrow> nat \<Rightarrow> Elf32_Ehdr res" where
  "get_Elf32_Ehdr b p = check (p + 52 \<le> length b) (Past_data (p + 52)) (Inr
     \<lparr>e32_ident = take EI_NIDENT (drop p b), e32_type = field b (p + 16) 2, e32_machine = field b (p + 18) 2,
      e32_version = field b (p + 20) 4, e32_entry = field b (p + 24) 4, e32_phoff = field b (p + 28) 4,
      e32_shoff = field b (p + 32) 4, e32_flags = field b (p + 36) 4, e32_ehsize = field b (p + 40) 2,
      e32_phentsize = field b (p + 42) 2, e32_phnum = field b (p + 44) 2, e32_shensize = field b (p + 46) 2,
      e32_shnum = field b (p + 48) 2, e32_shtrndx = field b (p + 50) 2\<rparr>)"

definition get_Elf64_Ehdr :: "u8 list \<Rightarrow> nat \<Rightarrow> Elf64_Ehdr res" where
  "get_Elf64_Ehdr b p = check (p + 64 \<le> length b) (Past_data (p + 64)) (Inr
     \<lparr>e64_ident = take EI_NIDENT (drop p b), e64_type = field b (p + 16) 2, e64_machine = field b (p + 18) 2,
      e64_version = field b (p + 20) 4, e64_entry = field b (p + 24) 8, e64_phoff = field b (p + 32) 8,
      e64_shoff = field b (p + 40) 8, e64_flags = field b (p + 48) 4, e64_ehsize = field b (p + 52) 2,
      e64_phentsize = field b (p + 54) 2, e64_phnum = field b (p + 56) 2, e64_shensize = field b (p + 58) 2,
      e64_shnum = field b (p + 60) 2, e64_shtrndx = field b (p + 62) 2\<rparr>)"

definition get_Elf32_Phdr :: "u8 list \<Rightarrow> nat \<Rightarrow> Elf32_Phdr res" where
  "get_Elf32_Phdr b p = check (p + 32 \<le> length b) (Past_data (p + 32)) (Inr
     \<lparr>p32_type = field b p 4, p32_offset = field b (p + 4) 4, p32_vaddr = field b (p + 8) 4,
      p32_paddr = field b (p + 12) 4, p32_filesz = field b (p + 16) 4, p32_memsz = field b (p + 20) 4,
      p32_flags = field b (p + 24) 4, p32_align = field b (p + 28) 4\<rparr>)"

definition get_Elf64_Phdr :: "u8 list \<Rightarrow> nat \<Rightarrow> Elf64_Phdr res" where
  "get_Elf64_Phdr b p = check (p + 56 \<le> length b) (Past_data (p + 56)) (Inr
     \<lparr>p64_type = field b p 4, p64_flags = field b (p + 4) 4, p64_offset = field b (p + 8) 8,
      p64_vaddr = field b (p + 16) 8, p64_paddr = field b (p + 24) 8, p64_filesz = field b (p + 32) 8,
      p64_memsz = field b (p + 40) 8, p64_align = field b (p + 48) 8\<rparr>)"

definition get_Elf32_Shdr :: "u8 list \<Rightarrow> nat \<Rightarrow> Elf32_Shdr res" where
  "get_Elf32_Shdr b p = check (p + 40 \<le> length b) (Past_data (p + 40)) (Inr
     \<lparr>sh32_name = field b p 4, sh32_type = field b (p + 4) 4, sh32_flags = field b (p + 8) 4,
      sh32_addr = field b (p + 12) 4, sh32_offset = field b (p + 16) 4, sh32_size = field b (p + 20) 4,
      sh32_link = field b (p + 24) 4, sh32_info = field b (p + 28) 4, sh32_addralign = field b (p + 32) 4,
      sh32_entsize = field b (p + 36) 4\<rparr>)"

definition get_Elf64_Shdr :: "u8 list \<Rightarrow> nat \<Rightarrow> Elf64_Shdr res" where
  "get_Elf64_Shdr b p = check (p + 64 \<le> length b) (Past_data (p + 64)) (Inr
     \<lparr>sh64_name = field b p 4, sh64_type = field b (p + 4) 4, sh64_flags = field b (p + 8) 8,
      sh64_addr = field b (p + 16) 8, sh64_offset = field b (p + 24) 8, sh64_size = field b (p + 32) 8,
      sh64_link = field b (p + 40) 4, sh64_info = field b (p + 44) 4, sh64_addralign = field b (p + 48) 8,
      sh64_entsize = field b (p + 56) 8\<rparr>)"

definition get_Elf32_Sym :: "u8 list \<Rightarrow> nat \<Rightarrow> Elf32_Sym res" where
  "get_Elf32_Sym b p = check (p + 16 \<le> length b) (Past_data (p + 16)) (Inr
     \<lparr>st32_name = field b p 4, st32_value = field b (p + 4) 4, st32_size = field b (p + 8) 4,
      st32_info = field b (p + 12) 1, st32_other = field b (p + 13) 1, st32_shndx = field b (p + 14) 2\<rparr>)"

definition get_Elf64_Sym :: "u8 list \<Rightarrow> nat \<Rightarrow> Elf64_Sym res" where
  "get_Elf64_Sym b p = check (p + 24 \<le> length b) (Past_data (p + 24)) (Inr
     \<lparr>st64_name = field b p 4, st64_info = field b (p + 4) 1, st64_other = field b (p + 5) 1,
      st64_shndx = field b (p + 6) 2, st64_value = field b (p + 8) 8, st64_size = field b (p + 16) 8\<rparr>)"

section \<open>Loading segments\<close>

definition get_byte :: "u8 list \<Rightarrow> nat \<Rightarrow> u8 res" where
  "get_byte b i = check (i < length b) (Past_data (Suc i)) (Inr (b ! i))"

text \<open>All of \<open>off + i\<close>, \<open>addr + i\<close> and the counter are 32 bits wide here.\<close>

definition loadBlock32 :: "u8 list \<Rightarrow> Elf32_Off \<Rightarrow> Elf32_Addr \<Rightarrow> Elf32_Word \<Rightarrow> Elf32_Word \<Rightarrow> rts \<Rightarrow> rts res" where
  "loadBlock32 buffer off addr filesz memsz st =
     bind_res
       (for_up_res 0 (unat filesz)
          (\<lambda>i st. bind_res (get_byte buffer (unat (off + of_nat i)))
             (\<lambda>c. write_mem (ucast (addr + of_nat i)) (0xff AND ucast c) st)) st)
       (for_up_res (unat filesz) (unat memsz) (\<lambda>i. write_mem (ucast (addr + of_nat i)) 0))"

definition loadBlock64 :: "u8 list \<Rightarrow> Elf64_Off \<Rightarrow> Elf64_Addr \<Rightarrow> Elf64_Word \<Rightarrow> Elf64_Word \<Rightarrow> rts \<Rightarrow> rts res" where
  "loadBlock64 buffer off addr filesz memsz st =
     bind_res
       (for_up_res 0 (unat filesz)
          (\<lambda>i st. bind_res (get_byte buffer (unat (off + of_nat i)))
             (\<lambda>c. write_mem (addr + of_nat i) (0xff AND ucast c) st)) st)
       (for_up_res (unat filesz) (unat memsz) (\<lambda>i. write_mem (addr + of_nat i) 0))"

text \<open>
  \<open>total_file_size - sizeof(Elf32_Phdr)\<close> is a 64-bit unsigned difference; \<open>total_file_size - off\<close>
  is a 32-bit one in the first function and a 64-bit one in the second.
\<close>

definition loadProgHdr32 :: "bool \<Rightarrow> u8 list \<Rightarrow> Elf32_Off \<Rightarrow> rts \<Rightarrow> rts res" where
  "loadProgHdr32 le buffer off st =
     (let total_file_size = length buffer
      in check (\<not> (ucast off :: u64) > of_nat total_file_size - 32) (Exit_failure (''Invalid ELF file, section header overruns end of file'' @ newline))
           (bind_res (get_Elf32_Phdr buffer (unat off)) (\<lambda>phdr.
              if rd_word le (p32_type phdr) = PT_LOAD then
                let off = rd_word le (p32_offset phdr);
                    filesz = rd_word le (p32_filesz phdr)
                in check (\<not> filesz > of_nat total_file_size - off) (Exit_failure (''Invalid ELF file, section overruns end of file'' @ newline))
                     (loadBlock32 buffer off (rd_word le (p32_paddr phdr)) filesz
                        (rd_word le (p32_memsz phdr)) st)
              else Inr st)))"

definition loadProgHdr64 :: "bool \<Rightarrow> u8 list \<Rightarrow> Elf64_Off \<Rightarrow> rts \<Rightarrow> rts res" where
  "loadProgHdr64 le buffer off st =
     (let total_file_size = length buffer
      in check (\<not> off > of_nat total_file_size - 56) (Exit_failure (''Invalid ELF file, section header overruns end of file'' @ newline))
           (bind_res (get_Elf64_Phdr buffer (unat off)) (\<lambda>phdr.
              if rd_word le (p64_type phdr) = PT_LOAD then
                let off = rd_xword le (p64_offset phdr);
                    filesz = (ucast (rd_xword le (p64_filesz phdr)) :: u32)
                in check (\<not> (ucast filesz :: u64) > of_nat total_file_size - off) (Exit_failure (''Invalid ELF file, section overruns end of file'' @ newline))
                     (loadBlock64 buffer off (rd_xword le (p64_paddr phdr)) filesz
                        (ucast (rd_xword le (p64_memsz phdr))) st)
              else Inr st)))"

section \<open>The file header\<close>

text \<open>
  Of \<open>e_ident\<close>: index 4 is the class (1 for 32 bits, 2 for 64 bits), index 5 the byte order (1
  for little-endian). The 32-bit machines are ARM (0x28) and RISC-V (0xF3), the 64-bit ones
  AArch64 (0xB7) and RISC-V; only executable files (type 2) are accepted.
\<close>

definition checkELFHdr :: "u8 list \<Rightarrow> unit res" where
  "checkELFHdr buffer =
     (let total_file_size = length buffer
      in check (\<not> total_file_size < 52) (Exit_failure (''File too small, not big enough even for 32-bit ELF header'' @ newline))
        (bind_res (get_Elf32_Ehdr buffer 0) (\<lambda>hdr.
           check (\<not> (e32_ident hdr ! EI_MAG0 \<noteq> ELFMAG0 \<or> e32_ident hdr ! EI_MAG1 \<noteq> ELFMAG1 \<or>
                     e32_ident hdr ! EI_MAG2 \<noteq> ELFMAG2 \<or> e32_ident hdr ! EI_MAG3 \<noteq> ELFMAG3)) (Exit_failure (''Invalid ELF magic bytes. Not an ELF file?'' @ newline))
           (if e32_ident hdr ! EI_CLASS = ELFCLASS32 then
              let le = (e32_ident hdr ! EI_DATA = ELFDATA2LSB)
              in bind_res (get_Elf32_Ehdr buffer 0) (\<lambda>ehdr.
                   check (\<not> (rd_half le (e32_type ehdr) \<noteq> ET_EXEC \<or>
                             (rd_half le (e32_machine ehdr) \<noteq> EM_ARM \<and> rd_half le (e32_machine ehdr) \<noteq> EM_RISCV)))
                     (Exit_failure (''Invalid ELF type or machine for class (32-bit)'' @ newline)) (Inr ()))
            else if e32_ident hdr ! EI_CLASS = ELFCLASS64 then
              check (\<not> total_file_size < 64) (Exit_failure (''File too small, specifies 64-bit ELF but not big enough for 64-bit ELF header'' @ newline))
                (let le = (e32_ident hdr ! EI_DATA = ELFDATA2LSB)
                 in bind_res (get_Elf64_Ehdr buffer 0) (\<lambda>ehdr.
                      check (\<not> (rd_half le (e64_type ehdr) \<noteq> ET_EXEC \<or>
                                (rd_half le (e64_machine ehdr) \<noteq> EM_AARCH64 \<and> rd_half le (e64_machine ehdr) \<noteq> EM_RISCV)))
                        (Exit_failure (''Invalid ELF type or machine for class (64-bit)'' @ newline)) (Inr ())))
            else Inl (Exit_failure (''Unrecognized ELF file format'' @ newline))))))"

text \<open>
  The loops over the program headers: \<open>i * e_phentsize\<close> is a product of two \<open>int\<close>s. The results
  are what is stored through \<open>is32bit_p\<close> and \<open>entry\<close> when these are not null; \<open>e_entry\<close> is
  stored as it is in the file.
\<close>

definition loadELFHdr :: "u8 list \<Rightarrow> rts \<Rightarrow> (rts \<times> bool \<times> u64) res" where
  "loadELFHdr buffer st =
     bind_res (checkELFHdr buffer) (\<lambda>_.
     bind_res (get_Elf32_Ehdr buffer 0) (\<lambda>hdr.
       if e32_ident hdr ! EI_CLASS = ELFCLASS32 then
         let le = (e32_ident hdr ! EI_DATA = ELFDATA2LSB)
         in bind_res (get_Elf32_Ehdr buffer 0) (\<lambda>ehdr.
            bind_res
              (for_up_res 0 (unat (rd_half le (e32_phnum ehdr)))
                 (\<lambda>i st. check (int i * uint (rd_half le (e32_phentsize ehdr)) \<le> int_max) Undefined_behaviour
                    (loadProgHdr32 le buffer
                       (rd_word le (e32_phoff ehdr) + of_nat (i * unat (rd_half le (e32_phentsize ehdr)))) st)) st)
              (\<lambda>st. Inr (st, True, ucast (e32_entry ehdr))))
       else if e32_ident hdr ! EI_CLASS = ELFCLASS64 then
         let le = (e32_ident hdr ! EI_DATA = ELFDATA2LSB)
         in bind_res (get_Elf64_Ehdr buffer 0) (\<lambda>ehdr.
            bind_res
              (for_up_res 0 (unat (rd_half le (e64_phnum ehdr)))
                 (\<lambda>i st. check (int i * uint (rd_half le (e64_phentsize ehdr)) \<le> int_max) Undefined_behaviour
                    (loadProgHdr64 le buffer
                       (rd_xword le (e64_phoff ehdr) + of_nat (i * unat (rd_half le (e64_phentsize ehdr)))) st)) st)
              (\<lambda>st. Inr (st, False, e64_entry ehdr)))
       else Inl (Exit_failure (''Unrecognized ELF file format'' @ newline))))"

section \<open>Reading the file\<close>

text \<open>
  zlib's interface: opening a file, the end-of-file indicator and a read of at most \<open>n\<close> bytes,
  which fails with \<open>None\<close>.
\<close>

record 'h zlib =
  gzopen :: "string \<Rightarrow> 'h option"
  gzeof :: "'h \<Rightarrow> bool"
  gzread :: "'h \<Rightarrow> nat \<Rightarrow> (u8 list \<times> 'h) option"

text \<open>
  The loop of \<open>load_elf\<close> and \<open>lookup_sym\<close> enlarges the buffer to a chunk of \<open>2 ^ 24\<close> bytes more than was
  read and reads into it; \<open>read + chunk\<close> is an \<open>int\<close>. The state is the bytes read, whose number is
  the variable \<open>read\<close>, and the size of the allocation.
\<close>

partial_function (option) read_chunks :: "'h zlib \<Rightarrow> string \<Rightarrow> 'h \<Rightarrow> u8 list \<Rightarrow> nat \<Rightarrow> (u8 list \<times> nat) res option" where
  "read_chunks Z filename h buffer cap =
     (if gzeof Z h then Some (Inr (buffer, cap))
      else if int (length buffer) + 2 ^ 24 > int_max then Some (Inl Undefined_behaviour)
      else let cap = length buffer + 2 ^ 24
           in case gzread Z h (cap - length buffer) of
                None \<Rightarrow> Some (Inl (Exit_failure (''Unable to read file '' @ filename @ newline)))
              | Some (s, h') \<Rightarrow> read_chunks Z filename h' (buffer @ s) cap)"

definition read_file :: "'h zlib \<Rightarrow> string \<Rightarrow> (u8 list \<times> nat) res" where
  "read_file Z filename =
     (case gzopen Z filename of
        None \<Rightarrow> Inl (Exit_failure (''Unable to read file '' @ filename @ newline))
      | Some h \<Rightarrow> (case read_chunks Z filename h [] 0 of None \<Rightarrow> Inl No_return | Some r \<Rightarrow> r))"

text \<open>An access past the bytes read, in a buffer that was allocated with a size.\<close>

definition in_allocation :: "nat \<Rightarrow> 'a res \<Rightarrow> 'a res" where
  "in_allocation cap r =
     (case r of Inl (Past_data n) \<Rightarrow> Inl (if n \<le> cap then Uninitialised else Out_of_bounds) | _ \<Rightarrow> r)"

lemma in_allocation_simps [simp]:
  "in_allocation cap (Inr x) = Inr x"
  "in_allocation cap (Inl (Past_data n)) = Inl (if n \<le> cap then Uninitialised else Out_of_bounds)"
  "exits (in_allocation cap r) = exits r" "in_allocation cap r = Inr x \<longleftrightarrow> r = Inr x"
  by (auto simp: in_allocation_def exits_def split: sum.splits fault.splits)

definition load_elf :: "'h zlib \<Rightarrow> string \<Rightarrow> rts \<Rightarrow> (rts \<times> bool \<times> u64) res" where
  "load_elf Z filename st =
     bind_res (read_file Z filename) (\<lambda>(buffer, cap). in_allocation cap (loadELFHdr buffer st))"

section \<open>Byte order is byte reversal\<close>

lemma and_255: "255 AND w = take_bit 8 w" "w AND 255 = take_bit 8 w" for w :: "'a::len word"
  by (simp_all add: take_bit_eq_mask mask_eq_exp_minus_1 and.commute)

lemma byte_index:
  fixes j :: nat
  assumes "8 * i \<le> j" "j < 8 * i + 8"
  shows "j div 8 = i" "j mod 8 = j - 8 * i"
proof -
  show "j div 8 = i" using assms by (simp add: div_nat_eqI)
  then show "j mod 8 = j - 8 * i" by (simp add: minus_mult_div_eq_mod [symmetric])
qed

lemma rev16_eq: "uint (rev16 x) = rev_bytes_int 2 (uint x)"
proof (rule bit_eqI)
  fix j :: nat
  have "j < 8 \<or> 8 \<le> j \<and> j < 16 \<or> 16 \<le> j" by linarith
  then show "bit (uint (rev16 x)) j \<longleftrightarrow> bit (rev_bytes_int 2 (uint x)) j"
    using byte_index [of 0 j] byte_index [of 1 j]
    by (elim disjE) (simp_all add: bit_rev_bytes_int rev16_def Let_def and_255 bit_simps less_diff_conv2)
qed

lemma rev32_eq: "uint (rev32 x) = rev_bytes_int 4 (uint x)"
proof (rule bit_eqI)
  fix j :: nat
  have "j < 8 \<or> 8 \<le> j \<and> j < 16 \<or> 16 \<le> j \<and> j < 24 \<or> 24 \<le> j \<and> j < 32 \<or> 32 \<le> j" by linarith
  then show "bit (uint (rev32 x)) j \<longleftrightarrow> bit (rev_bytes_int 4 (uint x)) j"
    using byte_index [of 0 j] byte_index [of 1 j] byte_index [of 2 j] byte_index [of 3 j]
    by (elim disjE) (simp_all add: bit_rev_bytes_int rev32_def Let_def and_255 bit_simps less_diff_conv2)
qed

lemma rev64_eq: "uint (rev64 x) = rev_bytes_int 8 (uint x)"
proof (rule bit_eqI)
  fix j :: nat
  have "j < 8 \<or> 8 \<le> j \<and> j < 16 \<or> 16 \<le> j \<and> j < 24 \<or> 24 \<le> j \<and> j < 32 \<or> 32 \<le> j \<and> j < 40 \<or>
      40 \<le> j \<and> j < 48 \<or> 48 \<le> j \<and> j < 56 \<or> 56 \<le> j \<and> j < 64 \<or> 64 \<le> j" by linarith
  then show "bit (uint (rev64 x)) j \<longleftrightarrow> bit (rev_bytes_int 8 (uint x)) j"
    using byte_index [of 0 j] byte_index [of 1 j] byte_index [of 2 j] byte_index [of 3 j]
      byte_index [of 4 j] byte_index [of 5 j] byte_index [of 6 j] byte_index [of 7 j]
    by (elim disjE) (simp_all add: bit_rev_bytes_int rev64_def Let_def and_255 bit_simps less_diff_conv2)
qed

lemma bit_le_bytes:
  "(\<And>i. i < n \<Longrightarrow> 0 \<le> f i \<and> f i < 2 ^ 8) \<Longrightarrow>
   bit (le_bytes f n) j \<longleftrightarrow> j < 8 * n \<and> bit (f (j div 8)) (j mod 8)"
proof (induction n arbitrary: f j)
  case (Suc n)
  have f0: "0 \<le> f 0" "f 0 < 2 ^ 8" using Suc.prems by auto
  have "le_bytes f (Suc n) = push_bit 8 (le_bytes (\<lambda>i. f (Suc i)) n) OR f 0"
    using or_push_bit_plus [OF f0] by simp
  moreover have "bit (le_bytes (\<lambda>i. f (Suc i)) n) (j - 8) \<longleftrightarrow>
      j - 8 < 8 * n \<and> bit (f (Suc ((j - 8) div 8))) ((j - 8) mod 8)"
    using Suc.prems by (intro Suc.IH) auto
  moreover have "8 \<le> j \<Longrightarrow> Suc ((j - 8) div 8) = j div 8" "8 \<le> j \<Longrightarrow> (j - 8) mod 8 = j mod 8"
    by (simp_all add: le_div_geq le_mod_geq)
  moreover have "8 \<le> j \<Longrightarrow> \<not> bit (f 0) j" using bit_ge_length [OF f0] by blast
  ultimately show ?case
    by (cases "8 \<le> j") (auto simp: bit_or_iff bit_push_bit_iff)
qed simp

lemma rev_index:
  fixes j n :: nat
  assumes "j < 8 * n"
  shows "(8 * (n - 1 - j div 8) + j mod 8) div 8 = n - 1 - j div 8"
    "(8 * (n - 1 - j div 8) + j mod 8) mod 8 = j mod 8"
    "8 * (n - 1 - j div 8) + j mod 8 < 8 * n" "n - 1 - (n - 1 - j div 8) = j div 8"
proof -
  have "j div 8 < n" using assms by (simp add: less_mult_imp_div_less mult.commute)
  moreover have "j mod 8 < 8" by simp
  ultimately show "(8 * (n - 1 - j div 8) + j mod 8) div 8 = n - 1 - j div 8"
    "(8 * (n - 1 - j div 8) + j mod 8) mod 8 = j mod 8"
    "8 * (n - 1 - j div 8) + j mod 8 < 8 * n" "n - 1 - (n - 1 - j div 8) = j div 8"
    by simp_all
qed

lemma rev_bytes_int_le_bytes:
  assumes "\<And>i. i < n \<Longrightarrow> 0 \<le> f i \<and> f i < 2 ^ 8"
  shows "rev_bytes_int n (le_bytes f n) = le_bytes (\<lambda>i. f (n - 1 - i)) n"
proof (rule bit_eqI)
  fix j
  have "bit (le_bytes (\<lambda>i. f (n - 1 - i)) n) j \<longleftrightarrow> j < 8 * n \<and> bit (f (n - 1 - j div 8)) (j mod 8)"
    using assms by (intro bit_le_bytes) auto
  then show "bit (rev_bytes_int n (le_bytes f n)) j \<longleftrightarrow> bit (le_bytes (\<lambda>i. f (n - 1 - i)) n) j"
    using bit_le_bytes [OF assms] rev_index [of j n] by (auto simp: bit_rev_bytes_int)
qed

lemma rev_bytes_int_involution:
  assumes "0 \<le> k" "k < 2 ^ (8 * n)"
  shows "rev_bytes_int n (rev_bytes_int n k) = k"
proof (rule bit_eqI)
  fix j :: nat
  have "8 * (j div 8) + j mod 8 = j" by simp
  then show "bit (rev_bytes_int n (rev_bytes_int n k)) j \<longleftrightarrow> bit k j"
    using rev_index [of j n] bit_ge_length [OF assms, of j] by (cases "j < 8 * n") (auto simp: bit_rev_bytes_int)
qed

text \<open>The value of \<open>n\<close> bytes of the file, in the byte order of its header.\<close>

definition file_value :: "bool \<Rightarrow> u8 list \<Rightarrow> nat \<Rightarrow> nat \<Rightarrow> int" where
  "file_value le b i n = le_bytes (\<lambda>j. uint (b ! (i + (if le then j else n - 1 - j)))) n"

lemma byte_range: "0 \<le> uint (x :: u8) \<and> uint x < 2 ^ 8"
  using uint_lt2p [of x] by simp

lemma uint_field:
  assumes "8 * n \<le> LENGTH('a::len)"
  shows "uint (field b i n :: 'a word) = le_bytes (\<lambda>j. uint (b ! (i + j))) n"
proof -
  have "0 \<le> le_bytes (\<lambda>j. uint (b ! (i + j))) n \<and> le_bytes (\<lambda>j. uint (b ! (i + j))) n < 2 ^ (8 * n)"
    using byte_range by (intro le_bytes_range) auto
  moreover have "(2::int) ^ (8 * n) \<le> 2 ^ LENGTH('a)"
    using assms by (intro power_increasing) auto
  ultimately have "take_bit LENGTH('a) (le_bytes (\<lambda>j. uint (b ! (i + j))) n) = le_bytes (\<lambda>j. uint (b ! (i + j))) n"
    by (metis take_bit_int_eq_self order_less_le_trans)
  then show ?thesis by (simp add: field_def uint_word_of_int_eq)
qed

lemma rd_eq:
  "uint (rd_half le (field b i 2)) = file_value le b i 2"
  "uint (rd_word le (field b i 4)) = file_value le b i 4"
  "uint (rd_xword le (field b i 8)) = file_value le b i 8"
proof -
  have rev: "rev_bytes_int n (le_bytes (\<lambda>j. uint (b ! (i + j))) n) = file_value False b i n" for n
    using rev_bytes_int_le_bytes [of n "\<lambda>j. uint (b ! (i + j))"] byte_range by (simp add: file_value_def)
  show "uint (rd_half le (field b i 2)) = file_value le b i 2"
    "uint (rd_word le (field b i 4)) = file_value le b i 4"
    "uint (rd_xword le (field b i 8)) = file_value le b i 8"
    using rev by (cases le; simp add: rd_half_def rd_word_def rd_xword_def rev16_eq rev32_eq rev64_eq uint_field;
      simp add: file_value_def)+
qed

section \<open>What loading a segment does\<close>

lemma for_up_res_cong:
  assumes "\<And>j t. i \<le> j \<Longrightarrow> j < n \<Longrightarrow> f j t = g j t"
  shows "for_up_res i n f s = for_up_res i n g s"
  using assms
proof (induction "n - i" arbitrary: i s)
  case (Suc d)
  then have "i < n" by simp
  have "for_up_res (Suc i) n f t = for_up_res (Suc i) n g t" for t
    using Suc by (intro Suc.hyps(1)) auto
  then have "for_up_res (Suc i) n f = for_up_res (Suc i) n g" by blast
  with \<open>i < n\<close> Suc.prems show ?case by (simp add: for_up_res_step)
qed simp

text \<open>The contents of the memory after a block of the file was loaded at an address.\<close>

definition block_loaded :: "u8 list \<Rightarrow> nat \<Rightarrow> u64 \<Rightarrow> nat \<Rightarrow> nat \<Rightarrow> rts \<Rightarrow> rts \<Rightarrow> bool" where
  "block_loaded buffer off addr filesz memsz st st' \<longleftrightarrow>
     (\<forall>b. read_mem b st' =
       (if unat (b - addr) < filesz then Inr (ucast (buffer ! (off + unat (b - addr))))
        else if unat (b - addr) < memsz then Inr 0
        else read_mem b st))"

lemma low_byte: "(ucast (x :: u8) :: u64) AND 0xFF = ucast x"
  unfolding low_byte_mask
  by (rule bit_word_eqI) (auto simp: bit_and_iff bit_ucast_iff bit_mask_iff dest: bit_imp_le_length)

lemma load_block_loops:
  assumes "wf_rts st" "n \<le> 2 ^ 64" "m \<le> 2 ^ 64"
    and "\<And>i. i < n \<Longrightarrow> off + i < length buffer"
  shows "\<exists>st'. bind_res
      (for_up_res 0 n (\<lambda>i st. bind_res (get_byte buffer (off + i))
         (\<lambda>c. write_mem (addr + of_nat i) (0xff AND ucast c) st)) st)
      (for_up_res n m (\<lambda>i. write_mem (addr + of_nat i) 0)) = Inr st' \<and> wf_rts st' \<and>
    block_loaded buffer off addr n m st st'"
proof -
  have e: "for_up_res 0 n (\<lambda>i st. bind_res (get_byte buffer (off + i))
         (\<lambda>c. write_mem (addr + of_nat i) (0xff AND ucast c) st)) st =
      for_up_res 0 n (\<lambda>i. write_mem (addr + of_nat i) (0xff AND ucast (buffer ! (off + i)))) st"
    using assms(4) by (intro for_up_res_cong) (simp add: get_byte_def)
  obtain t where t: "for_up_res 0 n (\<lambda>i. write_mem (addr + of_nat i) (0xff AND ucast (buffer ! (off + i)))) st = Inr t"
      "wf_rts t"
      "\<And>b. read_mem b t = (if unat (b - addr) < n then Inr ((0xff AND ucast (buffer ! (off + unat (b - addr)))) AND 0xFF)
         else read_mem b st)"
    using mem.wr_cells [OF assms(1,2), of addr "\<lambda>i. 0xff AND ucast (buffer ! (off + i))"] by blast
  obtain t' where t': "for_up_res n m (\<lambda>i. write_mem (addr + of_nat i) 0) t = Inr t'" "wf_rts t'"
      "\<And>b. read_mem b t' = (if n \<le> unat (b - addr) \<and> unat (b - addr) < m then Inr (0 AND 0xFF) else read_mem b t)"
    using mem.wr_cells_from [OF t(2) assms(3), of n addr "\<lambda>i. 0"] by blast
  have "block_loaded buffer off addr n m st t'"
    unfolding block_loaded_def t'(3) t(3) by (auto simp: low_byte and.commute [of 255] not_less)
  with t' show ?thesis by (simp add: e t(1))
qed

lemma loadBlock64_eq:
  assumes "wf_rts st" "unat off + unat filesz \<le> length buffer" "length buffer < 2 ^ 31"
  shows "\<exists>st'. loadBlock64 buffer off addr filesz memsz st = Inr st' \<and> wf_rts st' \<and>
    block_loaded buffer (unat off) addr (unat filesz) (unat memsz) st st'"
proof -
  have n: "unat filesz \<le> 2 ^ 64" "unat memsz \<le> 2 ^ 64"
    by simp_all
  have idx: "unat (off + of_nat i) = unat off + i" if "i < unat filesz" for i
    using that assms(2,3) by (subst unat_add64) (simp_all add: unat_of_nat64)
  have "for_up_res 0 (unat filesz) (\<lambda>i st. bind_res (get_byte buffer (unat (off + of_nat i)))
         (\<lambda>c. write_mem (addr + of_nat i) (0xff AND ucast c) st)) st =
      for_up_res 0 (unat filesz) (\<lambda>i st. bind_res (get_byte buffer (unat off + i))
         (\<lambda>c. write_mem (addr + of_nat i) (0xff AND ucast c) st)) st"
    by (intro for_up_res_cong) (simp add: idx)
  then show ?thesis
    using load_block_loops [OF assms(1) n, of "unat off" buffer addr] assms(2)
    by (simp add: loadBlock64_def)
qed

lemma loadBlock32_eq:
  assumes "wf_rts st" "unat off + unat filesz \<le> length buffer" "length buffer < 2 ^ 31"
    and "unat addr + max (unat filesz) (unat memsz) \<le> 2 ^ 32"
  shows "\<exists>st'. loadBlock32 buffer off addr filesz memsz st = Inr st' \<and> wf_rts st' \<and>
    block_loaded buffer (unat off) (ucast addr) (unat filesz) (unat memsz) st st'"
proof -
  have n: "unat filesz \<le> 2 ^ 64" "unat memsz \<le> 2 ^ 64"
    by simp_all
  have idx: "unat (off + of_nat i) = unat off + i" if "i < unat filesz" for i
    using that assms(2,3) by (subst unat_add32) (simp_all add: unat_of_nat32)
  have addr: "(ucast (addr + of_nat i) :: u64) = ucast addr + of_nat i" if "i < max (unat filesz) (unat memsz)" for i
  proof -
    have "unat addr + i < 2 ^ 32" "i < 2 ^ 32" using that assms(4) by linarith+
    then have "unat (addr + of_nat i) = unat addr + i" "unat (of_nat i :: u64) = i"
      by (simp_all add: unat_add32 unat_of_nat32 unat_of_nat64)
    then show ?thesis
      using \<open>unat addr + i < 2 ^ 32\<close> by (intro word_unat_eq_iff [THEN iffD2]) (simp add: unat_add64)
  qed
  have "for_up_res 0 (unat filesz) (\<lambda>i st. bind_res (get_byte buffer (unat (off + of_nat i)))
         (\<lambda>c. write_mem (ucast (addr + of_nat i)) (0xff AND ucast c) st)) st =
      for_up_res 0 (unat filesz) (\<lambda>i st. bind_res (get_byte buffer (unat off + i))
         (\<lambda>c. write_mem (ucast addr + of_nat i) (0xff AND ucast c) st)) st"
    by (intro for_up_res_cong) (simp add: idx addr)
  moreover have "for_up_res (unat filesz) (unat memsz) (\<lambda>i. write_mem (ucast (addr + of_nat i)) 0) =
      for_up_res (unat filesz) (unat memsz) (\<lambda>i. write_mem (ucast addr + of_nat i) 0)"
    by (intro ext for_up_res_cong) (simp add: addr)
  ultimately show ?thesis
    using load_block_loops [OF assms(1) n, of "unat off" buffer "ucast addr"] assms(2)
    by (simp add: loadBlock32_def)
qed

section \<open>Program headers\<close>

lemma uint_field_less: "uint (field b i n :: 'a::len word) < 2 ^ LENGTH('a)"
  by (rule uint_lt2p)

lemma get_Phdr_Inr:
  "p + 32 \<le> length b \<Longrightarrow> \<exists>h. get_Elf32_Phdr b p = Inr h"
  "p + 56 \<le> length b \<Longrightarrow> \<exists>h'. get_Elf64_Phdr b p = Inr h'"
  by (simp_all add: get_Elf32_Phdr_def get_Elf64_Phdr_def)

text \<open>The 64-bit bounds test is exact when the offset is inside the file, and vacuous beyond it.\<close>

lemma size_minus_offset64:
  fixes off :: u64
  assumes "length b < 2 ^ 31"
  shows "unat off \<le> length b \<Longrightarrow> unat (of_nat (length b) - off) = length b - unat off"
    "length b < unat off \<Longrightarrow> unat (of_nat (length b) - off) = 2 ^ 64 - (unat off - length b)"
proof -
  have L: "unat (of_nat (length b) :: u64) = length b" using assms by (simp add: unat_of_nat64)
  show "unat (of_nat (length b) - off) = length b - unat off" if "unat off \<le> length b"
    using L that unat_sub64 [of off "of_nat (length b)"] by (simp add: word_le_nat_alt)
  show "unat (of_nat (length b) - off) = 2 ^ 64 - (unat off - length b)" if "length b < unat off"
    using that L unat_lt64 [of off] by (simp add: unat_sub_if_size word_size)
qed

lemma loadProgHdr64_cases:
  assumes "wf_rts st" "56 \<le> length b" "length b < 2 ^ 31" "unat off + 56 \<le> length b"
  shows "\<exists>h. get_Elf64_Phdr b (unat off) = Inr h \<and>
    loadProgHdr64 le b off st =
      (if rd_word le (p64_type h) = 1
       then check (\<not> ucast (ucast (rd_xword le (p64_filesz h)) :: u32) > of_nat (length b) - rd_xword le (p64_offset h)) (Exit_failure (''Invalid ELF file, section overruns end of file'' @ newline))
         (loadBlock64 b (rd_xword le (p64_offset h)) (rd_xword le (p64_paddr h)) (ucast (rd_xword le (p64_filesz h)))
            (ucast (rd_xword le (p64_memsz h))) st)
       else Inr st)"
proof -
  obtain h where h: "get_Elf64_Phdr b (unat off) = Inr h" using get_Phdr_Inr(2) assms(4) by blast
  have "unat (of_nat (length b) - 56 :: u64) = length b - 56"
    using assms(2,3) by (subst unat_sub64) (simp_all add: word_le_nat_alt unat_of_nat64)
  then have "\<not> off > of_nat (length b) - 56"
    using assms(2,4) by (simp add: word_less_nat_alt)
  then show ?thesis by (simp add: loadProgHdr64_def Let_def h)
qed

lemma loadProgHdr64_rejects:
  assumes "56 \<le> length b" "length b < 2 ^ 31" "length b < unat off + 56"
  shows "exits (loadProgHdr64 le b off st)"
proof -
  have "unat (of_nat (length b) - 56 :: u64) = length b - 56"
    using assms(1,2) by (subst unat_sub64) (simp_all add: word_le_nat_alt unat_of_nat64)
  then have "off > of_nat (length b) - 56"
    using assms(1,3) by (simp add: word_less_nat_alt)
  then show ?thesis by (simp add: loadProgHdr64_def Let_def)
qed

text \<open>A loadable segment whose offset lies inside the file is loaded, or the program exits.\<close>

lemma loadProgHdr64_segment:
  assumes "wf_rts st" "56 \<le> length b" "length b < 2 ^ 31" "unat off + 56 \<le> length b"
    and h: "get_Elf64_Phdr b (unat off) = Inr h" "rd_word le (p64_type h) = 1"
  defines "o' \<equiv> unat (rd_xword le (p64_offset h))" and "fs \<equiv> unat (ucast (rd_xword le (p64_filesz h)) :: u32)"
    and "ms \<equiv> unat (ucast (rd_xword le (p64_memsz h)) :: u32)"
  assumes "o' \<le> length b"
  shows "if o' + fs \<le> length b
    then \<exists>st'. loadProgHdr64 le b off st = Inr st' \<and> wf_rts st' \<and>
      block_loaded b o' (rd_xword le (p64_paddr h)) fs ms st st'
    else exits (loadProgHdr64 le b off st)"
proof -
  have e: "loadProgHdr64 le b off st =
      check (\<not> ucast (ucast (rd_xword le (p64_filesz h)) :: u32) > of_nat (length b) - rd_xword le (p64_offset h)) (Exit_failure (''Invalid ELF file, section overruns end of file'' @ newline))
         (loadBlock64 b (rd_xword le (p64_offset h)) (rd_xword le (p64_paddr h)) (ucast (rd_xword le (p64_filesz h)))
            (ucast (rd_xword le (p64_memsz h))) st)"
    using loadProgHdr64_cases [OF assms(1-4), of le] h by auto
  have "ucast (ucast (rd_xword le (p64_filesz h)) :: u32) > of_nat (length b) - rd_xword le (p64_offset h) \<longleftrightarrow>
      length b < o' + fs"
    using size_minus_offset64(1) [OF assms(3), of "rd_xword le (p64_offset h)"] assms(10)
    by (auto simp: word_less_nat_alt o'_def fs_def)
  then show ?thesis
    using loadBlock64_eq [OF assms(1), of "rd_xword le (p64_offset h)" "ucast (rd_xword le (p64_filesz h))" b
        "rd_xword le (p64_paddr h)" "ucast (rd_xword le (p64_memsz h))"] assms(3)
    by (auto simp: e o'_def fs_def ms_def check_def)
qed

text \<open>
  The hole: \<open>total_file_size - off\<close> wraps for an offset past the end of the file, so the test
  passes and the first byte is read outside the buffer.
\<close>

lemma loadProgHdr64_hole:
  assumes "wf_rts st" "56 \<le> length b" "length b < 2 ^ 31" "unat off + 56 \<le> length b"
    and h: "get_Elf64_Phdr b (unat off) = Inr h" "rd_word le (p64_type h) = 1"
    and "length b < unat (rd_xword le (p64_offset h))" "unat (rd_xword le (p64_offset h)) < 2 ^ 63"
    and "(ucast (rd_xword le (p64_filesz h)) :: u32) \<noteq> 0"
  shows "loadProgHdr64 le b off st = Inl (Past_data (Suc (unat (rd_xword le (p64_offset h)))))"
proof -
  define o' where "o' = rd_xword le (p64_offset h)"
  define fs where "fs = (ucast (rd_xword le (p64_filesz h)) :: u32)"
  have e: "loadProgHdr64 le b off st = check (\<not> ucast fs > of_nat (length b) - o') (Exit_failure (''Invalid ELF file, section overruns end of file'' @ newline))
         (loadBlock64 b o' (rd_xword le (p64_paddr h)) fs (ucast (rd_xword le (p64_memsz h))) st)"
    using loadProgHdr64_cases [OF assms(1-4), of le] h by (auto simp: o'_def fs_def)
  have "unat (of_nat (length b) - o') = 2 ^ 64 - (unat o' - length b)"
    using assms(7) size_minus_offset64(2) [OF assms(3), of o'] by (simp add: o'_def)
  moreover have "unat o' < 2 ^ 63" using assms(8) by (simp add: o'_def)
  ultimately have "2 ^ 63 \<le> unat (of_nat (length b) - o')" by simp
  then have "unat fs \<le> unat (of_nat (length b) - o')"
    by (rule order_trans [rotated]) (rule order_trans [OF less_imp_le [OF unat_lt32]], simp)
  then have "\<not> ucast fs > of_nat (length b) - o'" by (simp add: word_less_nat_alt)
  moreover have "loadBlock64 b o' (rd_xword le (p64_paddr h)) fs (ucast (rd_xword le (p64_memsz h))) st = Inl (Past_data (Suc (unat o')))"
  proof -
    have "0 < unat fs" using assms(9) by (simp add: fs_def unat_gt_0)
    then show ?thesis using assms(7)
      by (simp add: loadBlock64_def for_up_res_step get_byte_def o'_def)
  qed
  ultimately show ?thesis by (simp add: e o'_def)
qed

text \<open>A loop whose steps keep an invariant or fail in one way does so as a whole.\<close>

lemma for_up_res_safe:
  assumes "i \<le> n" "P i s" and "\<And>j t. \<lbrakk>i \<le> j; j < n; P j t\<rbrakk> \<Longrightarrow> (\<exists>t'. body j t = Inr t' \<and> P (Suc j) t') \<or> exits (body j t)"
  shows "(\<exists>t. for_up_res i n body s = Inr t \<and> P n t) \<or> exits (for_up_res i n body s)"
  using assms
proof (induction "n - i" arbitrary: i s)
  case (Suc d)
  then have i: "i < n" by simp
  from Suc.prems(3) [OF order_refl i Suc.prems(2)] show ?case
  proof
    assume "\<exists>t'. body i s = Inr t' \<and> P (Suc i) t'"
    then obtain t' where t': "body i s = Inr t'" "P (Suc i) t'" by blast
    have "(\<exists>t. for_up_res (Suc i) n body t' = Inr t \<and> P n t) \<or> exits (for_up_res (Suc i) n body t')"
      using Suc.hyps(2) Suc.prems(3) t'(2) i by (intro Suc.hyps(1)) auto
    with t'(1) i show ?thesis by (simp add: for_up_res_step)
  qed (simp add: for_up_res_step [OF i])
qed simp

lemma loadProgHdr64_safe:
  assumes "wf_rts st" "56 \<le> length b" "length b < 2 ^ 31"
    and "\<And>h. get_Elf64_Phdr b (unat off) = Inr h \<Longrightarrow> unat (rd_xword le (p64_offset h)) \<le> length b"
  shows "(\<exists>st'. loadProgHdr64 le b off st = Inr st' \<and> wf_rts st' \<and> unat off + 56 \<le> length b) \<or>
    exits (loadProgHdr64 le b off st)"
proof (cases "unat off + 56 \<le> length b")
  case True
  obtain h where h: "get_Elf64_Phdr b (unat off) = Inr h" using get_Phdr_Inr(2) [OF True] by blast
  show ?thesis
  proof (cases "rd_word le (p64_type h) = 1")
    case L: True
    from loadProgHdr64_segment [OF assms(1-3) True h L assms(4) [OF h]] True show ?thesis
      by (auto split: if_splits)
  next
    case False
    with loadProgHdr64_cases [OF assms(1-3) True, of le] h assms(1) True show ?thesis by auto
  qed
qed (use loadProgHdr64_rejects assms in auto)

text \<open>The 32-bit loader, its offsets and the test both 32 bits wide.\<close>

lemma size_minus_offset32:
  fixes off :: u32
  assumes "length b < 2 ^ 31" "unat off \<le> length b"
  shows "unat (of_nat (length b) - off) = length b - unat off"
  using assms unat_of_nat32 [of "length b"] by (simp add: unat_sub_if_size word_size)

lemma loadBlock32_safe:
  assumes "wf_rts st" "unat off + unat filesz \<le> length b" "length b < 2 ^ 31"
  shows "\<exists>st'. loadBlock32 b off addr filesz memsz st = Inr st' \<and> wf_rts st'"
proof -
  have "\<exists>t. for_up_res 0 (unat filesz) (\<lambda>i st. bind_res (get_byte b (unat (off + of_nat i)))
      (\<lambda>c. write_mem (ucast (addr + of_nat i)) (0xff AND ucast c) st)) st = Inr t \<and> wf_rts t"
  proof (rule for_up_res_induct [where P = "\<lambda>_. wf_rts"])
    fix i t assume "i < unat filesz" "wf_rts t"
    moreover from this have "unat (off + of_nat i) = unat off + i"
      using assms(2,3) by (subst unat_add32) (simp_all add: unat_of_nat32)
    ultimately show "\<exists>t'. bind_res (get_byte b (unat (off + of_nat i)))
        (\<lambda>c. write_mem (ucast (addr + of_nat i)) (0xff AND ucast c) t) = Inr t' \<and> wf_rts t'"
      using assms(2) mem.wr_total [of t] by (simp add: get_byte_def)
  qed (use assms in auto)
  then obtain t where t: "for_up_res 0 (unat filesz) (\<lambda>i st. bind_res (get_byte b (unat (off + of_nat i)))
      (\<lambda>c. write_mem (ucast (addr + of_nat i)) (0xff AND ucast c) st)) st = Inr t" "wf_rts t" by blast
  have "(\<exists>t'. for_up_res (unat filesz) (unat memsz) (\<lambda>i. write_mem (ucast (addr + of_nat i)) 0) t = Inr t' \<and> wf_rts t')"
    using for_up_res_induct [where P = "\<lambda>_. wf_rts" and s = t and i = "unat filesz" and n = "unat memsz"
        and body = "\<lambda>i. write_mem (ucast (addr + of_nat i)) 0"] t(2) mem.wr_total
    by (cases "unat filesz \<le> unat memsz") auto
  with t show ?thesis by (simp add: loadBlock32_def)
qed

lemma loadProgHdr32_safe:
  assumes "wf_rts st" "32 \<le> length b" "length b < 2 ^ 31"
    and "\<And>h. get_Elf32_Phdr b (unat off) = Inr h \<Longrightarrow> unat (rd_word le (p32_offset h)) \<le> length b"
  shows "(\<exists>st'. loadProgHdr32 le b off st = Inr st' \<and> wf_rts st' \<and> unat off + 32 \<le> length b) \<or>
    exits (loadProgHdr32 le b off st)"
proof (cases "unat off + 32 \<le> length b")
  case True
  obtain h where h: "get_Elf32_Phdr b (unat off) = Inr h" using get_Phdr_Inr(1) [OF True] by blast
  show ?thesis
  proof (cases "rd_word le (p32_filesz h) > of_nat (length b) - rd_word le (p32_offset h)")
    case False
    then have "unat (rd_word le (p32_offset h)) + unat (rd_word le (p32_filesz h)) \<le> length b"
      using size_minus_offset32 [OF assms(3) assms(4) [OF h]] assms(4) [OF h] by (simp add: word_less_nat_alt)
    from loadBlock32_safe [OF assms(1) this assms(3)] show ?thesis
      using h assms(1) True by (auto simp: loadProgHdr32_def Let_def check_def)
  qed (use h assms(1) True in \<open>auto simp: loadProgHdr32_def Let_def check_def\<close>)
next
  case False
  have "unat (of_nat (length b) - 32 :: u64) = length b - 32"
    using assms(2,3) by (subst unat_sub64) (simp_all add: word_le_nat_alt unat_of_nat64)
  then have "(ucast off :: u64) > of_nat (length b) - 32"
    using assms(2) False by (simp add: word_less_nat_alt)
  then show ?thesis by (simp add: loadProgHdr32_def Let_def)
qed

section \<open>The file header\<close>

lemma check_elf_safe: "checkELFHdr b = Inr () \<or> exits (checkELFHdr b)"
  by (auto simp: checkELFHdr_def get_Elf32_Ehdr_def get_Elf64_Ehdr_def Let_def check_def)

text \<open>What the check accepts, in terms of the bytes of the file and its byte order.\<close>

definition valid_elf :: "u8 list \<Rightarrow> bool" where
  "valid_elf b \<longleftrightarrow> 52 \<le> length b \<and> b ! 0 = 0x7f \<and> b ! 1 = 0x45 \<and> b ! 2 = 0x4c \<and> b ! 3 = 0x46 \<and>
     (let le = (b ! 5 = 1); etype = file_value le b 16 2; machine = file_value le b 18 2
      in etype = 2 \<and> (b ! 4 = 1 \<and> (machine = 0x28 \<or> machine = 0xF3) \<or>
                       b ! 4 = 2 \<and> 64 \<le> length b \<and> (machine = 0xB7 \<or> machine = 0xF3)))"

lemma rd_half_iff:
  "rd_half le (field b i 2) = 2 \<longleftrightarrow> file_value le b i 2 = 2"
  "rd_half le (field b i 2) = 0x28 \<longleftrightarrow> file_value le b i 2 = 0x28"
  "rd_half le (field b i 2) = 0xF3 \<longleftrightarrow> file_value le b i 2 = 0xF3"
  "rd_half le (field b i 2) = 0xB7 \<longleftrightarrow> file_value le b i 2 = 0xB7"
  unfolding rd_eq [symmetric] by (simp_all add: word_uint_eq_iff)

lemma check_elf_iff: "checkELFHdr b = Inr () \<longleftrightarrow> valid_elf b"
proof (cases "52 \<le> length b")
  case True
  have id: "j < 16 \<Longrightarrow> take 16 (drop 0 b) ! j = b ! j" for j by simp
  have one: "(1::u8) \<noteq> 2" by simp
  show ?thesis
  proof (cases "b ! 4 = 1")
    case c1: True
    with True one show ?thesis
      by (auto simp: checkELFHdr_def get_Elf32_Ehdr_def Let_def valid_elf_def rd_half_iff check_def)
  next
    case c1: False
    show ?thesis
    proof (cases "b ! 4 = 2")
      case True
      with c1 \<open>52 \<le> length b\<close> show ?thesis
        by (auto simp: checkELFHdr_def get_Elf32_Ehdr_def get_Elf64_Ehdr_def Let_def valid_elf_def rd_half_iff check_def)
    next
      case False
      with c1 \<open>52 \<le> length b\<close> show ?thesis
        by (auto simp: checkELFHdr_def get_Elf32_Ehdr_def Let_def valid_elf_def check_def)
    qed
  qed
qed (simp add: checkELFHdr_def valid_elf_def)

text \<open>
  The segments of an accepted file all start inside it.
\<close>

definition segments_inside :: "u8 list \<Rightarrow> bool" where
  "segments_inside b \<longleftrightarrow>
     (let le = (b ! 5 = 1)
      in if b ! 4 = 1 then
           (case get_Elf32_Ehdr b 0 of
              Inl e \<Rightarrow> True
            | Inr eh \<Rightarrow>
                list_all (\<lambda>i.
                  (case get_Elf32_Phdr b (unat (rd_word le (e32_phoff eh) + of_nat (i * unat (rd_half le (e32_phentsize eh))))) of
                     Inl e \<Rightarrow> True
                   | Inr h \<Rightarrow> unat (rd_word le (p32_offset h)) \<le> length b))
                  [0..<unat (rd_half le (e32_phnum eh))])
         else
           (case get_Elf64_Ehdr b 0 of
              Inl e \<Rightarrow> True
            | Inr eh \<Rightarrow>
                list_all (\<lambda>i.
                  (case get_Elf64_Phdr b (unat (rd_xword le (e64_phoff eh) + of_nat (i * unat (rd_half le (e64_phentsize eh))))) of
                     Inl e \<Rightarrow> True
                   | Inr h \<Rightarrow> unat (rd_xword le (p64_offset h)) \<le> length b))
                  [0..<unat (rd_half le (e64_phnum eh))]))"

lemma segments_inside32:
  assumes "segments_inside b" "b ! 4 = 1" "get_Elf32_Ehdr b 0 = Inr eh" "i < unat (rd_half (b ! 5 = 1) (e32_phnum eh))"
    and "get_Elf32_Phdr b (unat (rd_word (b ! 5 = 1) (e32_phoff eh) + of_nat (i * unat (rd_half (b ! 5 = 1) (e32_phentsize eh))))) = Inr h"
  shows "unat (rd_word (b ! 5 = 1) (p32_offset h)) \<le> length b"
  using assms by (auto simp: segments_inside_def Let_def list_all_iff dest!: bspec [where x = i])

lemma segments_inside64:
  assumes "segments_inside b" "b ! 4 \<noteq> 1" "get_Elf64_Ehdr b 0 = Inr eh" "i < unat (rd_half (b ! 5 = 1) (e64_phnum eh))"
    and "get_Elf64_Phdr b (unat (rd_xword (b ! 5 = 1) (e64_phoff eh) + of_nat (i * unat (rd_half (b ! 5 = 1) (e64_phentsize eh))))) = Inr h"
  shows "unat (rd_xword (b ! 5 = 1) (p64_offset h)) \<le> length b"
  using assms by (auto simp: segments_inside_def Let_def list_all_iff dest!: bspec [where x = i])

text \<open>
  The product of the number of a program header and the size of one fits an \<open>int\<close> for as long as
  the headers before it lie in the file, and so does the position of the header fit its type.
\<close>

definition headers_before :: "u8 list \<Rightarrow> nat \<Rightarrow> nat \<Rightarrow> nat \<Rightarrow> bool" where
  "headers_before b off sz j \<longleftrightarrow> (\<forall>i < j. off + i * sz \<le> length b)"

lemma headers_before_0 [simp]: "headers_before b off sz 0"
  by (simp add: headers_before_def)

lemma headers_before_Suc: "headers_before b off sz j \<Longrightarrow> off + j * sz \<le> length b \<Longrightarrow> headers_before b off sz (Suc j)"
  by (auto simp: headers_before_def less_Suc_eq)

lemma headers_before_product:
  assumes "headers_before b off (unat (sz :: u16)) j" "int (length b) + 2 ^ 24 \<le> int_max"
  shows "int j * uint sz \<le> int_max" "j = 0 \<or> off + j * unat sz < 2 ^ 31"
proof -
  have sz: "unat sz < 65536" using unsigned_less [of sz] by simp
  have "j = 0 \<or> off + j * unat sz < 2 ^ 31"
  proof (cases j)
    case (Suc i)
    then have "off + i * unat sz \<le> length b" using assms(1) by (simp add: headers_before_def)
    moreover have "j * unat sz = i * unat sz + unat sz" using Suc by simp
    moreover have "length b + 65536 < 2 ^ 31" using assms(2) by simp
    ultimately show ?thesis using sz by linarith
  qed simp
  then show "j = 0 \<or> off + j * unat sz < 2 ^ 31" .
  then have "j * unat sz < 2 ^ 31" by auto
  then have "int (j * unat sz) < int (2 ^ 31)" by (simp only: of_nat_less_iff)
  then show "int j * uint sz \<le> int_max" by simp
qed

lemma unat_add_of_nat:
  "unat w + k < 2 ^ LENGTH('a) \<Longrightarrow> unat (w + of_nat k) = unat w + k" for w :: "'a::len word"
  by (simp add: unat_word_ariths unsigned_of_nat take_bit_nat_eq_self)

lemma header_position:
  assumes "headers_before b (unat (off :: 'a::len word)) (unat (sz :: u16)) j" "int (length b) + 2 ^ 24 \<le> int_max" "31 \<le> LENGTH('a)"
  shows "unat (off + of_nat (j * unat sz)) = unat off + j * unat sz"
proof -
  have "j = 0 \<or> unat off + j * unat sz < 2 ^ LENGTH('a)"
    using headers_before_product(2) [OF assms(1,2)] power_increasing [OF assms(3), of "2::nat"] by auto
  then have "unat off + j * unat sz < 2 ^ LENGTH('a)"
    using unsigned_less [where 'a = nat, of off] by auto
  then show ?thesis by (rule unat_add_of_nat)
qed

lemma load_headers_safe:
  fixes off :: "'a::len word" and sz :: u16 and b :: "u8 list"
  assumes "wf_rts st" "int (length b) + 2 ^ 24 \<le> int_max" "31 \<le> LENGTH('a)"
    and load: "\<And>i t. \<lbrakk>i < n; wf_rts t\<rbrakk> \<Longrightarrow>
      (\<exists>t'. load (off + of_nat (i * unat sz)) t = Inr t' \<and> wf_rts t' \<and> unat (off + of_nat (i * unat sz)) \<le> length b) \<or>
      exits (load (off + of_nat (i * unat sz)) t)"
  defines "body \<equiv> \<lambda>i st. check (int i * uint sz \<le> int_max) Undefined_behaviour (load (off + of_nat (i * unat sz)) st)"
  shows "(\<exists>t. for_up_res 0 n body st = Inr t \<and> wf_rts t) \<or> exits (for_up_res 0 n body st)"
proof -
  have "(\<exists>t. for_up_res 0 n body st = Inr t \<and> (wf_rts t \<and> headers_before b (unat off) (unat sz) n)) \<or>
      exits (for_up_res 0 n body st)"
  proof (rule for_up_res_safe [where P = "\<lambda>j t. wf_rts t \<and> headers_before b (unat off) (unat sz) j"])
    fix j t assume j: "j < n" and t: "wf_rts t \<and> headers_before b (unat off) (unat sz) j"
    have "int j * uint sz \<le> int_max" "unat (off + of_nat (j * unat sz)) = unat off + j * unat sz"
      using headers_before_product(1) [of b _ sz j] header_position [of b off sz j] t assms(2,3) by auto
    with load [OF j, of t] t show "(\<exists>t'. body j t = Inr t' \<and> wf_rts t' \<and> headers_before b (unat off) (unat sz) (Suc j)) \<or>
        exits (body j t)"
      by (auto simp only: body_def check_simps intro: headers_before_Suc)
  qed (use assms(1) in simp_all)
  then show ?thesis by blast
qed

lemma load_elf_hdr_safe:
  assumes "wf_rts st" "int (length b) + 2 ^ 24 \<le> int_max" "segments_inside b"
  shows "(\<exists>st'. loadELFHdr b st = Inr (st', b ! 4 = 1,
        if b ! 4 = 1 then ucast (field b 24 4 :: u32) else field b 24 8) \<and> wf_rts st') \<or>
    exits (loadELFHdr b st)"
proof (cases "checkELFHdr b = Inr ()")
  case True
  then have v: "valid_elf b" by (simp add: check_elf_iff)
  have len: "length b < 2 ^ 31" using assms(2) by simp
  obtain eh where eh: "get_Elf32_Ehdr b 0 = Inr eh" "e32_ident eh = take 16 b" "e32_entry eh = field b 24 4"
    using v by (auto simp: get_Elf32_Ehdr_def valid_elf_def)
  define le where "le = (b ! 5 = 1)"
  show ?thesis
  proof (cases "b ! 4 = 1")
    case c1: True
    have l: "32 \<le> length b" using v by (simp add: valid_elf_def)
    have "(\<exists>t'. loadProgHdr32 le b p t = Inr t' \<and> wf_rts t' \<and> unat p \<le> length b) \<or> exits (loadProgHdr32 le b p t)"
      if "i < unat (rd_half le (e32_phnum eh))" "wf_rts t"
        "p = rd_word le (e32_phoff eh) + of_nat (i * unat (rd_half le (e32_phentsize eh)))" for i t p
      using segments_inside32 [OF assms(3) c1 eh(1), of i, folded le_def, OF that(1)]
        loadProgHdr32_safe [OF that(2) l len, of p le] that(3) by fastforce
    from load_headers_safe [where load = "loadProgHdr32 le b", OF assms(1,2) _ this]
    have "(\<exists>t. for_up_res 0 (unat (rd_half le (e32_phnum eh))) (\<lambda>i st. check (int i * uint (rd_half le (e32_phentsize eh)) \<le> int_max) Undefined_behaviour
                    (loadProgHdr32 le b
                       (rd_word le (e32_phoff eh) + of_nat (i * unat (rd_half le (e32_phentsize eh)))) st)) st = Inr t \<and> wf_rts t) \<or>
        exits (for_up_res 0 (unat (rd_half le (e32_phnum eh))) (\<lambda>i st. check (int i * uint (rd_half le (e32_phentsize eh)) \<le> int_max) Undefined_behaviour
                    (loadProgHdr32 le b
                       (rd_word le (e32_phoff eh) + of_nat (i * unat (rd_half le (e32_phentsize eh)))) st)) st)" by simp
    then show ?thesis
      using c1 True eh by (auto simp: loadELFHdr_def Let_def le_def)
  next
    case c1: False
    then have c2: "b ! 4 = 2" "64 \<le> length b" using v by (auto simp: valid_elf_def Let_def)
    then have l: "56 \<le> length b" by simp
    obtain eh' where eh': "get_Elf64_Ehdr b 0 = Inr eh'" "e64_entry eh' = field b 24 8"
      using c2 by (auto simp: get_Elf64_Ehdr_def)
    have "(\<exists>t'. loadProgHdr64 le b p t = Inr t' \<and> wf_rts t' \<and> unat p \<le> length b) \<or> exits (loadProgHdr64 le b p t)"
      if "i < unat (rd_half le (e64_phnum eh'))" "wf_rts t"
        "p = rd_xword le (e64_phoff eh') + of_nat (i * unat (rd_half le (e64_phentsize eh')))" for i t p
      using segments_inside64 [OF assms(3) c1 eh'(1), of i, folded le_def, OF that(1)]
        loadProgHdr64_safe [OF that(2) l len, of p le] that(3) by fastforce
    from load_headers_safe [where load = "loadProgHdr64 le b", OF assms(1,2) _ this]
    have "(\<exists>t. for_up_res 0 (unat (rd_half le (e64_phnum eh'))) (\<lambda>i st. check (int i * uint (rd_half le (e64_phentsize eh')) \<le> int_max) Undefined_behaviour
                    (loadProgHdr64 le b
                       (rd_xword le (e64_phoff eh') + of_nat (i * unat (rd_half le (e64_phentsize eh')))) st)) st = Inr t \<and> wf_rts t) \<or>
        exits (for_up_res 0 (unat (rd_half le (e64_phnum eh'))) (\<lambda>i st. check (int i * uint (rd_half le (e64_phentsize eh')) \<le> int_max) Undefined_behaviour
                    (loadProgHdr64 le b
                       (rd_xword le (e64_phoff eh') + of_nat (i * unat (rd_half le (e64_phentsize eh')))) st)) st)" by simp
    then show ?thesis
      using c1 c2 True eh eh' by (auto simp: loadELFHdr_def Let_def le_def)
  qed
next
  case False
  then have "exits (checkELFHdr b)" using check_elf_safe by blast
  then show ?thesis by (simp add: loadELFHdr_def)
qed

end
