(* ===== verification/Elf_Symbols.thy ===== *)
theory Elf_Symbols
  imports Elf
begin

text \<open>
  The end of \<open>lib/elf.c\<close>: the chunked reading of a file through zlib, and the symbol lookup in an
  ELF file with one symbol table and two string tables.
\<close>

section \<open>Reading the file\<close>

text \<open>
  zlib's documentation: a stream delivers the decompressed contents in order, a read of \<open>n\<close> bytes
  delivers as many as are left, and the end-of-file indicator is set by a read that comes short.
\<close>

locale zlib_laws =
  fixes Z :: "'h zlib"
    and rest :: "'h \<Rightarrow> u8 list"
    and contents :: "string \<Rightarrow> u8 list option"
  assumes gzopen_None: "gzopen Z f = None \<longleftrightarrow> contents f = None"
    and gzopen_Some: "gzopen Z f = Some h \<Longrightarrow> contents f = Some (rest h) \<and> \<not> gzeof Z h"
    and gzread_law: "\<not> gzeof Z h \<Longrightarrow> \<exists>h'. gzread Z h n = Some (take n (rest h), h') \<and>
      rest h' = drop n (rest h) \<and> (gzeof Z h' \<longleftrightarrow> length (rest h) < n)"
begin

lemma read_chunks_eq:
  assumes "\<not> gzeof Z h" "int (length buffer + length (rest h)) + 2 ^ 24 \<le> int_max"
  shows "\<exists>cap. read_chunks Z f h buffer size0 = Some (Inr (buffer @ rest h, cap)) \<and>
    length (buffer @ rest h) < cap \<and> cap \<le> length (buffer @ rest h) + 2 ^ 24"
  using assms
proof (induction "length (rest h)" arbitrary: h buffer size0 rule: less_induct)
  case less
  obtain h' where h': "gzread Z h (2 ^ 24) = Some (take (2 ^ 24) (rest h), h')"
    "rest h' = drop (2 ^ 24) (rest h)" "gzeof Z h' \<longleftrightarrow> length (rest h) < 2 ^ 24"
    using gzread_law [OF less.prems(1)] by blast
  have step: "read_chunks Z f h buffer size0 =
      read_chunks Z f h' (buffer @ take (2 ^ 24) (rest h)) (length buffer + 2 ^ 24)"
    using less.prems h'(1) by (simp add: read_chunks.simps [of Z f h buffer])
  show ?case
  proof (cases "length (rest h) < 2 ^ 24")
    case True
    then show ?thesis using h'(3) by (simp add: step read_chunks.simps [of Z f h'])
  next
    case False
    have "\<exists>cap. read_chunks Z f h' (buffer @ take (2 ^ 24) (rest h)) (length buffer + 2 ^ 24) =
        Some (Inr ((buffer @ take (2 ^ 24) (rest h)) @ rest h', cap)) \<and>
        length ((buffer @ take (2 ^ 24) (rest h)) @ rest h') < cap \<and>
        cap \<le> length ((buffer @ take (2 ^ 24) (rest h)) @ rest h') + 2 ^ 24"
      using False less.prems(2) h'(2,3) by (intro less.hyps) auto
    then show ?thesis by (simp add: step h'(2))
  qed
qed

lemma read_file_None: "contents f = None \<Longrightarrow> read_file Z f = Inl (Exit_failure (''Unable to read file '' @ f @ newline))"
  by (simp add: read_file_def gzopen_None [THEN iffD2])

lemma read_file_Some:
  assumes "contents f = Some bs" "int (length bs) + 2 ^ 24 \<le> int_max"
  shows "\<exists>cap. read_file Z f = Inr (bs, cap) \<and> length bs < cap \<and> cap \<le> length bs + 2 ^ 24"
proof (cases "gzopen Z f")
  case None
  then show ?thesis using gzopen_None assms(1) by simp
next
  case (Some h)
  then have "bs = rest h" "\<not> gzeof Z h" using gzopen_Some [OF Some] assms(1) by auto
  then show ?thesis using Some read_chunks_eq [of h "[]" f 0] assms(2) by (auto simp: read_file_def)
qed

end

text \<open>A zlib over a given file system: a handle is what is left and the indicator.\<close>

definition zlib_ref :: "files \<Rightarrow> (u8 list \<times> bool) zlib" where
  "zlib_ref fs = \<lparr>
     gzopen = (\<lambda>f. map_option (\<lambda>bs. (bs, False)) (fs f)),
     gzeof = snd,
     gzread = (\<lambda>(bs, eof) n. Some (take n bs, (drop n bs, length bs < n))) \<rparr>"

interpretation zlib_ref: zlib_laws "zlib_ref fs" fst fs
  by unfold_locales (auto simp: zlib_ref_def)

lemma zlib_ref_laws: "zlib_laws (zlib_ref fs) fst fs"
  by (rule zlib_ref.zlib_laws_axioms)

section \<open>Symbol lookup\<close>

text \<open>\<open>strnlen\<close> on the buffer, and the characters of a string of a known length in it.\<close>

fun strnlen :: "u8 list \<Rightarrow> nat \<Rightarrow> nat \<Rightarrow> nat res" where
  "strnlen buffer p 0 = Inr 0"
| "strnlen buffer p (Suc m) =
     bind_res (get_byte buffer p) (\<lambda>c.
       if c = 0 then Inr 0 else bind_res (strnlen buffer (Suc p) m) (\<lambda>n. Inr (Suc n)))"

definition c_string :: "u8 list \<Rightarrow> nat \<Rightarrow> nat \<Rightarrow> string" where
  "c_string buffer p n = map (\<lambda>c. char_of (unat c)) (take n (drop p buffer))"

text \<open>The loop over the section headers: the last symbol table, and the last string table that is
  not the one of the section names (indices 2 and 3 of \<open>sh_type\<close>).\<close>

definition find_tables32 :: "bool \<Rightarrow> u8 list \<Rightarrow> Elf32_Ehdr \<Rightarrow> (Elf32_Word \<times> Elf32_Word) res" where
  "find_tables32 le buffer ehdr =
     for_up_res 0 (unat (rd_half le (e32_shnum ehdr)))
       (\<lambda>i (strtabidx, symtabidx).
          bind_res (get_Elf32_Shdr buffer (unat (e32_shoff ehdr) + i * 40)) (\<lambda>shdr.
            let symtabidx = (if rd_word le (sh32_type shdr) = SHT_SYMTAB then of_nat i else symtabidx);
                strtabidx = (if rd_word le (sh32_type shdr) = SHT_STRTAB \<and> i \<noteq> unat (rd_half le (e32_shtrndx ehdr))
                             then of_nat i else strtabidx)
            in Inr (strtabidx, symtabidx)))
       (0, 0)"

definition find_tables64 :: "bool \<Rightarrow> u8 list \<Rightarrow> Elf64_Ehdr \<Rightarrow> (Elf64_Word \<times> Elf64_Word) res" where
  "find_tables64 le buffer ehdr =
     for_up_res 0 (unat (rd_half le (e64_shnum ehdr)))
       (\<lambda>i (strtabidx, symtabidx).
          bind_res (get_Elf64_Shdr buffer (unat (e64_shoff ehdr) + i * 64)) (\<lambda>shdr.
            let symtabidx = (if rd_word le (sh64_type shdr) = SHT_SYMTAB then of_nat i else symtabidx);
                strtabidx = (if rd_word le (sh64_type shdr) = SHT_STRTAB \<and> i \<noteq> unat (rd_half le (e64_shtrndx ehdr))
                             then of_nat i else strtabidx)
            in Inr (strtabidx, symtabidx)))
       (0, 0)"

text \<open>
  The loops over the symbols, from index \<open>i\<close> to \<open>n\<close>, with their early returns: the value of the
  first symbol with the name, or \<open>None\<close>.
\<close>

function find_symbol32 ::
  "bool \<Rightarrow> u8 list \<Rightarrow> nat \<Rightarrow> u32 \<Rightarrow> nat \<Rightarrow> string \<Rightarrow> nat \<Rightarrow> nat \<Rightarrow> u64 option res" where
  "find_symbol32 le buffer strtab strtab_size sym_ent symname i n =
     (if i < n then
        bind_res (get_Elf32_Sym buffer (sym_ent + i * 16)) (\<lambda>sym.
          let sidx = rd_word le (st32_name sym)
          in check (\<not> sidx \<ge> strtab_size) (Exit_failure (''Symbol name index out of bounds'' @ newline))
               (let max_len = strtab_size - sidx; sname = strtab + unat sidx
                in bind_res (strnlen buffer sname (unat max_len)) (\<lambda>l.
                     check (\<not> l \<ge> unat max_len) (Exit_failure (''Unterminated symbol name'' @ newline))
                       (if strcmp (c_string buffer sname l) symname = 0
                        then Inr (Some (ucast (rd_word le (st32_value sym))))
                        else find_symbol32 le buffer strtab strtab_size sym_ent symname (Suc i) n))))
      else Inr None)"
  by pat_completeness auto
termination
  by (relation "measure (\<lambda>(le, buffer, strtab, strtab_size, sym_ent, symname, i, n). n - i)") auto

text \<open>In the 64-bit case \<open>max_len\<close> is 32 bits wide, \<open>strtab_size\<close> 64.\<close>

function find_symbol64 ::
  "bool \<Rightarrow> u8 list \<Rightarrow> nat \<Rightarrow> u64 \<Rightarrow> nat \<Rightarrow> string \<Rightarrow> nat \<Rightarrow> nat \<Rightarrow> u64 option res" where
  "find_symbol64 le buffer strtab strtab_size sym_ent symname i n =
     (if i < n then
        bind_res (get_Elf64_Sym buffer (sym_ent + i * 24)) (\<lambda>sym.
          let sidx = rd_word le (st64_name sym)
          in check (\<not> ucast sidx \<ge> strtab_size) (Exit_failure (''Symbol name index out of bounds'' @ newline))
               (let max_len = (ucast (strtab_size - ucast sidx) :: u32); sname = strtab + unat sidx
                in bind_res (strnlen buffer sname (unat max_len)) (\<lambda>l.
                     check (\<not> l \<ge> unat max_len) (Exit_failure (''Unterminated symbol name'' @ newline))
                       (if strcmp (c_string buffer sname l) symname = 0
                        then Inr (Some (rd_xword le (st64_value sym)))
                        else find_symbol64 le buffer strtab strtab_size sym_ent symname (Suc i) n))))
      else Inr None)"
  by pat_completeness auto
termination
  by (relation "measure (\<lambda>(le, buffer, strtab, strtab_size, sym_ent, symname, i, n). n - i)") auto

declare find_symbol32.simps [simp del] find_symbol64.simps [simp del]

text \<open>
  The result is the return value and what is stored through \<open>value\<close>, when it is not null. The
  section header table is taken at \<open>e_shoff\<close> as it is in the file; in the 32-bit branch the sum
  of offset and size wraps at 32 bits, and in the 64-bit one \<open>rdWord64\<close> reads the 64-bit
  \<open>sh_size\<close>. The message about an invalid string table index reads it through the 32-bit
  header \<open>hdr\<close> in both branches.
\<close>

definition no_table :: "'a streams_scheme \<Rightarrow> ((int \<times> u64 option) \<times> 'a streams_scheme) res" where
  "no_table st = Inr ((- 1, None), put_err (''ELF: unable to find string or symbol table'' @ newline) st)"

definition symbol_result :: "'a streams_scheme \<Rightarrow> u64 option \<Rightarrow> ((int \<times> u64 option) \<times> 'a streams_scheme) res" where
  "symbol_result st r = (case r of None \<Rightarrow> Inr ((- 1, None), st) | Some v \<Rightarrow> Inr ((0, Some v), st))"

definition lookupSymbol32 ::
  "u8 list \<Rightarrow> bool \<Rightarrow> string \<Rightarrow> 'a streams_scheme \<Rightarrow> ((int \<times> u64 option) \<times> 'a streams_scheme) res" where
  "lookupSymbol32 buffer le symname st =
     (let total_file_size = length buffer
      in bind_res (get_Elf32_Ehdr buffer 0) (\<lambda>ehdr.
         let shdr = unat (e32_shoff ehdr)
         in check (\<not> (of_nat total_file_size :: u64) <
                  ucast (rd_word le (e32_shoff ehdr)) + ucast (rd_half le (e32_shnum ehdr)) * 40) (Exit_failure (''File too small for '' @ dec_of_nat (unat (rd_half le (e32_shnum ehdr))) @ '' sections from offset '' @
                  dec_of_int (sint (rd_word le (e32_shoff ehdr))) @ newline))
            (check (\<not> rd_half le (e32_shtrndx ehdr) \<ge> rd_half le (e32_shnum ehdr)) (Exit_failure (''Invalid string section table index '' @ dec_of_nat (unat (e32_shtrndx ehdr)) @ newline))
            (bind_res (get_Elf32_Shdr buffer (shdr + unat (rd_half le (e32_shtrndx ehdr)) * 40)) (\<lambda>shstrtab.
             check (\<not> (of_nat total_file_size :: u32) <
                  rd_word le (sh32_offset shstrtab) + rd_word le (sh32_size shstrtab)) (Exit_failure (''File too small for string section'' @ newline))
            (bind_res (find_tables32 le buffer ehdr) (\<lambda>(strtabidx, symtabidx).
             if strtabidx = 0 \<or> symtabidx = 0 then no_table st
             else
               bind_res (get_Elf32_Shdr buffer (shdr + unat strtabidx * 40)) (\<lambda>strtab.
               bind_res (get_Elf32_Shdr buffer (shdr + unat symtabidx * 40)) (\<lambda>symtab.
               bind_res
                 (find_symbol32 le buffer (unat (rd_word le (sh32_offset strtab))) (rd_word le (sh32_size strtab))
                    (unat (rd_word le (sh32_offset symtab))) symname 0
                    (unat (rd_word le (sh32_size symtab)) div 16))
                 (symbol_result st))))))))))"

definition lookupSymbol64 ::
  "u8 list \<Rightarrow> bool \<Rightarrow> string \<Rightarrow> 'a streams_scheme \<Rightarrow> ((int \<times> u64 option) \<times> 'a streams_scheme) res" where
  "lookupSymbol64 buffer le symname st =
     (let total_file_size = length buffer
      in bind_res (get_Elf64_Ehdr buffer 0) (\<lambda>ehdr.
         let shdr = unat (e64_shoff ehdr)
         in check (\<not> (of_nat total_file_size :: u64) <
                  rd_xword le (e64_shoff ehdr) + ucast (rd_half le (e64_shnum ehdr)) * 64) (Exit_failure (''File too small for '' @ dec_of_nat (unat (rd_half le (e64_shnum ehdr))) @ '' sections from offset '' @
                  dec_of_int (sint (rd_xword le (e64_shoff ehdr))) @ newline))
            (check (\<not> rd_half le (e64_shtrndx ehdr) \<ge> rd_half le (e64_shnum ehdr)) (Exit_failure (''Invalid string section table index '' @ dec_of_nat (unat (field buffer 50 2 :: u16)) @ newline))
            (bind_res (get_Elf64_Shdr buffer (shdr + unat (rd_half le (e64_shtrndx ehdr)) * 64)) (\<lambda>shstrtab.
             check (\<not> (of_nat total_file_size :: u64) <
                  rd_xword le (sh64_offset shstrtab) + rd_word_of_xword le (sh64_size shstrtab)) (Exit_failure (''File too small for string section'' @ newline))
            (bind_res (find_tables64 le buffer ehdr) (\<lambda>(strtabidx, symtabidx).
             if strtabidx = 0 \<or> symtabidx = 0 then no_table st
             else
               bind_res (get_Elf64_Shdr buffer (shdr + unat strtabidx * 64)) (\<lambda>strtab.
               bind_res (get_Elf64_Shdr buffer (shdr + unat symtabidx * 64)) (\<lambda>symtab.
               bind_res
                 (find_symbol64 le buffer (unat (rd_xword le (sh64_offset strtab))) (rd_xword le (sh64_size strtab))
                    (unat (rd_xword le (sh64_offset symtab))) symname 0
                    (unat (rd_xword le (sh64_size symtab)) div 24))
                 (symbol_result st))))))))))"

definition lookupSymbol ::
  "u8 list \<Rightarrow> string \<Rightarrow> 'a streams_scheme \<Rightarrow> ((int \<times> u64 option) \<times> 'a streams_scheme) res" where
  "lookupSymbol buffer symname st =
     bind_res (checkELFHdr buffer) (\<lambda>_.
     bind_res (get_Elf32_Ehdr buffer 0) (\<lambda>hdr.
       if e32_ident hdr ! EI_CLASS = ELFCLASS32 then lookupSymbol32 buffer (e32_ident hdr ! EI_DATA = ELFDATA2LSB) symname st
       else if e32_ident hdr ! EI_CLASS = ELFCLASS64 then lookupSymbol64 buffer (e32_ident hdr ! EI_DATA = ELFDATA2LSB) symname st
       else Inl (Exit_failure (''Unrecognized ELF file format'' @ newline))))"

definition lookup_sym ::
  "'h zlib \<Rightarrow> string \<Rightarrow> string \<Rightarrow> 'a streams_scheme \<Rightarrow> ((int \<times> u64 option) \<times> 'a streams_scheme) res" where
  "lookup_sym Z filename symname st =
     bind_res (read_file Z filename) (\<lambda>(buffer, cap). in_allocation cap (lookupSymbol buffer symname st))"

section \<open>What the lookup finds\<close>

lemma strnlen_Inr:
  "strnlen b p m = Inr l \<Longrightarrow> l \<le> m \<and> (\<forall>i < l. p + i < length b \<and> b ! (p + i) \<noteq> 0) \<and>
     (l < m \<longrightarrow> p + l < length b \<and> b ! (p + l) = 0)"
proof (induction m arbitrary: p l)
  case (Suc m)
  show ?case
  proof (cases "b ! p = 0")
    case True
    with Suc.prems show ?thesis by (auto simp: get_byte_def bind_res_Inr_iff split: if_splits)
  next
    case False
    with Suc.prems obtain k where k: "strnlen b (Suc p) m = Inr k" "l = Suc k" "p < length b"
      by (auto simp: get_byte_def bind_res_Inr_iff split: if_splits)
    from Suc.IH [OF k(1)] have IH: "k \<le> m" "\<And>i. i < k \<Longrightarrow> Suc (p + i) < length b \<and> b ! Suc (p + i) \<noteq> 0"
      "k < m \<Longrightarrow> Suc (p + k) < length b \<and> b ! Suc (p + k) = 0"
      by auto
    have "p + i < length b \<and> b ! (p + i) \<noteq> 0" if "i < Suc k" for i
      using that IH(2) [of "i - 1"] False k(3) by (cases i) auto
    then show ?thesis using IH(1,3) k(2) by auto
  qed
qed simp

text \<open>The name and value of the symbol with an index, if the table and the string are in range.\<close>

definition symbol_at32 :: "bool \<Rightarrow> u8 list \<Rightarrow> nat \<Rightarrow> u32 \<Rightarrow> nat \<Rightarrow> nat \<Rightarrow> (string \<times> u64) option" where
  "symbol_at32 le b strtab sz symtab k =
     (case get_Elf32_Sym b (symtab + k * 16) of
        Inl e \<Rightarrow> None
      | Inr sy \<Rightarrow>
          let p = strtab + unat (rd_word le (st32_name sy)); m = unat (sz - rd_word le (st32_name sy))
          in if rd_word le (st32_name sy) < sz
             then (case strnlen b p m of
                     Inl e \<Rightarrow> None
                   | Inr l \<Rightarrow> if l < m then Some (c_string b p l, ucast (rd_word le (st32_value sy))) else None)
             else None)"

definition symbol_at64 :: "bool \<Rightarrow> u8 list \<Rightarrow> nat \<Rightarrow> u64 \<Rightarrow> nat \<Rightarrow> nat \<Rightarrow> (string \<times> u64) option" where
  "symbol_at64 le b strtab sz symtab k =
     (case get_Elf64_Sym b (symtab + k * 24) of
        Inl e \<Rightarrow> None
      | Inr sy \<Rightarrow>
          let p = strtab + unat (rd_word le (st64_name sy));
              m = unat (ucast (sz - ucast (rd_word le (st64_name sy))) :: u32)
          in if ucast (rd_word le (st64_name sy)) < sz
             then (case strnlen b p m of
                     Inl e \<Rightarrow> None
                   | Inr l \<Rightarrow> if l < m then Some (c_string b p l, rd_xword le (st64_value sy)) else None)
             else None)"

text \<open>One step of the search, in terms of the symbol at the index.\<close>

lemma find_symbol32_step:
  assumes "find_symbol32 le b strtab sz symtab name i n = Inr r" "i < n"
  shows "\<exists>m v. symbol_at32 le b strtab sz symtab i = Some (m, v) \<and>
    (if m = name then r = Some v else find_symbol32 le b strtab sz symtab name (Suc i) n = Inr r)"
proof -
  obtain x l where x: "get_Elf32_Sym b (symtab + i * 16) = Inr x" "rd_word le (st32_name x) < sz"
    "strnlen b (strtab + unat (rd_word le (st32_name x))) (unat (sz - rd_word le (st32_name x))) = Inr l"
    "l < unat (sz - rd_word le (st32_name x))"
    "if c_string b (strtab + unat (rd_word le (st32_name x))) l = name then r = Some (ucast (rd_word le (st32_value x)))
     else find_symbol32 le b strtab sz symtab name (Suc i) n = Inr r"
    using assms
    by (simp add: find_symbol32.simps [of le b strtab sz symtab name i] bind_res_Inr_iff Let_def)
      (auto simp: strcmp_0_iff not_le split: if_splits)
  then have "symbol_at32 le b strtab sz symtab i =
      Some (c_string b (strtab + unat (rd_word le (st32_name x))) l, ucast (rd_word le (st32_value x)))"
    by (simp add: symbol_at32_def Let_def)
  with x(5) show ?thesis by blast
qed

lemma find_symbol64_step:
  assumes "find_symbol64 le b strtab sz symtab name i n = Inr r" "i < n"
  shows "\<exists>m v. symbol_at64 le b strtab sz symtab i = Some (m, v) \<and>
    (if m = name then r = Some v else find_symbol64 le b strtab sz symtab name (Suc i) n = Inr r)"
proof -
  obtain x l where x: "get_Elf64_Sym b (symtab + i * 24) = Inr x" "ucast (rd_word le (st64_name x)) < sz"
    "strnlen b (strtab + unat (rd_word le (st64_name x))) (unat (ucast (sz - ucast (rd_word le (st64_name x))) :: u32)) = Inr l"
    "l < unat (ucast (sz - ucast (rd_word le (st64_name x))) :: u32)"
    "if c_string b (strtab + unat (rd_word le (st64_name x))) l = name then r = Some (rd_xword le (st64_value x))
     else find_symbol64 le b strtab sz symtab name (Suc i) n = Inr r"
    using assms
    by (simp add: find_symbol64.simps [of le b strtab sz symtab name i] bind_res_Inr_iff Let_def)
      (auto simp: strcmp_0_iff not_le split: if_splits)
  then have "symbol_at64 le b strtab sz symtab i =
      Some (c_string b (strtab + unat (rd_word le (st64_name x))) l, rd_xword le (st64_value x))"
    by (simp add: symbol_at64_def Let_def)
  with x(5) show ?thesis by blast
qed

text \<open>The result of a search that stops at the first symbol with the name.\<close>

definition first_symbol :: "(nat \<Rightarrow> (string \<times> u64) option) \<Rightarrow> string \<Rightarrow> nat \<Rightarrow> nat \<Rightarrow> u64 option \<Rightarrow> bool" where
  "first_symbol tab name i n r \<longleftrightarrow>
     (case r of
        Some v \<Rightarrow> \<exists>k. i \<le> k \<and> k < n \<and> tab k = Some (name, v) \<and>
          (\<forall>j. i \<le> j \<and> j < k \<longrightarrow> (\<exists>m w. tab j = Some (m, w) \<and> m \<noteq> name))
      | None \<Rightarrow> \<forall>j. i \<le> j \<and> j < n \<longrightarrow> (\<exists>m w. tab j = Some (m, w) \<and> m \<noteq> name))"

lemma first_symbol_here: "i < n \<Longrightarrow> tab i = Some (name, v) \<Longrightarrow> first_symbol tab name i n (Some v)"
  by (auto simp: first_symbol_def intro!: exI [of _ i])

lemma first_symbol_later:
  assumes "i < n" "tab i = Some (m, w)" "m \<noteq> name" "first_symbol tab name (Suc i) n r"
  shows "first_symbol tab name i n r"
proof -
  have step: "i \<le> j \<longleftrightarrow> j = i \<or> Suc i \<le> j" for j by auto
  show ?thesis
  proof (cases r)
    case None
    with assms show ?thesis by (auto simp: first_symbol_def step)
  next
    case (Some v)
    with assms(4) obtain k where "Suc i \<le> k" "k < n" "tab k = Some (name, v)"
      "\<forall>j. Suc i \<le> j \<and> j < k \<longrightarrow> (\<exists>m w. tab j = Some (m, w) \<and> m \<noteq> name)"
      by (auto simp: first_symbol_def)
    with assms(2,3) have "i \<le> k \<and> k < n \<and> tab k = Some (name, v) \<and>
        (\<forall>j. i \<le> j \<and> j < k \<longrightarrow> (\<exists>m w. tab j = Some (m, w) \<and> m \<noteq> name))"
      by (auto simp: step)
    with Some show ?thesis by (auto simp: first_symbol_def)
  qed
qed

lemma first_symbol_empty: "n \<le> i \<Longrightarrow> first_symbol tab name i n None"
  by (auto simp: first_symbol_def)

lemma find_symbol32_first:
  "find_symbol32 le b strtab sz symtab name i n = Inr r \<Longrightarrow>
   first_symbol (symbol_at32 le b strtab sz symtab) name i n r"
proof (induction "n - i" arbitrary: i)
  case 0
  then show ?case by (auto simp: find_symbol32.simps [of le b strtab sz symtab name i] first_symbol_empty)
next
  case (Suc d)
  then have i: "i < n" by simp
  from find_symbol32_step [OF Suc.prems i] Suc.hyps i show ?case
    by (auto intro: first_symbol_here first_symbol_later split: if_splits)
qed

lemma find_symbol64_first:
  "find_symbol64 le b strtab sz symtab name i n = Inr r \<Longrightarrow>
   first_symbol (symbol_at64 le b strtab sz symtab) name i n r"
proof (induction "n - i" arbitrary: i)
  case 0
  then show ?case by (auto simp: find_symbol64.simps [of le b strtab sz symtab name i] first_symbol_empty)
next
  case (Suc d)
  then have i: "i < n" by simp
  from find_symbol64_step [OF Suc.prems i] Suc.hyps i show ?case
    by (auto intro: first_symbol_here first_symbol_later split: if_splits)
qed

lemma lookupSymbol_first:
  assumes "lookupSymbol b name st = Inr ((ret, r), st')" "r = None \<Longrightarrow> st' = st"
  shows "\<exists>strtab sz sz' symtab n. first_symbol
      (if b ! 4 = 1 then symbol_at32 (b ! 5 = 1) b strtab sz symtab else symbol_at64 (b ! 5 = 1) b strtab sz' symtab)
      name 0 n r \<and> st' = st \<and> ret = (if r = None then - 1 else 0)"
proof -
  have no: "no_table st \<noteq> Inr ((ret, r), st')"
    using assms(2) by (auto simp: no_table_def put_err_def newline_def dest!: arg_cong [of _ _ err_text])
  have res: "symbol_result st q = Inr ((ret, r), st') \<Longrightarrow> q = r \<and> st' = st \<and> ret = (if r = None then - 1 else 0)" for q
    by (auto simp: symbol_result_def split: option.splits)
  obtain hdr where hdr: "get_Elf32_Ehdr b 0 = Inr hdr" "52 \<le> length b"
    "if e32_ident hdr ! EI_CLASS = ELFCLASS32 then lookupSymbol32 b (e32_ident hdr ! EI_DATA = ELFDATA2LSB) name st = Inr ((ret, r), st')
     else lookupSymbol64 b (e32_ident hdr ! EI_DATA = ELFDATA2LSB) name st = Inr ((ret, r), st')"
    using assms(1) by (auto simp: lookupSymbol_def bind_res_Inr_iff get_Elf32_Ehdr_def split: if_splits)
  then have id: "e32_ident hdr ! 4 = b ! 4" "e32_ident hdr ! 5 = b ! 5"
    by (auto simp: get_Elf32_Ehdr_def)
  show ?thesis
  proof (cases "b ! 4 = 1")
    case True
    with hdr id have "lookupSymbol32 b (b ! 5 = 1) name st = Inr ((ret, r), st')" by simp
    then obtain strtab sz symtab n q where "find_symbol32 (b ! 5 = 1) b strtab sz symtab name 0 n = Inr q"
        "symbol_result st q = Inr ((ret, r), st')"
      using no by (auto simp: lookupSymbol32_def Let_def bind_res_Inr_iff split: if_splits)
    then have "first_symbol (symbol_at32 (b ! 5 = 1) b strtab sz symtab) name 0 n r" "st' = st"
        "ret = (if r = None then - 1 else 0)"
      using find_symbol32_first res by blast+
    with True show ?thesis by auto
  next
    case False
    with hdr id have "lookupSymbol64 b (b ! 5 = 1) name st = Inr ((ret, r), st')" by simp
    then obtain strtab sz symtab n q where "find_symbol64 (b ! 5 = 1) b strtab sz symtab name 0 n = Inr q"
        "symbol_result st q = Inr ((ret, r), st')"
      using no by (auto simp: lookupSymbol64_def Let_def bind_res_Inr_iff split: if_splits)
    then have "first_symbol (symbol_at64 (b ! 5 = 1) b strtab sz symtab) name 0 n r" "st' = st"
        "ret = (if r = None then - 1 else 0)"
      using find_symbol64_first res by blast+
    with False show ?thesis by auto
  qed
qed

section \<open>The tables the lookup uses\<close>

lemma for_up_res_Suc:
  "i \<le> n \<Longrightarrow> for_up_res i (Suc n) body s = bind_res (for_up_res i n body s) (body n)"
proof (induction "n - i" arbitrary: i s)
  case 0
  then show ?case by (cases "body n s") (simp_all add: for_up_res_step)
next
  case (Suc d)
  then have i: "i < n" by simp
  show ?case
  proof (cases "body i s")
    case (Inr t)
    with Suc i show ?thesis by (simp add: for_up_res_step)
  qed (use i in \<open>simp add: for_up_res_step\<close>)
qed

text \<open>The last index below \<open>n\<close> with a property, 0 when there is none.\<close>

fun last_index :: "(nat \<Rightarrow> bool) \<Rightarrow> nat \<Rightarrow> nat" where
  "last_index P 0 = 0"
| "last_index P (Suc n) = (if P n then n else last_index P n)"

lemma last_index_none: "(\<And>i. i < n \<Longrightarrow> \<not> P i) \<Longrightarrow> last_index P n = 0"
  by (induction n) auto

lemma last_index_some:
  "i < n \<Longrightarrow> P i \<Longrightarrow> i \<le> last_index P n \<and> last_index P n < n \<and> P (last_index P n)"
proof (induction n)
  case (Suc n)
  show ?case
  proof (cases "P n")
    case False
    then have "i < n" using Suc.prems by (metis less_SucE)
    with Suc.IH Suc.prems(2) False show ?thesis by simp
  qed (use Suc.prems in simp)
qed simp

definition section_type64 :: "bool \<Rightarrow> u8 list \<Rightarrow> Elf64_Ehdr \<Rightarrow> nat \<Rightarrow> u32" where
  "section_type64 le b eh i = rd_word le (field b (unat (e64_shoff eh) + i * 64 + 4) 4)"

lemma find_tables64_eq:
  assumes "find_tables64 le b eh = Inr (s, y)"
  defines "n \<equiv> unat (rd_half le (e64_shnum eh))"
  shows "s = of_nat (last_index (\<lambda>i. section_type64 le b eh i = 3 \<and> i \<noteq> unat (rd_half le (e64_shtrndx eh))) n) \<and>
    y = of_nat (last_index (\<lambda>i. section_type64 le b eh i = 2) n)"
proof -
  define body where "body = (\<lambda>i (strtabidx, symtabidx).
          bind_res (get_Elf64_Shdr b (unat (e64_shoff eh) + i * 64)) (\<lambda>shdr.
            let symtabidx = (if rd_word le (sh64_type shdr) = 2 then of_nat i else symtabidx);
                strtabidx = (if rd_word le (sh64_type shdr) = 3 \<and> i \<noteq> unat (rd_half le (e64_shtrndx eh))
                             then of_nat i else strtabidx)
            in Inr (strtabidx :: u32, symtabidx :: u32)))"
  have "s = of_nat (last_index (\<lambda>i. section_type64 le b eh i = 3 \<and> i \<noteq> unat (rd_half le (e64_shtrndx eh))) n) \<and>
    y = of_nat (last_index (\<lambda>i. section_type64 le b eh i = 2) n)"
    if "for_up_res 0 n body (0, 0) = Inr (s, y)" for n s y
    using that
  proof (induction n arbitrary: s y)
    case (Suc n)
    then obtain s' y' where prev: "for_up_res 0 n body (0, 0) = Inr (s', y')" "body n (s', y') = Inr (s, y)"
      by (auto simp: for_up_res_Suc bind_res_Inr_iff)
    obtain sh where sh: "get_Elf64_Shdr b (unat (e64_shoff eh) + n * 64) = Inr sh"
      using prev(2) by (auto simp: body_def bind_res_Inr_iff)
    then have "rd_word le (sh64_type sh) = section_type64 le b eh n"
      by (auto simp: get_Elf64_Shdr_def section_type64_def)
    with prev(2) sh Suc.IH [OF prev(1)] show ?case by (auto simp: body_def)
  qed simp
  from this [of n s y] assms(1) show ?thesis
    by (simp add: find_tables64_def body_def n_def)
qed

text \<open>The whole 64-bit lookup: the tables it finds and the first symbol with the name.\<close>

lemma lookupSymbol64_result:
  assumes "lookupSymbol64 b le name st = Inr ((ret, r), st')"
  shows "\<exists>eh s y. get_Elf64_Ehdr b 0 = Inr eh \<and> find_tables64 le b eh = Inr (s, y) \<and>
    (if s = 0 \<or> y = 0
     then ret = - 1 \<and> r = None \<and> st' = put_err (''ELF: unable to find string or symbol table'' @ newline) st
     else st' = st \<and> ret = (if r = None then - 1 else 0) \<and>
       (\<exists>strtab symtab. get_Elf64_Shdr b (unat (e64_shoff eh) + unat s * 64) = Inr strtab \<and>
          get_Elf64_Shdr b (unat (e64_shoff eh) + unat y * 64) = Inr symtab \<and>
          first_symbol
            (symbol_at64 le b (unat (rd_xword le (sh64_offset strtab))) (rd_xword le (sh64_size strtab))
              (unat (rd_xword le (sh64_offset symtab))))
            name 0 (unat (rd_xword le (sh64_size symtab)) div 24) r))"
proof -
  have res: "symbol_result st q = Inr ((ret, r), st') \<Longrightarrow> q = r \<and> st' = st \<and> ret = (if r = None then - 1 else 0)" for q
    by (auto simp: symbol_result_def split: option.splits)
  obtain eh s y where t: "get_Elf64_Ehdr b 0 = Inr eh" "find_tables64 le b eh = Inr (s, y)"
    "if s = 0 \<or> y = 0 then no_table st = Inr ((ret, r), st')
     else \<exists>strtab symtab q. get_Elf64_Shdr b (unat (e64_shoff eh) + unat s * 64) = Inr strtab \<and>
       get_Elf64_Shdr b (unat (e64_shoff eh) + unat y * 64) = Inr symtab \<and>
       find_symbol64 le b (unat (rd_xword le (sh64_offset strtab))) (rd_xword le (sh64_size strtab))
         (unat (rd_xword le (sh64_offset symtab))) name 0 (unat (rd_xword le (sh64_size symtab)) div 24) = Inr q \<and>
       symbol_result st q = Inr ((ret, r), st')"
    using assms by (auto simp: lookupSymbol64_def Let_def bind_res_Inr_iff split: if_splits)
  show ?thesis
  proof (cases "s = 0 \<or> y = 0")
    case True
    with t show ?thesis by (auto simp: no_table_def)
  next
    case False
    with t(3) res find_symbol64_first show ?thesis using t(1,2) by (metis (lifting))
  qed
qed

end
