(* ===== verification/Rts.thy ===== *)
theory Rts
  imports Elf_Symbols
begin

text \<open>
  The rest of the runtime (\<open>lib/rts.c\<close>): failure and exit, sleeping, tracing, the ELF entry point,
  the cycle limit, image files, set-up and clean-up. The state is the record \<open>rts\<close> of \<open>Rts_Memory\<close>;
  the command line is in \<open>Rts_Args\<close>.
\<close>

section \<open>Failure, exit and sleep\<close>

definition sail_match_failure :: "string \<Rightarrow> rts \<Rightarrow> rts res" where
  "sail_match_failure msg st = Inl (Exit_failure (''Pattern match failure in '' @ msg @ newline))"

definition sail_assert :: "bool \<Rightarrow> string \<Rightarrow> rts \<Rightarrow> (sail_unit \<times> rts) res" where
  "sail_assert b msg st = (if b then Inr (UNIT, st)
     else Inl (Exit_failure (''Assertion failed: '' @ msg @ newline)))"

definition sail_exit :: "sail_unit \<Rightarrow> rts \<Rightarrow> (sail_unit \<times> rts) res" where
  "sail_exit u st = Inl (Exit_success
     (''[Sail] Exiting after '' @ dec_of_nat (unat (g_cycle_count st)) @ '' cycles'' @ newline))"

definition sail_get_verbosity :: "sail_unit \<Rightarrow> rts \<Rightarrow> fbits" where
  "sail_get_verbosity u st = g_verbosity st"

definition sleep_request :: "sail_unit \<Rightarrow> rts \<Rightarrow> rts" where
  "sleep_request u st = (put_err (''Sail CPU model going to sleep'' @ newline) st)\<lparr>g_sleeping := True\<rparr>"

definition wakeup_request :: "sail_unit \<Rightarrow> rts \<Rightarrow> rts" where
  "wakeup_request u st = (put_err (''Sail CPU model waking up'' @ newline) st)\<lparr>g_sleeping := False\<rparr>"

definition sleeping :: "sail_unit \<Rightarrow> rts \<Rightarrow> bool" where
  "sleeping u st = g_sleeping st"

section \<open>Tracing\<close>

definition enable_tracing :: "sail_unit \<Rightarrow> rts \<Rightarrow> rts" where
  "enable_tracing u st = st\<lparr>g_trace_depth := 0, g_trace_enabled := True\<rparr>"

definition disable_tracing :: "sail_unit \<Rightarrow> rts \<Rightarrow> rts" where
  "disable_tracing u st = st\<lparr>g_trace_depth := 0, g_trace_enabled := False\<rparr>"

definition is_tracing :: "sail_unit \<Rightarrow> rts \<Rightarrow> bool" where
  "is_tracing u st = g_trace_enabled st"

definition trace_fbits :: "fbits \<Rightarrow> rts \<Rightarrow> rts" where
  "trace_fbits x st = (if g_trace_enabled st then put_err (''0x'' @ hex_of_nat (unat x)) st else st)"

definition trace_unit :: "sail_unit \<Rightarrow> rts \<Rightarrow> rts" where
  "trace_unit u st = (if g_trace_enabled st then put_err ''()'' st else st)"

definition trace_sail_string :: "string \<Rightarrow> rts \<Rightarrow> rts" where
  "trace_sail_string str st = (if g_trace_enabled st then put_err str st else st)"

definition trace_sail_int :: "gmp_text \<Rightarrow> int \<Rightarrow> rts \<Rightarrow> rts" where
  "trace_sail_int T op st = (if g_trace_enabled st then put_err (mpz_out_str T op) st else st)"

definition trace_lbits :: "gmp \<Rightarrow> lbits \<Rightarrow> rts \<Rightarrow> rts res" where
  "trace_lbits G op st =
     (if g_trace_enabled st
      then bind_res (fprint_bits G [] op []) (\<lambda>s. Inr (put_err s st))
      else Inr st)"

definition trace_bool :: "bool \<Rightarrow> rts \<Rightarrow> rts" where
  "trace_bool b st =
     (if g_trace_enabled st
      then if b then put_err ''true'' st else put_err ''false'' st
      else st)"

definition trace_unknown :: "rts \<Rightarrow> rts" where
  "trace_unknown st = (if g_trace_enabled st then put_err ''?'' st else st)"

definition trace_argsep :: "rts \<Rightarrow> rts" where
  "trace_argsep st = (if g_trace_enabled st then put_err '', '' st else st)"

definition trace_argend :: "rts \<Rightarrow> rts" where
  "trace_argend st = (if g_trace_enabled st then put_err ('')'' @ newline) st else st)"

definition trace_retend :: "rts \<Rightarrow> rts" where
  "trace_retend st = (if g_trace_enabled st then put_err newline st else st)"

text \<open>The loop that indents; the depth is an \<open>int64_t\<close> and its overflow undefined.\<close>

definition trace_indent :: "i64 \<Rightarrow> string" where
  "trace_indent depth = concat (replicate (nat (sint depth)) ''|   '')"

definition trace_start :: "string \<Rightarrow> rts \<Rightarrow> rts res" where
  "trace_start name st =
     (if g_trace_enabled st then
        let st = put_err ''[TRACE] '' st;
            st = put_err (trace_indent (g_trace_depth st)) st;
            st = put_err (name @ ''('') st
        in check (sint (g_trace_depth st) < 2 ^ 63 - 1) Undefined_behaviour
             (Inr (st\<lparr>g_trace_depth := g_trace_depth st + 1\<rparr>))
      else Inr st)"

definition trace_end :: "rts \<Rightarrow> rts res" where
  "trace_end st =
     (if g_trace_enabled st then
        let st = put_err ''[TRACE] '' st;
            st = put_err (trace_indent (g_trace_depth st)) st
        in check (- (2 ^ 63) < sint (g_trace_depth st)) Undefined_behaviour
             (Inr (st\<lparr>g_trace_depth := g_trace_depth st - 1\<rparr>))
      else Inr st)"

section \<open>The ELF entry point and the cycle limit\<close>

definition elf_entry :: "gmp \<Rightarrow> sail_unit \<Rightarrow> rts \<Rightarrow> int" where
  "elf_entry G u st = mpz_set_ui G (g_elf_entry st)"

definition elf_tohost :: "gmp \<Rightarrow> sail_unit \<Rightarrow> rts \<Rightarrow> int" where
  "elf_tohost G u st = mpz_set_ui G 0"

definition cycle_limit_reached :: "sail_unit \<Rightarrow> rts \<Rightarrow> bool \<times> rts" where
  "cycle_limit_reached u st =
     (let st = st\<lparr>g_cycle_count := g_cycle_count st + 1\<rparr>
      in (g_cycle_count st \<ge> g_cycle_limit st \<and> g_cycle_limit st \<noteq> 0, st))"

definition cycle_count :: "sail_unit \<Rightarrow> rts \<Rightarrow> (sail_unit \<times> rts) res" where
  "cycle_count u st =
     (let (reached, st) = cycle_limit_reached UNIT st
      in if reached
         then Inl (Exit_success (newline @ ''[Sail] TIMEOUT: exceeded '' @ dec_of_int (sint (g_cycle_limit st)) @ '' cycles'' @ newline))
         else Inr (UNIT, st))"

definition get_cycle_count :: "gmp \<Rightarrow> sail_unit \<Rightarrow> rts \<Rightarrow> int" where
  "get_cycle_count G u st = mpz_set_ui G (g_cycle_count st)"

section \<open>Image files\<close>

text \<open>
  \<open>atoll\<close>, and the conversions \<open>%lu\<close>, \<open>%ld\<close>, \<open>%lx\<close> of \<open>sscanf\<close>. A scan matches with a value and
  the rest of the input, fails to match, or finds the input at its end before it started; a value
  that does not fit is undefined in C.
\<close>

datatype 'a scan = Matched 'a string | Mismatch | Input_end

definition scan_sign :: "string \<Rightarrow> bool \<times> string" where
  "scan_sign s = (case s of
     [] \<Rightarrow> (False, [])
   | c # cs \<Rightarrow> if c = CHR ''-'' then (True, cs) else if c = CHR ''+'' then (False, cs) else (False, s))"

definition atoll :: "string \<Rightarrow> i64 res" where
  "atoll s =
     (let (neg, t) = scan_sign (dropWhile is_space s);
          v = int (dec_value (takeWhile is_digit t));
          v = (if neg then - v else v)
      in check (- (2 ^ 63) \<le> v \<and> v < 2 ^ 63) Undefined_behaviour (Inr (word_of_int v)))"

definition scan_dec :: "string \<Rightarrow> int scan" where
  "scan_dec s =
     (let s = dropWhile is_space s
      in if s = [] then Input_end
         else let (neg, t) = scan_sign s; ds = takeWhile is_digit t; v = int (dec_value ds)
              in if ds = [] then Mismatch else Matched (if neg then - v else v) (dropWhile is_digit t))"

definition is_xdigit :: "char \<Rightarrow> bool" where
  "is_xdigit c \<longleftrightarrow> is_digit c \<or> (65 \<le> (of_char c :: nat) \<and> (of_char c :: nat) \<le> 70) \<or>
     (97 \<le> (of_char c :: nat) \<and> (of_char c :: nat) \<le> 102)"

definition xdigit_value :: "char \<Rightarrow> nat" where
  "xdigit_value c = (if is_digit c then of_char c - 48
     else if (of_char c :: nat) \<le> 70 then of_char c - 55 else of_char c - 87)"

definition hex_value :: "string \<Rightarrow> nat" where
  "hex_value s = foldl (\<lambda>v c. 16 * v + xdigit_value c) 0 s"

definition scan_hex :: "string \<Rightarrow> int scan" where
  "scan_hex s =
     (let s = dropWhile is_space s
      in if s = [] then Input_end
         else let (neg, t) = scan_sign s;
                  t = (if take 2 t = ''0x'' \<or> take 2 t = ''0X'' then drop 2 t else t);
                  ds = takeWhile is_xdigit t; v = int (hex_value ds)
              in if ds = [] then Mismatch else Matched (if neg then - v else v) (dropWhile is_xdigit t))"

fun scan_lit :: "string \<Rightarrow> string \<Rightarrow> sail_unit scan" where
  "scan_lit [] s = Matched UNIT s"
| "scan_lit (c # cs) [] = Input_end"
| "scan_lit (c # cs) (d # ds) = (if c = d then scan_lit cs ds else Mismatch)"

definition then_scan :: "'a scan \<Rightarrow> ('a \<Rightarrow> string \<Rightarrow> 'b scan) \<Rightarrow> 'b scan" where
  "then_scan r f = (case r of Matched x s \<Rightarrow> f x s | Mismatch \<Rightarrow> Mismatch | Input_end \<Rightarrow> Input_end)"

text \<open>
  \<open>getline\<close> on a buffer of which the caller passes the capacity it believes in, \<open>n\<close>; \<open>cap\<close> is the
  real one, 0 for a null pointer. The line is stored with its newline and a terminating zero; a
  line that does not fit \<open>n\<close> gets a new buffer, of a size the library chooses (\<open>alloc\<close>, from \<open>n\<close>
  and the size needed), and one that fits \<open>n\<close> but not the real buffer overruns it.
\<close>

definition getline :: "(nat \<Rightarrow> nat \<Rightarrow> nat) \<Rightarrow> nat \<Rightarrow> nat \<Rightarrow> string \<Rightarrow> (string \<times> string \<times> nat \<times> nat) option res" where
  "getline alloc cap n s =
     (if s = [] then Inr None
      else let line = takeWhile (\<lambda>c. c \<noteq> char_of (10::nat)) s @ take 1 (dropWhile (\<lambda>c. c \<noteq> char_of (10::nat)) s);
               rest = drop (length line) s;
               needed = length line + 1
           in if cap = 0 then Inr (Some (line, rest, alloc 0 needed, alloc 0 needed))
              else if needed \<le> n
              then check (needed \<le> cap) Out_of_bounds (Inr (Some (line, rest, cap, n)))
              else Inr (Some (line, rest, alloc n needed, alloc n needed)))"

text \<open>A C string ends at its first zero character.\<close>

definition c_str :: "string \<Rightarrow> string" where
  "c_str s = takeWhile (\<lambda>c. c \<noteq> char_of (0::nat)) s"

definition image_pair :: "string \<Rightarrow> string \<Rightarrow> rts \<Rightarrow> rts res" where
  "image_pair addr data st =
     (if strcmp (c_str addr) (''elf_entry'' @ newline) = 0 then
        (case scan_dec (c_str data) of
           Matched v s \<Rightarrow>
             check (- (2 ^ 64) < v \<and> v < 2 ^ 64) Undefined_behaviour
               (let st = st\<lparr>g_elf_entry := word_of_int v\<rparr>
                in Inr (put_err (''[Sail] Elf entry point: '' @ hex_of_nat (unat (g_elf_entry st)) @ newline) st))
         | Mismatch \<Rightarrow> Inl (Exit_failure (''[Sail] Failed to parse elf_entry'' @ newline))
         | Input_end \<Rightarrow> Inl (Exit_failure (''[Sail] Failed to parse elf_entry'' @ newline)))
      else
        bind_res (atoll (c_str addr)) (\<lambda>a. bind_res (atoll (c_str data)) (\<lambda>d. write_mem a d st)))"

text \<open>The loop; one variable \<open>len\<close> holds the capacity of both buffers.\<close>

lemma getline_shorter:
  "getline alloc cap n s = Inr (Some (line, rest, cap', n')) \<Longrightarrow> length rest < length s"
  by (cases s) (auto simp: getline_def Let_def split: if_splits)

function image_lines ::
  "(nat \<Rightarrow> nat \<Rightarrow> nat) \<Rightarrow> nat \<Rightarrow> nat \<Rightarrow> nat \<Rightarrow> string \<Rightarrow> rts \<Rightarrow> rts res" where
  "image_lines alloc addr_cap data_cap len s st =
     (case getline alloc addr_cap len s of
        Inl e \<Rightarrow> Inl e
      | Inr None \<Rightarrow> Inr st
      | Inr (Some (addr, s1, addr_cap, len)) \<Rightarrow>
          (case getline alloc data_cap len s1 of
             Inl e \<Rightarrow> Inl e
           | Inr None \<Rightarrow> Inr st
           | Inr (Some (data, s2, data_cap, len)) \<Rightarrow>
               bind_res (image_pair addr data st) (image_lines alloc addr_cap data_cap len s2)))"
  by pat_completeness auto
termination
  by (relation "measure (\<lambda>(alloc, addr_cap, data_cap, len, s, st). length s)")
    (auto dest!: getline_shorter)

declare image_lines.simps [simp del]

definition load_image :: "files \<Rightarrow> (nat \<Rightarrow> nat \<Rightarrow> nat) \<Rightarrow> string \<Rightarrow> rts \<Rightarrow> rts res" where
  "load_image fs alloc file st =
     (case fs file of
        None \<Rightarrow> Inl (Exit_failure (''[Sail] Image file '' @ file @ '' could not be loaded'' @ newline))
      | Some bytes \<Rightarrow> image_lines alloc 0 0 0 (map (\<lambda>b. char_of (unat b)) bytes) st)"

section \<open>Frames: what loading a file leaves alone\<close>

text \<open>
  Writing memory changes the block list and what is printed on \<open>stderr\<close>; every other variable of
  the runtime keeps its value.
\<close>

definition same_registers :: "rts \<Rightarrow> rts \<Rightarrow> bool" where
  "same_registers st st' \<longleftrightarrow>
     st' = st\<lparr>err_text := err_text st', sail_memory := sail_memory st'\<rparr>"

lemma same_registers_refl: "same_registers st st"
  by (simp add: same_registers_def)

lemma same_registers_trans: "same_registers s t \<Longrightarrow> same_registers t u \<Longrightarrow> same_registers s u"
  by (cases s; cases t; cases u) (simp add: same_registers_def)

lemma same_registers_fields:
  "same_registers st st' \<Longrightarrow> g_elf_entry st' = g_elf_entry st \<and> g_cycle_limit st' = g_cycle_limit st \<and>
     g_cycle_count st' = g_cycle_count st \<and> g_verbosity st' = g_verbosity st \<and> sail_tags st' = sail_tags st \<and>
     g_trace_enabled st' = g_trace_enabled st \<and> out_text st' = out_text st"
  by (cases st; cases st') (simp add: same_registers_def)

lemma write_mem_frame: "write_mem a v st = Inr st' \<Longrightarrow> same_registers st st'"
  by (auto simp: write_mem_def Let_def bind_res_Inr_iff put_err_def same_registers_def split: option.splits)

lemma loop_frame:
  assumes "for_up_res i n body s = Inr t" and step: "\<And>j t u. body j t = Inr u \<Longrightarrow> same_registers t u"
  shows "same_registers s t"
  using assms(1)
proof (induction "n - i" arbitrary: i s)
  case 0
  then show ?case by (simp add: same_registers_refl)
next
  case (Suc d)
  then have i: "i < n" by simp
  with Suc.prems obtain u where u: "body i s = Inr u" "for_up_res (Suc i) n body u = Inr t"
    by (auto simp: for_up_res_step bind_res_Inr_iff)
  have "same_registers u t" using Suc.hyps(2) i u(2) by (intro Suc.hyps(1)) auto
  with step [OF u(1)] show ?case by (rule same_registers_trans)
qed

lemma two_loops_frame:
  assumes "bind_res (for_up_res i n f s) (for_up_res j m g) = Inr t"
    and "\<And>j t u. f j t = Inr u \<Longrightarrow> same_registers t u" "\<And>j t u. g j t = Inr u \<Longrightarrow> same_registers t u"
  shows "same_registers s t"
proof -
  from assms(1) obtain u where "for_up_res i n f s = Inr u" "for_up_res j m g u = Inr t"
    by (auto simp: bind_res_Inr_iff)
  from loop_frame [OF this(1) assms(2)] loop_frame [OF this(2) assms(3)] show ?thesis
    by (rule same_registers_trans)
qed

lemma loadBlock32_frame: "loadBlock32 b off addr fs ms st = Inr st' \<Longrightarrow> same_registers st st'"
  unfolding loadBlock32_def
  by (erule two_loops_frame) (auto simp: bind_res_Inr_iff dest: write_mem_frame)

lemma loadBlock64_frame: "loadBlock64 b off addr fs ms st = Inr st' \<Longrightarrow> same_registers st st'"
  unfolding loadBlock64_def
  by (erule two_loops_frame) (auto simp: bind_res_Inr_iff dest: write_mem_frame)

lemma loadProgHdr_frame:
  "loadProgHdr32 le b o32 st = Inr st' \<Longrightarrow> same_registers st st'"
  "loadProgHdr64 le b o64 st = Inr st' \<Longrightarrow> same_registers st st'"
  by (auto simp: loadProgHdr32_def loadProgHdr64_def Let_def bind_res_Inr_iff same_registers_refl
      dest: loadBlock32_frame loadBlock64_frame split: if_splits)

lemma loadELFHdr_frame: "loadELFHdr b st = Inr (st', r) \<Longrightarrow> same_registers st st'"
  unfolding loadELFHdr_def
  by (auto simp: Let_def bind_res_Inr_iff split: if_split_asm)
    (erule loop_frame, (auto dest: loadProgHdr_frame) [1])+

lemma load_elf_frame: "load_elf Z f st = Inr (st', r) \<Longrightarrow> same_registers st st'"
  by (auto simp: load_elf_def bind_res_Inr_iff dest: loadELFHdr_frame)

lemma load_bytes_frame: "load_bytes a bs st = Inr st' \<Longrightarrow> same_registers st st'"
  by (induction bs arbitrary: a st)
    (auto simp: bind_res_Inr_iff same_registers_refl dest!: write_mem_frame intro: same_registers_trans)

lemma load_raw_frame: "load_raw fs a f st = Inr st' \<Longrightarrow> same_registers st st'"
  by (auto simp: load_raw_def dest: load_bytes_frame split: option.splits)

section \<open>Set-up and clean-up\<close>

text \<open>
  The temporaries of \<open>sail.c\<close> have a value between \<open>setup_library\<close> and \<open>cleanup_library\<close>. The
  generator of the C library is a parameter: its state after \<open>srand\<close>.
\<close>

record 'r library =
  sail_lib_tmp1 :: "int option"
  sail_lib_tmp2 :: "int option"
  sail_lib_tmp3 :: "int option"
  sail_lib_tmp_real :: "(int \<times> int) option"
  rand_state :: 'r
  mpf_prec :: nat

definition setup_library :: "(u32 \<Rightarrow> 'r) \<Rightarrow> gmp \<Rightarrow> 'r library \<Rightarrow> 'r library" where
  "setup_library srand G lib = lib\<lparr>
     rand_state := srand 0,
     sail_lib_tmp1 := Some (mpz_init G),
     sail_lib_tmp2 := Some (mpz_init G),
     sail_lib_tmp3 := Some (mpz_init G),
     sail_lib_tmp_real := Some (0, 1),
     mpf_prec := 255\<rparr>"

definition cleanup_library :: "'r library \<Rightarrow> 'r library" where
  "cleanup_library lib = lib\<lparr>
     sail_lib_tmp1 := None,
     sail_lib_tmp2 := None,
     sail_lib_tmp3 := None,
     sail_lib_tmp_real := None\<rparr>"

definition setup_rts :: "(u32 \<Rightarrow> 'r) \<Rightarrow> gmp \<Rightarrow> 'r library \<times> rts \<Rightarrow> 'r library \<times> rts" where
  "setup_rts srand G = (\<lambda>(lib, st). let st = disable_tracing UNIT st in (setup_library srand G lib, st))"

definition cleanup_rts :: "'r library \<times> rts \<Rightarrow> 'r library \<times> rts" where
  "cleanup_rts = (\<lambda>(lib, st). let lib = cleanup_library lib in (lib, kill_mem st))"

section \<open>The cycle limit\<close>

text \<open>What one call does, and how a number of calls ends.\<close>

lemma cycle_count_step:
  assumes "g_cycle_limit st \<noteq> 0" "g_cycle_count st < g_cycle_limit st"
  shows "if unat (g_cycle_count st) + 1 < unat (g_cycle_limit st)
    then cycle_count u st = Inr (UNIT, st\<lparr>g_cycle_count := g_cycle_count st + 1\<rparr>)
    else \<exists>m. cycle_count u st = Inl (Exit_success m)"
proof -
  have "unat (g_cycle_count st + 1) = unat (g_cycle_count st) + 1"
    using assms(2) by (rule unat_Suc64)
  then show ?thesis
    using assms(1) by (auto simp: cycle_count_def cycle_limit_reached_def Let_def word_le_nat_alt word_less_nat_alt)
qed

fun cycles :: "nat \<Rightarrow> rts \<Rightarrow> rts res" where
  "cycles 0 st = Inr st"
| "cycles (Suc n) st = bind_res (cycle_count UNIT st) (\<lambda>(u, st). cycles n st)"

lemma cycles_limited:
  assumes "g_cycle_count st < g_cycle_limit st"
  shows "if unat (g_cycle_count st) + n < unat (g_cycle_limit st)
    then cycles n st = Inr (st\<lparr>g_cycle_count := g_cycle_count st + of_nat n\<rparr>)
    else \<exists>m. cycles n st = Inl (Exit_success m)"
  using assms
proof (induction n arbitrary: st)
  case 0
  then show ?case by (simp add: word_less_nat_alt)
next
  case (Suc n)
  have nz: "g_cycle_limit st \<noteq> 0" using Suc.prems by auto
  show ?case
  proof (cases "unat (g_cycle_count st) + 1 < unat (g_cycle_limit st)")
    case True
    define st1 where "st1 = st\<lparr>g_cycle_count := g_cycle_count st + 1\<rparr>"
    have c: "cycle_count UNIT st = Inr (UNIT, st1)"
      using cycle_count_step [OF nz Suc.prems] True by (simp add: st1_def)
    have u: "unat (g_cycle_count st1) = unat (g_cycle_count st) + 1"
      using unat_Suc64 [OF Suc.prems] by (simp add: st1_def)
    have "g_cycle_count st1 < g_cycle_limit st1" using True u by (simp add: word_less_nat_alt st1_def)
    have "g_cycle_limit st1 = g_cycle_limit st"
      and "st1\<lparr>g_cycle_count := g_cycle_count st1 + of_nat n\<rparr> = st\<lparr>g_cycle_count := g_cycle_count st + of_nat (Suc n)\<rparr>"
      by (simp_all add: st1_def ac_simps)
    with Suc.IH [OF \<open>g_cycle_count st1 < g_cycle_limit st1\<close>] show ?thesis by (simp add: c u)
  next
    case False
    then obtain m where "cycle_count UNIT st = Inl (Exit_success m)"
      using cycle_count_step [OF nz Suc.prems, of UNIT] by auto
    with False show ?thesis by simp
  qed
qed

lemma cycles_unlimited:
  "g_cycle_limit st = 0 \<Longrightarrow> cycles n st = Inr (st\<lparr>g_cycle_count := g_cycle_count st + of_nat n\<rparr>)"
  by (induction n arbitrary: st) (simp_all add: cycle_count_def cycle_limit_reached_def ac_simps)

end
