(* ===== verification/Rts_Args.thy ===== *)
theory Rts_Args
  imports Rts
begin

text \<open>
  The command line of the runtime: \<open>process_arguments\<close> of \<open>rts.c\<close>.
\<close>

section \<open>Command-line arguments\<close>

text \<open>
  \<open>getopt_long\<close> is the C library's: it gets the short options, the table of long options and the
  arguments, and delivers the options found, each with its argument when it has one.
\<close>

record option_entry =
  opt_name :: string
  has_arg :: bool
  opt_val :: char

definition options :: "option_entry list" where
  "options =
    [\<lparr>opt_name = ''binary'', has_arg = True, opt_val = CHR ''b''\<rparr>,
     \<lparr>opt_name = ''cyclelimit'', has_arg = True, opt_val = CHR ''l''\<rparr>,
     \<lparr>opt_name = ''config'', has_arg = True, opt_val = CHR ''C''\<rparr>,
     \<lparr>opt_name = ''elf'', has_arg = True, opt_val = CHR ''e''\<rparr>,
     \<lparr>opt_name = ''entry'', has_arg = True, opt_val = CHR ''n''\<rparr>,
     \<lparr>opt_name = ''image'', has_arg = True, opt_val = CHR ''i''\<rparr>,
     \<lparr>opt_name = ''verbosity'', has_arg = True, opt_val = CHR ''v''\<rparr>,
     \<lparr>opt_name = ''help'', has_arg = False, opt_val = CHR ''h''\<rparr>]"

type_synonym getopt = "string \<Rightarrow> option_entry list \<Rightarrow> string list \<Rightarrow> (char \<times> string option) list"

text \<open>
  With \<open>HAVE_SETCONFIG\<close> a flag goes to the functions \<open>z__SetConfig\<close> and \<open>z__ListConfig\<close> of the
  generated model.
\<close>

record setconfig =
  z_SetConfig :: "string \<Rightarrow> int \<Rightarrow> rts \<Rightarrow> rts res"
  z_ListConfig :: "sail_unit \<Rightarrow> rts \<Rightarrow> rts res"

text \<open>
  What the function takes from its surroundings: the GMP and zlib libraries, the files,
  \<open>getopt_long\<close>, the sizes \<open>getline\<close> chooses, the characters of the set \<open>[a-zA-Z0-9_-.]\<close> and
  the functions of the model, \<open>None\<close> when it is compiled without \<open>HAVE_SETCONFIG\<close>.
\<close>

record 'h host =
  host_gmp :: gmp
  host_zlib :: "'h zlib"
  host_files :: files
  host_getopt :: getopt
  host_getline :: "nat \<Rightarrow> nat \<Rightarrow> nat"
  host_scanset :: "char \<Rightarrow> bool"
  host_config :: "setconfig option"

definition tab :: string where
  "tab = [char_of (9::nat)]"

text \<open>The program ends here; what it prints is what was printed to \<open>stderr\<close> just before, then the usage.\<close>

definition print_usage :: "string \<Rightarrow> rts \<Rightarrow> 'a res" where
  "print_usage before st = Inl (Exit_success
     (before @ concat (map (\<lambda>opt. tab @ '' -'' @ [opt_val opt] @ tab @ '' '' @ opt_name opt @ newline) options)))"

text \<open>
  The argument of \<open>-C\<close>: \<open>%99[a-zA-Z0-9_-.]\<close> reads 1 to 99 characters of a set that depends on the
  C library (a parameter, \<open>scanset\<close>), then \<open>=0x\<close> and a hexadecimal number, or \<open>=\<close> and a decimal one.
  A number that does not fit its 64 bits is undefined.
\<close>

definition scan_flag :: "(char \<Rightarrow> bool) \<Rightarrow> string \<Rightarrow> string scan" where
  "scan_flag scanset s =
     (if s = [] then Input_end
      else let w = take 99 (takeWhile scanset s)
           in if w = [] then Mismatch else Matched w (drop (length w) s))"

definition scan_config :: "(char \<Rightarrow> bool) \<Rightarrow> string \<Rightarrow> string \<Rightarrow> (string \<Rightarrow> int scan) \<Rightarrow> (string \<times> int) scan" where
  "scan_config scanset sep s num =
     then_scan (scan_flag scanset s) (\<lambda>arg s.
     then_scan (scan_lit sep s) (\<lambda>_ s.
     then_scan (num s) (\<lambda>v s. Matched (arg, v) s)))"

definition fits_u64 :: "int \<Rightarrow> bool" where
  "fits_u64 v \<longleftrightarrow> - (2 ^ 64) < v \<and> v < 2 ^ 64"

definition fits_i64 :: "int \<Rightarrow> bool" where
  "fits_i64 v \<longleftrightarrow> - (2 ^ 63) \<le> v \<and> v < 2 ^ 63"

text \<open>A number after \<open>0x\<close>, as the \<open>-b\<close>, \<open>-n\<close> and \<open>-v\<close> options take it.\<close>

definition scan_0x :: "string \<Rightarrow> int scan" where
  "scan_0x s = then_scan (scan_lit ''0x'' s) (\<lambda>_. scan_hex)"

text \<open>
  \<open>%ms\<close> reads a word after white space. The scan of \<open>-b\<close> counts the conversions it made: 2 with
  both values, 1 when the file is missing, 0 on a mismatch and -1 at the end of the input.
\<close>

definition scan_word :: "string \<Rightarrow> string scan" where
  "scan_word s =
     (let s = dropWhile is_space s; w = takeWhile (\<lambda>c. \<not> is_space c) s
      in if s = [] then Input_end else Matched w (drop (length w) s))"

definition scan_binary :: "string \<Rightarrow> int \<times> int option \<times> string option" where
  "scan_binary s =
     (case scan_0x s of
        Matched a t \<Rightarrow>
          (case then_scan (scan_lit '','' t) (\<lambda>_. scan_word) of
             Matched f _ \<Rightarrow> (2, Some a, Some f)
           | _ \<Rightarrow> (1, Some a, None))
      | Mismatch \<Rightarrow> (0, None, None)
      | Input_end \<Rightarrow> (- 1, None, None))"

text \<open>
  The switch. The local state of the function is \<open>elf_entry_set\<close> and \<open>elf_entry\<close>, \<open>None\<close> as long as
  it has no value. A step goes on with the next option, or returns.
\<close>

record arg_state =
  elf_entry_set :: bool
  entry_arg :: "u64 option"

datatype arg_step = Next_option arg_state rts | Return int rts

definition parse_failure :: "string \<Rightarrow> string \<Rightarrow> rts \<Rightarrow> arg_step" where
  "parse_failure what optarg st = Return (- 1) (put_err (what @ optarg @ newline) st)"

definition set_flag :: "'h host \<Rightarrow> string \<Rightarrow> string \<Rightarrow> u64 \<Rightarrow> arg_state \<Rightarrow> rts \<Rightarrow> arg_step res" where
  "set_flag E optarg flag value a st =
     (case host_config E of
        Some C \<Rightarrow>
          let s_value = mpz_set_ui (host_gmp E) value
          in bind_res (z_SetConfig C flag s_value st) (\<lambda>st. Inr (Next_option a st))
      | None \<Rightarrow> Inr (Next_option a (put_err (''Ignoring flag -C '' @ optarg) st)))"

definition list_flags :: "'h host \<Rightarrow> string \<Rightarrow> rts \<Rightarrow> arg_step res" where
  "list_flags E optarg st =
     (let st = put_err (''Could not parse argument '' @ optarg @ newline) st
      in case host_config E of
           Some C \<Rightarrow> bind_res (z_ListConfig C UNIT st) (\<lambda>st. Inr (Return (- 1) st))
         | None \<Rightarrow> Inr (Return (- 1) st))"

definition arg_config :: "'h host \<Rightarrow> string \<Rightarrow> arg_state \<Rightarrow> rts \<Rightarrow> arg_step res" where
  "arg_config E optarg a st =
     (case scan_config (host_scanset E) ''=0x'' optarg scan_hex of
        Matched v _ \<Rightarrow> check (fits_u64 (snd v)) Undefined_behaviour (set_flag E optarg (fst v) (word_of_int (snd v)) a st)
      | _ \<Rightarrow>
          (case scan_config (host_scanset E) ''='' optarg scan_dec of
             Matched v _ \<Rightarrow> check (fits_i64 (snd v)) Undefined_behaviour (set_flag E optarg (fst v) (word_of_int (snd v)) a st)
           | _ \<Rightarrow> list_flags E optarg st))"

definition arg_binary :: "'h host \<Rightarrow> string \<Rightarrow> arg_state \<Rightarrow> rts \<Rightarrow> arg_step res" where
  "arg_binary E optarg a st =
     (case scan_binary optarg of
        (n, addr, file) \<Rightarrow>
          if n = 0 then Inr (parse_failure ''Could not parse argument '' optarg st)
          else case (addr, file) of
                 (Some v, Some f) \<Rightarrow>
                   check (fits_u64 v) Undefined_behaviour
                     (bind_res (load_raw (host_files E) (word_of_int v) f st) (\<lambda>st. Inr (Next_option a st)))
               | _ \<Rightarrow> Inl Undefined_behaviour)"

definition arg_entry :: "string \<Rightarrow> arg_state \<Rightarrow> rts \<Rightarrow> arg_step res" where
  "arg_entry optarg a st =
     (case scan_0x optarg of
        Matched v _ \<Rightarrow>
          check (fits_u64 v) Undefined_behaviour
            (Inr (Next_option \<lparr>elf_entry_set = True, entry_arg = Some (word_of_int v)\<rparr> st))
      | Mismatch \<Rightarrow> Inr (parse_failure ''Could not parse address '' optarg st)
      | Input_end \<Rightarrow> Inr (Next_option (a\<lparr>elf_entry_set := True\<rparr>) st))"

definition arg_limit :: "string \<Rightarrow> arg_state \<Rightarrow> rts \<Rightarrow> arg_step res" where
  "arg_limit optarg a st =
     (case scan_dec optarg of
        Matched v _ \<Rightarrow>
          check (fits_i64 v) Undefined_behaviour (Inr (Next_option a (st\<lparr>g_cycle_limit := word_of_int v\<rparr>)))
      | Mismatch \<Rightarrow> Inr (parse_failure ''Could not parse cycle limit '' optarg st)
      | Input_end \<Rightarrow> Inr (Next_option a st))"

definition arg_verbosity :: "string \<Rightarrow> arg_state \<Rightarrow> rts \<Rightarrow> arg_step res" where
  "arg_verbosity optarg a st =
     (case scan_0x optarg of
        Matched v _ \<Rightarrow>
          check (fits_u64 v) Undefined_behaviour (Inr (Next_option a (st\<lparr>g_verbosity := word_of_int v\<rparr>)))
      | Mismatch \<Rightarrow> Inr (parse_failure ''Could not parse verbosity flags '' optarg st)
      | Input_end \<Rightarrow> Inr (Next_option a st))"

text \<open>
  An option that needs an argument has one, or \<open>getopt_long\<close> reports \<open>?\<close>. The default branch
  prints its argument as a string, which is undefined for a null pointer, then the usage.
\<close>

definition process_option ::
  "'h host \<Rightarrow> char \<Rightarrow> string option \<Rightarrow> arg_state \<Rightarrow> rts \<Rightarrow> arg_step res" where
  "process_option E c optarg a st =
     (let arg = (case optarg of None \<Rightarrow> [] | Some s \<Rightarrow> s)
      in if c = CHR ''C'' then arg_config E arg a st
         else if c = CHR ''b'' then arg_binary E arg a st
         else if c = CHR ''i'' then bind_res (load_image (host_files E) (host_getline E) arg st) (\<lambda>st. Inr (Next_option a st))
         else if c = CHR ''e'' then bind_res (load_elf (host_zlib E) arg st) (\<lambda>(st, _, _). Inr (Next_option a st))
         else if c = CHR ''n'' then arg_entry arg a st
         else if c = CHR ''l'' then arg_limit arg a st
         else if c = CHR ''v'' then arg_verbosity arg a st
         else if c = CHR ''h'' then print_usage [] st
         else check (optarg \<noteq> None) Undefined_behaviour (print_usage (''Unrecognized option '' @ arg @ newline) st))"

text \<open>The loop, its end and the deferred assignment of the entry point.\<close>

definition finish_arguments :: "arg_state \<Rightarrow> rts \<Rightarrow> (int \<times> rts) res" where
  "finish_arguments a st =
     (if elf_entry_set a
      then bind_res (of_option Undefined_behaviour (entry_arg a)) (\<lambda>e. Inr (0, st\<lparr>g_elf_entry := e\<rparr>))
      else Inr (0, st))"

fun process_options ::
  "'h host \<Rightarrow> (char \<times> string option) list \<Rightarrow> arg_state \<Rightarrow> rts \<Rightarrow> (int \<times> rts) res" where
  "process_options E [] a st = finish_arguments a st"
| "process_options E ((c, optarg) # opts) a st =
     bind_res (process_option E c optarg a st) (\<lambda>r.
       case r of
         Return ret st \<Rightarrow> Inr (ret, st)
       | Next_option a st \<Rightarrow> process_options E opts a st)"

definition process_arguments ::
  "'h host \<Rightarrow> string list \<Rightarrow> rts \<Rightarrow> (int \<times> rts) res" where
  "process_arguments E argv st =
     process_options E (host_getopt E ''e:n:i:b:l:C:h'' options argv)
       \<lparr>elf_entry_set = False, entry_arg = None\<rparr> st"

section \<open>What the options do\<close>

text \<open>The value the \<open>-n\<close> options leave in \<open>elf_entry\<close>: the last one that carries a number.\<close>

definition last_entry :: "(char \<times> string option) list \<Rightarrow> u64 option \<Rightarrow> u64 option" where
  "last_entry opts e0 = fold (\<lambda>(c, arg) e.
     if c = CHR ''n'' then (case scan_0x (case arg of None \<Rightarrow> [] | Some s \<Rightarrow> s) of Matched v s \<Rightarrow> Some (word_of_int v) | _ \<Rightarrow> e) else e) opts e0"

text \<open>One option that lets the loop go on, apart from \<open>-i\<close>, keeps the entry point of the state.\<close>

definition config_keeps_entry :: "'h host \<Rightarrow> bool" where
  "config_keeps_entry E \<longleftrightarrow> (\<forall>C f v st st'. host_config E = Some C \<longrightarrow> z_SetConfig C f v st = Inr st' \<longrightarrow>
     g_elf_entry st' = g_elf_entry st)"

lemma option_step:
  assumes "config_keeps_entry E" "process_option E c arg a st = Inr (Next_option a' st')"
  shows "(c \<noteq> CHR ''i'' \<longrightarrow> g_elf_entry st' = g_elf_entry st) \<and>
    entry_arg a' = last_entry [(c, arg)] (entry_arg a) \<and>
    (elf_entry_set a' \<longleftrightarrow> elf_entry_set a \<or> c = CHR ''n'')"
proof (cases "c \<in> set ''Cbielnvh''")
  case True
  then consider "c = CHR ''C''" | "c = CHR ''b''" | "c = CHR ''i''" | "c = CHR ''e''"
    | "c = CHR ''n''" | "c = CHR ''l''" | "c = CHR ''v''" | "c = CHR ''h''" by auto
  then show ?thesis
  proof cases
    case 1
    with assms show ?thesis
      by (auto simp: process_option_def arg_config_def set_flag_def list_flags_def config_keeps_entry_def last_entry_def
          Let_def put_err_def bind_res_Inr_iff check_def split: scan.splits option.splits if_splits)
  next
    case 2
    with assms show ?thesis
      by (auto simp: process_option_def arg_binary_def parse_failure_def last_entry_def Let_def bind_res_Inr_iff
          split: option.splits prod.splits if_splits dest!: load_raw_frame same_registers_fields)
  next
    case 3
    with assms show ?thesis
      by (auto simp: process_option_def last_entry_def Let_def bind_res_Inr_iff)
  next
    case 4
    with assms show ?thesis
      by (auto simp: process_option_def last_entry_def Let_def bind_res_Inr_iff
          dest!: load_elf_frame same_registers_fields)
  next
    case 5
    with assms show ?thesis
      by (auto simp: process_option_def arg_entry_def parse_failure_def last_entry_def Let_def
          split: scan.splits option.splits)
  next
    case 6
    with assms show ?thesis
      by (auto simp: process_option_def arg_limit_def parse_failure_def last_entry_def Let_def
          split: scan.splits option.splits)
  next
    case 7
    with assms show ?thesis
      by (auto simp: process_option_def arg_verbosity_def parse_failure_def last_entry_def Let_def
          split: scan.splits option.splits)
  qed (use assms in \<open>simp add: process_option_def print_usage_def\<close>)
qed (use assms in \<open>auto simp: process_option_def print_usage_def\<close>)

lemma option_return:
  "process_option E c arg a st = Inr (Return r st') \<Longrightarrow> r = - 1"
  by (auto simp: process_option_def arg_config_def set_flag_def list_flags_def check_def arg_binary_def arg_entry_def arg_limit_def arg_verbosity_def
      print_usage_def parse_failure_def Let_def bind_res_Inr_iff split: if_split_asm scan.split_asm option.split_asm prod.split_asm)

lemma last_entry_Cons: "last_entry ((c, arg) # opts) e = last_entry opts (last_entry [(c, arg)] e)"
  by (simp add: last_entry_def)

lemma process_options_entry:
  assumes "config_keeps_entry E" "process_options E opts a st = Inr (0, st')"
  shows "if elf_entry_set a \<or> CHR ''n'' \<in> fst ` set opts
    then last_entry opts (entry_arg a) = Some (g_elf_entry st')
    else CHR ''i'' \<notin> fst ` set opts \<longrightarrow> g_elf_entry st' = g_elf_entry st"
  using assms(2)
proof (induction opts arbitrary: a st)
  case Nil
  then show ?case
    by (auto simp: finish_arguments_def last_entry_def of_option_def bind_res_Inr_iff split: if_splits option.splits)
next
  case (Cons o' opts)
  obtain c arg where o': "o' = (c, arg)" by fastforce
  with Cons.prems obtain x where x: "process_option E c arg a st = Inr x"
      "(case x of Return ret st \<Rightarrow> Inr (ret, st) | Next_option a st \<Rightarrow> process_options E opts a st) = Inr (0, st')"
    by (auto simp: bind_res_Inr_iff)
  then obtain a1 st1 where step: "process_option E c arg a st = Inr (Next_option a1 st1)"
      "process_options E opts a1 st1 = Inr (0, st')"
    by (cases x) (auto dest: option_return)
  from Cons.IH [OF step(2)] option_step [OF assms(1) step(1)] show ?case
    by (auto simp: o' last_entry_Cons [of c arg opts] split: if_splits)
qed

text \<open>A surrounding in which \<open>getopt_long\<close> delivers given options.\<close>

definition host_of :: "files \<Rightarrow> (char \<times> string option) list \<Rightarrow> (u8 list \<times> bool) host" where
  "host_of fs opts = \<lparr>
     host_gmp = gmp_ref, host_zlib = zlib_ref fs, host_files = fs, host_getopt = (\<lambda>shorts longs argv. opts),
     host_getline = (\<lambda>n k. max 120 k),
     host_scanset = (\<lambda>c. is_digit c \<or> c \<in> set ''abcdefghijklmnopqrstuvwxyzABCDEFGHIJKLMNOPQRSTUVWXYZ_-.''),
     host_config = None\<rparr>"

lemma host_of_keeps_entry: "config_keeps_entry (host_of fs opts)"
  by (simp add: config_keeps_entry_def host_of_def)

end
