(* ===== verification/Rts_Run.thy ===== *)
theory Rts_Run
  imports Rts
begin

text \<open>
  How the operations of the runtime behave in sequence: a step relation over the calls an emulated
  program makes, an abstract machine it refines, call traces, and image files.
\<close>

section \<open>Runs of the runtime\<close>

datatype rts_op =
    Write_byte u64 u64
  | Write_tag u64 bool
  | Tick
  | Sleep
  | Wake
  | Trace_on
  | Trace_off
  | Call string
  | Ret

inductive rts_step :: "rts \<Rightarrow> rts_op \<Rightarrow> rts \<Rightarrow> bool" where
  step_write: "write_mem a v st = Inr st' \<Longrightarrow> rts_step st (Write_byte a v) st'"
| step_tag: "write_tag_bool a b st = Inr st' \<Longrightarrow> rts_step st (Write_tag a b) st'"
| step_tick: "cycle_count UNIT st = Inr (UNIT, st') \<Longrightarrow> rts_step st Tick st'"
| step_sleep: "rts_step st Sleep (sleep_request UNIT st)"
| step_wake: "rts_step st Wake (wakeup_request UNIT st)"
| step_trace_on: "rts_step st Trace_on (enable_tracing UNIT st)"
| step_trace_off: "rts_step st Trace_off (disable_tracing UNIT st)"
| step_call: "trace_start name st = Inr st' \<Longrightarrow> rts_step st (Call name) st'"
| step_ret: "trace_end st = Inr st' \<Longrightarrow> rts_step st Ret st'"

inductive_simps rts_step_simps [simp]:
  "rts_step st (Write_byte a v) st'" "rts_step st (Write_tag a b) st'" "rts_step st Tick st'"
  "rts_step st Sleep st'" "rts_step st Wake st'" "rts_step st Trace_on st'" "rts_step st Trace_off st'"
  "rts_step st (Call name) st'" "rts_step st Ret st'"

inductive rts_run :: "rts \<Rightarrow> rts_op list \<Rightarrow> rts \<Rightarrow> bool" where
  run_nil: "rts_run st [] st"
| run_snoc: "rts_run st ops st' \<Longrightarrow> rts_step st' op st'' \<Longrightarrow> rts_run st (ops @ [op]) st''"

inductive_cases rts_run_snocE: "rts_run st (ops @ [op]) st''"

section \<open>The abstract machine\<close>

text \<open>
  What a program sees of the runtime: a byte and a tag for every address, whether the processor
  sleeps, the cycles counted, and the depth of the trace.
\<close>

record machine =
  m_byte :: "u64 \<Rightarrow> u64"
  m_tag :: "u64 \<Rightarrow> bool"
  m_sleeping :: bool
  m_cycles :: u64
  m_tracing :: bool
  m_depth :: int

fun machine_step :: "rts_op \<Rightarrow> machine \<Rightarrow> machine" where
  "machine_step (Write_byte a v) m = m\<lparr>m_byte := (m_byte m)(a := v AND 0xFF)\<rparr>"
| "machine_step (Write_tag a b) m = m\<lparr>m_tag := (m_tag m)(a := b)\<rparr>"
| "machine_step Tick m = m\<lparr>m_cycles := m_cycles m + 1\<rparr>"
| "machine_step Sleep m = m\<lparr>m_sleeping := True\<rparr>"
| "machine_step Wake m = m\<lparr>m_sleeping := False\<rparr>"
| "machine_step Trace_on m = m\<lparr>m_tracing := True, m_depth := 0\<rparr>"
| "machine_step Trace_off m = m\<lparr>m_tracing := False, m_depth := 0\<rparr>"
| "machine_step (Call name) m = (if m_tracing m then m\<lparr>m_depth := m_depth m + 1\<rparr> else m)"
| "machine_step Ret m = (if m_tracing m then m\<lparr>m_depth := m_depth m - 1\<rparr> else m)"

definition tag_at :: "rts \<Rightarrow> u64 \<Rightarrow> bool" where
  "tag_at st a = (case read_tag_bool a st of Inl e \<Rightarrow> False | Inr b \<Rightarrow> b)"

definition machine_of :: "rts \<Rightarrow> machine" where
  "machine_of st = \<lparr>m_byte = byte_at st, m_tag = tag_at st, m_sleeping = sleeping UNIT st,
     m_cycles = g_cycle_count st, m_tracing = is_tracing UNIT st, m_depth = sint (g_trace_depth st)\<rparr>"

text \<open>What does not change either list of blocks changes no cell.\<close>

lemma byte_at_cong: "sail_memory st' = sail_memory st \<Longrightarrow> byte_at st' = byte_at st"
  by (rule ext) (simp add: byte_at_def read_mem_def)

lemma tag_at_cong: "sail_tags st' = sail_tags st \<Longrightarrow> tag_at st' = tag_at st"
  by (rule ext) (simp add: tag_at_def read_tag_bool_def)

lemma wf_rts_cong: "sail_memory st' = sail_memory st \<Longrightarrow> sail_tags st' = sail_tags st \<Longrightarrow> wf_rts st' = wf_rts st"
  by (simp add: wf_rts_def)

lemmas rts_congs = byte_at_cong tag_at_cong wf_rts_cong

text \<open>The other variables after a write of a tag.\<close>

lemma write_tag_frame:
  "write_tag_bool a b st = Inr st' \<Longrightarrow>
   st' = st\<lparr>err_text := err_text st', sail_tags := sail_tags st'\<rparr>"
  by (auto simp: write_tag_bool_def Let_def bind_res_Inr_iff put_err_def split: option.splits)

lemma sint_Suc: "sint d < 2 ^ 63 - 1 \<Longrightarrow> sint (d + 1) = sint d + 1" for d :: i64
  using signed_take_bit_int_eq_self [of 63 "sint d + 1"] sint_ge [of d] by (simp add: sint_word_ariths)

lemma sint_pred: "- (2 ^ 63) < sint d \<Longrightarrow> sint (d - 1) = sint d - 1" for d :: i64
  using signed_take_bit_int_eq_self [of 63 "sint d - 1"] sint_lt [of d] by (simp add: sint_word_ariths)

lemma step_refines:
  assumes "rts_step st op st'" "wf_rts st"
  shows "wf_rts st' \<and> machine_of st' = machine_step op (machine_of st) \<and> g_cycle_limit st' = g_cycle_limit st"
  using assms(1)
proof cases
  case (step_write a v)
  have "byte_at st' = (byte_at st)(a := v AND 0xFF)"
    using mem.rd_wr [OF assms(2) step_write(2)] by (auto simp: byte_at_def fun_eq_iff)
  moreover have "wf_rts st'" using mem.wr_total [OF assms(2), of a v] step_write(2) by auto
  moreover have "st' = st\<lparr>err_text := err_text st', sail_memory := sail_memory st'\<rparr>"
    using write_mem_frame [OF step_write(2)] by (simp add: same_registers_def)
  ultimately show ?thesis
    by (cases st; cases st') (auto simp: machine_of_def step_write(1) sleeping_def is_tracing_def intro: tag_at_cong)
next
  case (step_tag a b)
  have "tag_at st' = (tag_at st)(a := b)"
    using tags.rd_wr [OF assms(2) step_tag(2)] by (auto simp: tag_at_def fun_eq_iff)
  moreover have "wf_rts st'" using tags.wr_total [OF assms(2), of a b] step_tag(2) by auto
  moreover note write_tag_frame [OF step_tag(2)]
  ultimately show ?thesis
    by (cases st; cases st') (auto simp: machine_of_def step_tag(1) sleeping_def is_tracing_def intro: byte_at_cong)
next
  case step_tick
  then show ?thesis using assms(2)
    by (auto simp: cycle_count_def cycle_limit_reached_def Let_def machine_of_def sleeping_def is_tracing_def
        split: if_splits intro!: rts_congs cong: wf_rts_cong)
next
  case (step_call name)
  then show ?thesis using assms(2)
    by (auto simp: trace_start_def Let_def machine_of_def sleeping_def is_tracing_def put_err_def sint_Suc
        split: if_splits intro!: rts_congs cong: wf_rts_cong)
next
  case step_ret
  then show ?thesis using assms(2)
    by (auto simp: trace_end_def Let_def machine_of_def sleeping_def is_tracing_def put_err_def sint_pred
        split: if_splits intro!: rts_congs cong: wf_rts_cong)
qed (use assms(2) in \<open>auto simp: sleep_request_def wakeup_request_def enable_tracing_def disable_tracing_def
    machine_of_def sleeping_def is_tracing_def put_err_def intro!: rts_congs cong: wf_rts_cong\<close>)

text \<open>The runtime refines the machine, whatever the order of the operations.\<close>

lemma run_refines:
  assumes "rts_run st ops st'" "wf_rts st"
  shows "wf_rts st' \<and> machine_of st' = fold machine_step ops (machine_of st) \<and> g_cycle_limit st' = g_cycle_limit st"
  using assms
proof (induction rule: rts_run.induct)
  case (run_snoc st ops st' op st'')
  then show ?case using step_refines by simp
qed simp

text \<open>And no operation is ever stuck, except a tick at the limit and a trace too deep.\<close>

fun enabled :: "rts_op \<Rightarrow> rts \<Rightarrow> bool" where
  "enabled Tick st = (g_cycle_limit st \<noteq> 0 \<longrightarrow> g_cycle_count st + 1 < g_cycle_limit st)"
| "enabled (Call name) st = (g_trace_enabled st \<longrightarrow> sint (g_trace_depth st) < 2 ^ 63 - 1)"
| "enabled Ret st = (g_trace_enabled st \<longrightarrow> - (2 ^ 63) < sint (g_trace_depth st))"
| "enabled op st = True"

lemma put_err_fields:
  "g_trace_enabled (put_err s st) = g_trace_enabled st" "g_trace_depth (put_err s st) = g_trace_depth st"
  "(put_err s st)\<lparr>g_trace_depth := d\<rparr> = put_err s (st\<lparr>g_trace_depth := d\<rparr>)"
  by (simp_all add: put_err_def)

lemma step_enabled:
  assumes "wf_rts st"
  shows "(\<exists>st'. rts_step st op st') \<longleftrightarrow> enabled op st"
proof -
  have "\<exists>st'. write_mem a v st = Inr st'" "\<exists>st'. write_tag_bool a b st = Inr st'" for a v b
    using mem.wr_total [OF assms] tags.wr_total [OF assms] by blast+
  then show ?thesis
    by (cases op) (auto simp: cycle_count_def cycle_limit_reached_def trace_start_def trace_end_def Let_def
        not_le put_err_fields)
qed

definition ticks :: "rts_op list \<Rightarrow> nat" where
  "ticks ops = length (filter (\<lambda>op. op = Tick) ops)"

text \<open>With a limit, a run never counts up to it, so the count never wraps.\<close>

lemma run_below_limit:
  assumes "rts_run st ops st'" "wf_rts st" "g_cycle_count st < g_cycle_limit st"
  shows "g_cycle_limit st' = g_cycle_limit st \<and> g_cycle_count st' < g_cycle_limit st \<and>
    unat (g_cycle_count st') = unat (g_cycle_count st) + ticks ops"
  using assms
proof (induction rule: rts_run.induct)
  case (run_nil st)
  then show ?case by (simp add: ticks_def)
next
  case (run_snoc st ops st' op st'')
  then have IH: "g_cycle_limit st' = g_cycle_limit st" "g_cycle_count st' < g_cycle_limit st"
    "unat (g_cycle_count st') = unat (g_cycle_count st) + ticks ops" by auto
  have wf: "wf_rts st'" using run_refines run_snoc by blast
  show ?case
  proof (cases "op = Tick")
    case True
    then have t: "cycle_count UNIT st' = Inr (UNIT, st'')" using run_snoc by simp
    have "g_cycle_limit st' \<noteq> 0" using IH by auto
    from cycle_count_step [OF this, of UNIT] t IH have
      "unat (g_cycle_count st') + 1 < unat (g_cycle_limit st)" "st'' = st'\<lparr>g_cycle_count := g_cycle_count st' + 1\<rparr>"
      by (auto split: if_splits)
    then show ?thesis
      using IH unat_Suc64 [OF IH(2)] True by (simp add: ticks_def word_less_nat_alt)
  next
    case False
    from step_refines [OF run_snoc.hyps(2) wf] have "machine_of st'' = machine_step op (machine_of st')"
      "g_cycle_limit st'' = g_cycle_limit st'" by auto
    then have "m_cycles (machine_of st'') = m_cycles (machine_step op (machine_of st'))" by simp
    also have "\<dots> = m_cycles (machine_of st')" using False by (cases op) auto
    finally show ?thesis using IH \<open>g_cycle_limit st'' = g_cycle_limit st'\<close> False
      by (simp add: machine_of_def ticks_def)
  qed
qed

section \<open>Traces of nested calls\<close>

text \<open>
  A traced function prints its name and arguments, runs its body, and prints its result; the
  emitted code calls the trace functions in this order.
\<close>

datatype call_tree = Call_tree string "call_tree list"

fun trace_tree :: "call_tree \<Rightarrow> rts \<Rightarrow> rts res" and trace_trees :: "call_tree list \<Rightarrow> rts \<Rightarrow> rts res" where
  "trace_tree (Call_tree name body) st =
     bind_res (trace_start name st) (\<lambda>st.
     bind_res (trace_trees body (trace_argend st)) (\<lambda>st.
     bind_res (trace_end st) (\<lambda>st. Inr (trace_retend st))))"
| "trace_trees [] st = Inr st"
| "trace_trees (t # ts) st = bind_res (trace_tree t st) (trace_trees ts)"

fun render :: "nat \<Rightarrow> call_tree \<Rightarrow> string" where
  "render d (Call_tree name body) =
     ''[TRACE] '' @ concat (replicate d ''|   '') @ name @ ''('' @ '')'' @ newline @
     concat (map (render (d + 1)) body) @
     ''[TRACE] '' @ concat (replicate (d + 1) ''|   '') @ newline"

fun height :: "call_tree \<Rightarrow> nat" where
  "height (Call_tree name body) = 1 + Max (set (0 # map height body))"

lemma height_child: "t \<in> set body \<Longrightarrow> height t < height (Call_tree name body)"
  by (auto simp: Max_insert2 less_Suc_eq_le intro: Max_ge)

lemma put_err_put_err: "put_err t (put_err s st) = put_err (s @ t) st"
  by (simp add: put_err_def)

lemma nat_1_add: "nat (1 + int d) = Suc d"
  by simp

lemma trace_tree_prints:
  "g_trace_enabled st \<Longrightarrow> sint (g_trace_depth st) = int d \<Longrightarrow> int d + int (height t) < 2 ^ 63 \<Longrightarrow>
   trace_tree t st = Inr (put_err (render d t) st)"
  "g_trace_enabled st \<Longrightarrow> sint (g_trace_depth st) = int d \<Longrightarrow> \<forall>t \<in> set ts. int d + int (height t) < 2 ^ 63 \<Longrightarrow>
   trace_trees ts st = Inr (put_err (concat (map (render d) ts)) st)"
proof (induction t st and ts st arbitrary: d and d rule: trace_tree_trace_trees.induct)
  case (1 name body st)
  define st1 where "st1 = st\<lparr>g_trace_depth := g_trace_depth st + 1\<rparr>"
  have d1: "sint (g_trace_depth st1) = int (d + 1)"
    using "1.prems" sint_Suc [of "g_trace_depth st"] by (simp add: st1_def)
  have start: "trace_start name st =
      Inr (put_err (''[TRACE] '' @ concat (replicate d ''|   '') @ name @ ''('') st1)"
    using "1.prems" by (simp add: trace_start_def trace_indent_def Let_def put_err_put_err put_err_fields st1_def)
  define hd where "hd = ''[TRACE] '' @ concat (replicate d ''|   '') @ name @ ''('' @ '')'' @ newline"
  have on: "g_trace_enabled st1" using "1.prems" by (simp add: st1_def)
  have arg: "trace_argend (put_err (''[TRACE] '' @ concat (replicate d ''|   '') @ name @ ''('') st1) = put_err hd st1"
    using on by (simp add: trace_argend_def put_err_put_err put_err_fields hd_def)
  have "\<forall>t \<in> set body. int (d + 1) + int (height t) < 2 ^ 63"
    using "1.prems"(3) height_child [of _ body name] by fastforce
  then have body: "trace_trees body (put_err hd st1) =
      Inr (put_err (concat (map (render (d + 1)) body)) (put_err hd st1))"
    using "1.IH" [of "put_err (''[TRACE] '' @ concat (replicate d ''|   '') @ name @ ''('') st1" "d + 1",
        unfolded arg put_err_fields, OF on d1] by blast
  have "sint (g_trace_depth st1 - 1) = int d" "st1\<lparr>g_trace_depth := g_trace_depth st1 - 1\<rparr> = st"
    using sint_pred [of "g_trace_depth st1"] d1 by (simp_all add: st1_def)
  then show ?case
    using on d1 "1.prems"(1)
    unfolding trace_tree.simps start bind_res_simps arg body
    by (simp add: trace_end_def trace_retend_def trace_indent_def Let_def put_err_put_err put_err_fields hd_def nat_1_add)
next
  case (2 st)
  then show ?case by (simp add: put_err_def)
next
  case (3 t ts st)
  then show ?case by (simp add: put_err_fields put_err_put_err)
qed

section \<open>Image files\<close>

text \<open>
  The contents of an image: bytes with their addresses, and the entry point; and the text of the
  file, two lines each.
\<close>

datatype image_item = Image_byte nat nat | Image_entry nat

fun image_text :: "image_item list \<Rightarrow> string" where
  "image_text [] = []"
| "image_text (Image_byte a d # items) = dec_of_nat a @ newline @ dec_of_nat d @ newline @ image_text items"
| "image_text (Image_entry e # items) = ''elf_entry'' @ newline @ dec_of_nat e @ newline @ image_text items"

fun image_valid :: "image_item \<Rightarrow> bool" where
  "image_valid (Image_byte a d) \<longleftrightarrow> a < 2 ^ 63 \<and> d < 2 ^ 63"
| "image_valid (Image_entry e) \<longleftrightarrow> e < 2 ^ 64"

fun image_word :: "image_item \<Rightarrow> bool" where
  "image_word (Image_byte a d) \<longleftrightarrow> a < 2 ^ 64 \<and> d < 2 ^ 64"
| "image_word (Image_entry e) \<longleftrightarrow> e < 2 ^ 64"

fun load_items :: "image_item list \<Rightarrow> rts \<Rightarrow> rts res" where
  "load_items [] st = Inr st"
| "load_items (Image_byte a d # items) st = bind_res (write_mem (of_nat a) (of_nat d) st) (load_items items)"
| "load_items (Image_entry e # items) st =
     load_items items (put_err (''[Sail] Elf entry point: '' @ hex_of_nat e @ newline) (st\<lparr>g_elf_entry := of_nat e\<rparr>))"

lemma length_dec_of_nat: "n < 10 ^ k \<Longrightarrow> 0 < k \<Longrightarrow> length (dec_of_nat n) \<le> k"
  using padded_digits [of 10 k n] by (simp add: dec_of_nat_def)

definition no_zero_or_newline :: "string \<Rightarrow> bool" where
  "no_zero_or_newline s \<longleftrightarrow> char_of (10::nat) \<notin> set s \<and> char_of (0::nat) \<notin> set s"

lemma digit_not_special: "is_digit c \<Longrightarrow> c \<noteq> char_of (10::nat) \<and> c \<noteq> char_of (0::nat)"
  by (auto simp: is_digit_def)

lemma dec_of_nat_clean: "no_zero_or_newline (dec_of_nat n)"
  using dec_of_nat_digits [of n] digit_not_special by (auto simp: no_zero_or_newline_def list_all_iff)

lemma getline_text:
  assumes "no_zero_or_newline w"
  shows "getline alloc cap n (w @ newline @ rest) =
    (if cap = 0 then Inr (Some (w @ newline, rest, alloc 0 (length w + 2), alloc 0 (length w + 2)))
     else if length w + 2 \<le> n then check (length w + 2 \<le> cap) Out_of_bounds (Inr (Some (w @ newline, rest, cap, n)))
     else Inr (Some (w @ newline, rest, alloc n (length w + 2), alloc n (length w + 2))))"
proof -
  have t: "takeWhile (\<lambda>c. c \<noteq> char_of (10::nat)) (w @ newline @ rest) = w"
    "dropWhile (\<lambda>c. c \<noteq> char_of (10::nat)) (w @ newline @ rest) = newline @ rest"
    using assms by (auto simp: no_zero_or_newline_def newline_def takeWhile_append dropWhile_append)
  have l: "w @ take 1 (newline @ rest) = w @ newline" "drop (length (w @ newline)) (w @ newline @ rest) = rest"
    "length (w @ newline) + 1 = length w + 2" "w @ newline @ rest \<noteq> []"
    by (simp_all add: newline_def)
  show ?thesis
    unfolding getline_def Let_def t l if_not_P [OF l(4)] by simp
qed

lemma getline_clean:
  assumes "no_zero_or_newline w" "cap \<noteq> 0 \<Longrightarrow> length w + 2 \<le> n \<and> length w + 2 \<le> cap"
  shows "getline alloc cap n (w @ newline @ rest) =
    Inr (Some (w @ newline, rest, if cap = 0 then alloc 0 (length w + 2) else cap, if cap = 0 then alloc 0 (length w + 2) else n))"
  using assms by (auto simp: getline_text)

lemma c_str_clean: "no_zero_or_newline w \<Longrightarrow> c_str (w @ newline) = w @ newline"
  by (auto simp: c_str_def no_zero_or_newline_def newline_def takeWhile_append)

lemma newline_not_digit: "\<not> is_digit (char_of (10::nat))"
  by (simp add: is_digit_def)

lemma dec_of_nat_word:
  obtains c cs where "dec_of_nat n = c # cs" "is_digit c"
  using dec_of_nat_digits [of n] by (cases "dec_of_nat n") auto

lemma takeWhile_digits: "list_all is_digit ds \<Longrightarrow> takeWhile is_digit (ds @ newline) = ds"
  by (auto simp: newline_def newline_not_digit list_all_iff takeWhile_append)

lemma scan_sign_digit: "is_digit c \<Longrightarrow> scan_sign (c # cs) = (False, c # cs)"
  by (auto simp: scan_sign_def is_digit_def)

lemma scan_start:
  "dropWhile is_space (dec_of_nat n @ newline) = dec_of_nat n @ newline"
  "scan_sign (dec_of_nat n @ newline) = (False, dec_of_nat n @ newline)"
  "dec_of_nat n @ newline \<noteq> []"
  by (rule dec_of_nat_word [of n], simp add: is_digit_not_space scan_sign_digit)+

lemma atoll_dec: "n < 2 ^ 63 \<Longrightarrow> atoll (dec_of_nat n @ newline) = Inr (of_nat n)"
  using dec_of_nat_digits [of n] by (simp add: atoll_def Let_def scan_start takeWhile_digits)

lemma scan_dec_dec: "\<exists>s. scan_dec (dec_of_nat n @ newline) = Matched (int n) s"
  using dec_of_nat_digits [of n] by (simp add: scan_dec_def Let_def scan_start takeWhile_digits)

lemma image_pair_byte:
  assumes "a < 2 ^ 63" "d < 2 ^ 63"
  shows "image_pair (dec_of_nat a @ newline) (dec_of_nat d @ newline) st = write_mem (of_nat a) (of_nat d) st"
proof -
  obtain c cs where "dec_of_nat a = c # cs" "is_digit c" by (rule dec_of_nat_word)
  then have "dec_of_nat a @ newline \<noteq> ''elf_entry'' @ newline" by (auto simp: is_digit_def)
  then show ?thesis
    using assms by (simp add: image_pair_def c_str_clean dec_of_nat_clean strcmp_0_iff atoll_dec)
qed

lemma atoll_dec_big: "\<not> n < 2 ^ 63 \<Longrightarrow> atoll (dec_of_nat n @ newline) = Inl Undefined_behaviour"
  using dec_of_nat_digits [of n] by (simp add: atoll_def Let_def scan_start takeWhile_digits)

lemma image_pair_overflow:
  assumes "\<not> (a < 2 ^ 63 \<and> d < 2 ^ 63)"
  shows "image_pair (dec_of_nat a @ newline) (dec_of_nat d @ newline) st = Inl Undefined_behaviour"
proof -
  obtain c cs where "dec_of_nat a = c # cs" "is_digit c" by (rule dec_of_nat_word)
  then have "dec_of_nat a @ newline \<noteq> ''elf_entry'' @ newline" by (auto simp: is_digit_def)
  then show ?thesis
    using assms atoll_dec [of a] atoll_dec_big [of a] atoll_dec_big [of d]
    by (cases "a < 2 ^ 63") (simp_all add: image_pair_def c_str_clean dec_of_nat_clean strcmp_0_iff)
qed

lemma elf_entry_clean: "no_zero_or_newline ''elf_entry''"
  by code_simp

lemma image_pair_entry:
  assumes "e < 2 ^ 64"
  shows "image_pair (''elf_entry'' @ newline) (dec_of_nat e @ newline) st =
    Inr (put_err (''[Sail] Elf entry point: '' @ hex_of_nat e @ newline) (st\<lparr>g_elf_entry := of_nat e\<rparr>))"
proof -
  obtain s where "scan_dec (dec_of_nat e @ newline) = Matched (int e) s" using scan_dec_dec by blast
  then show ?thesis
    using assms elf_entry_clean
    by (simp add: image_pair_def c_str_clean dec_of_nat_clean strcmp_0_iff unat_of_nat64 del: append_Cons append_Nil)
qed

text \<open>Both buffers, once allocated, and the shared length are big enough for a short line.\<close>

definition caps_ok :: "nat \<Rightarrow> nat \<Rightarrow> nat \<Rightarrow> bool" where
  "caps_ok a d n \<longleftrightarrow> (a \<noteq> 0 \<longrightarrow> 22 \<le> n \<and> 22 \<le> a) \<and> (d \<noteq> 0 \<longrightarrow> 22 \<le> n \<and> 22 \<le> d)"

lemma image_lines_step:
  assumes "\<And>k. 22 \<le> alloc 0 k" "caps_ok a d n"
    and "no_zero_or_newline w1" "length w1 \<le> 20" "no_zero_or_newline w2" "length w2 \<le> 20"
  shows "\<exists>a' d' n'. caps_ok a' d' n' \<and>
    image_lines alloc a d n (w1 @ newline @ w2 @ newline @ rest) st =
      bind_res (image_pair (w1 @ newline) (w2 @ newline) st) (image_lines alloc a' d' n' rest)"
proof -
  define a' n1 where "a' = (if a = 0 then alloc 0 (length w1 + 2) else a)"
    and "n1 = (if a = 0 then alloc 0 (length w1 + 2) else n)"
  define d' n2 where "d' = (if d = 0 then alloc 0 (length w2 + 2) else d)"
    and "n2 = (if d = 0 then alloc 0 (length w2 + 2) else n1)"
  have "getline alloc a n (w1 @ newline @ w2 @ newline @ rest) =
      Inr (Some (w1 @ newline, w2 @ newline @ rest, a', n1))"
    unfolding a'_def n1_def using assms(2,4) by (intro getline_clean assms(3)) (auto simp: caps_ok_def)
  moreover have n1: "22 \<le> n1" "22 \<le> a'"
    using assms(1,2) by (auto simp: n1_def a'_def caps_ok_def)
  moreover have "getline alloc d n1 (w2 @ newline @ rest) = Inr (Some (w2 @ newline, rest, d', n2))"
    unfolding d'_def n2_def using assms(2,6) n1 by (intro getline_clean assms(5)) (auto simp: caps_ok_def)
  moreover have "22 \<le> n2" "22 \<le> d'"
    using assms(1,2) n1 by (auto simp: n2_def d'_def caps_ok_def)
  ultimately have "caps_ok a' d' n2 \<and> image_lines alloc a d n (w1 @ newline @ w2 @ newline @ rest) st =
      bind_res (image_pair (w1 @ newline) (w2 @ newline) st) (image_lines alloc a' d' n2 rest)"
    by (simp add: image_lines.simps [of alloc a d n] caps_ok_def)
  then show ?thesis by blast
qed

lemma dec_short: "n < 2 ^ 64 \<Longrightarrow> length (dec_of_nat n) \<le> 20"
  by (rule length_dec_of_nat) (auto intro: order_less_le_trans)

text \<open>The items one by one, until one does not fit the \<open>long long\<close> that \<open>atoll\<close> delivers.\<close>

fun load_numbers :: "image_item list \<Rightarrow> rts \<Rightarrow> rts res" where
  "load_numbers [] st = Inr st"
| "load_numbers (i # items) st =
     (if image_valid i then bind_res (load_items [i] st) (load_numbers items) else Inl Undefined_behaviour)"

lemma image_lines_text:
  assumes "\<And>k. 22 \<le> alloc 0 k" "caps_ok a d n" "list_all image_word items"
  shows "image_lines alloc a d n (image_text items) st = load_numbers items st"
  using assms(2,3)
proof (induction items arbitrary: a d n st)
  case Nil
  then show ?case by (simp add: image_lines.simps [of alloc a d n] getline_def)
next
  case (Cons item items)
  define w1 where "w1 = (case item of Image_byte x y \<Rightarrow> dec_of_nat x | Image_entry e \<Rightarrow> ''elf_entry'')"
  define w2 where "w2 = (case item of Image_byte x y \<Rightarrow> dec_of_nat y | Image_entry e \<Rightarrow> dec_of_nat e)"
  have "no_zero_or_newline w1" "length w1 \<le> 20" "no_zero_or_newline w2" "length w2 \<le> 20"
    using Cons.prems(2) elf_entry_clean
    by (auto simp: w1_def w2_def dec_of_nat_clean intro!: dec_short split: image_item.splits)
  from image_lines_step [of alloc a d n, OF assms(1) Cons.prems(1) this, of "image_text items" st]
  obtain a' d' n' where step: "caps_ok a' d' n'"
    "image_lines alloc a d n (w1 @ newline @ w2 @ newline @ image_text items) st =
      bind_res (image_pair (w1 @ newline) (w2 @ newline) st) (image_lines alloc a' d' n' (image_text items))"
    by blast
  have IH: "image_lines alloc a' d' n' (image_text items) t = load_numbers items t" for t
    using Cons.IH [OF step(1)] Cons.prems(2) by simp
  show ?case
  proof (cases item)
    case (Image_byte x y)
    then have e: "image_lines alloc a d n (image_text (item # items)) st =
        bind_res (image_pair (dec_of_nat x @ newline) (dec_of_nat y @ newline) st) (load_numbers items)"
      using step(2) IH by (simp add: w1_def w2_def bind_res_def split: sum.splits)
    show ?thesis
    proof (cases "x < 2 ^ 63 \<and> y < 2 ^ 63")
      case True
      then show ?thesis
        unfolding e by (simp add: Image_byte image_pair_byte bind_res_def split: sum.splits)
    next
      case False
      then have "\<not> image_valid item" by (simp add: Image_byte)
      with image_pair_overflow [OF False, of st] show ?thesis unfolding e by simp
    qed
  next
    case (Image_entry e)
    then show ?thesis
      using step(2) Cons.prems(2) IH image_pair_entry [of e st]
      by (simp add: w1_def w2_def del: append_Cons append_Nil)
  qed
qed

lemma load_numbers_valid: "list_all image_valid items \<Longrightarrow> load_numbers items st = load_items items st"
proof (induction items arbitrary: st)
  case (Cons i items)
  then show ?case by (cases i) (auto simp: bind_res_def split: sum.splits)
qed simp

lemma image_valid_word: "image_valid i \<Longrightarrow> image_word i"
  by (cases i) auto

lemma image_lines_valid:
  assumes "\<And>k. 22 \<le> alloc 0 k" "list_all image_valid items"
  shows "image_lines alloc 0 0 0 (image_text items) st = load_items items st"
  using image_lines_text [of alloc 0 0 0 items st, OF assms(1)] assms(2)
  by (simp add: caps_ok_def load_numbers_valid list_all_iff image_valid_word)

text \<open>
  The shared length: after a long address line it describes the bigger buffer, and a data line
  that fits that one overruns the other.
\<close>

lemma image_lines_overrun:
  assumes "no_zero_or_newline w1" "no_zero_or_newline w2" "0 < c" "c < length w1 + 2" "c < length w2 + 2"
    and "length w2 + 2 \<le> alloc c (length w1 + 2)"
  shows "image_lines alloc c c c (w1 @ newline @ w2 @ newline @ rest) st = Inl Out_of_bounds"
  using assms by (simp add: image_lines.simps [of alloc c c c] getline_text)

text \<open>What the loaded items leave in memory: the last byte given for an address.\<close>

fun item_byte :: "u64 \<Rightarrow> image_item \<Rightarrow> u64 option \<Rightarrow> u64 option" where
  "item_byte b (Image_byte a d) r = (if b = of_nat a then Some (of_nat d AND 0xFF) else r)"
| "item_byte b (Image_entry e) r = r"

lemma load_items_memory:
  assumes "wf_rts st"
  shows "\<exists>st'. load_items items st = Inr st' \<and> wf_rts st' \<and>
    (\<forall>b. byte_at st' b = (case fold (item_byte b) items None of Some v \<Rightarrow> v | None \<Rightarrow> byte_at st b))"
proof -
  have "\<exists>st'. load_items items t = Inr st' \<and> wf_rts st' \<and>
      (\<forall>b. byte_at st' b = (case fold (item_byte b) items (r b) of Some v \<Rightarrow> v | None \<Rightarrow> byte_at st b))"
    if "wf_rts t" "\<forall>b. byte_at t b = (case r b of Some v \<Rightarrow> v | None \<Rightarrow> byte_at st b)" for t r
    using that
  proof (induction items arbitrary: t r)
    case (Cons item items)
    show ?case
    proof (cases item)
      case (Image_byte a d)
      obtain u where u: "write_mem (of_nat a) (of_nat d) t = Inr u" "wf_rts u"
        using mem.wr_total [OF Cons.prems(1)] by blast
      have "\<forall>b. byte_at u b = (case item_byte b item (r b) of Some v \<Rightarrow> v | None \<Rightarrow> byte_at st b)"
        using mem.rd_wr [OF Cons.prems(1) u(1)] Cons.prems(2) by (auto simp: byte_at_def Image_byte)
      from Cons.IH [OF u(2) this] show ?thesis using u(1) by (simp add: Image_byte)
    next
      case (Image_entry e)
      define u where "u = put_err (''[Sail] Elf entry point: '' @ hex_of_nat e @ newline) (t\<lparr>g_elf_entry := of_nat e\<rparr>)"
      have "wf_rts u" "byte_at u = byte_at t"
        using Cons.prems(1) by (auto simp: u_def put_err_def wf_rts_def intro!: byte_at_cong)
      with Cons.IH [of u r] Cons.prems(2) show ?thesis
        unfolding Image_entry load_items.simps u_def [symmetric] by simp
    qed
  qed simp
  from this [OF assms, of "\<lambda>b. None"] show ?thesis by simp
qed

lemma load_numbers_overflow:
  assumes "wf_rts st" "\<not> list_all image_valid items"
  shows "load_numbers items st = Inl Undefined_behaviour"
  using assms
proof (induction items arbitrary: st)
  case (Cons i items)
  show ?case
  proof (cases "image_valid i")
    case True
    obtain t where "load_items [i] st = Inr t" "wf_rts t"
      using load_items_memory [OF Cons.prems(1), of "[i]"] by blast
    with Cons True show ?thesis by simp
  qed simp
qed simp

end
