(* ===== verification/Rts_Commands.thy ===== *)
theory Rts_Commands
  imports Rts_Args Rts_Run
begin

text \<open>
  What the command line of the runtime promises: it is a list of commands, each written as an option
  with its argument, and processing the options does the commands in order. The only one that is
  deferred is the entry point.
\<close>

section \<open>Commands\<close>

datatype command =
    Set_flag string u64
  | Load_raw u64 string
  | Load_image string
  | Load_elf string
  | Entry_point u64
  | Cycle_limit i64
  | Verbosity u64

fun command_option :: "command \<Rightarrow> char \<times> string option" where
  "command_option (Set_flag f v) = (CHR ''C'', Some (f @ ''=0x'' @ hex_of_nat (unat v)))"
| "command_option (Load_raw a f) = (CHR ''b'', Some (''0x'' @ hex_of_nat (unat a) @ '','' @ f))"
| "command_option (Load_image f) = (CHR ''i'', Some f)"
| "command_option (Load_elf f) = (CHR ''e'', Some f)"
| "command_option (Entry_point v) = (CHR ''n'', Some (''0x'' @ hex_of_nat (unat v)))"
| "command_option (Cycle_limit n) = (CHR ''l'', Some (dec_of_int (sint n)))"
| "command_option (Verbosity v) = (CHR ''v'', Some (''0x'' @ hex_of_nat (unat v)))"

fun command_ok :: "'h host \<Rightarrow> command \<Rightarrow> bool" where
  "command_ok E (Set_flag f v) \<longleftrightarrow> f \<noteq> [] \<and> length f \<le> 99 \<and> list_all (host_scanset E) f \<and> \<not> host_scanset E (CHR ''='')"
| "command_ok E _ \<longleftrightarrow> True"

text \<open>
  The format \<open>%ms\<close> takes the first word of what follows the comma for the name of a raw file, and none of it when
  there is no word, which leaves the pointer to the name uninitialised.
\<close>

definition first_word :: "string \<Rightarrow> string" where
  "first_word f = takeWhile (\<lambda>c. \<not> is_space c) (dropWhile is_space f)"

lemma first_word_plain: "list_all (\<lambda>c. \<not> is_space c) f \<Longrightarrow> first_word f = f"
  by (cases f) (simp_all add: first_word_def list_all_iff takeWhile_eq_all_conv)

fun do_command :: "'h host \<Rightarrow> command \<Rightarrow> rts \<Rightarrow> rts res" where
  "do_command E (Set_flag f v) st =
     (case host_config E of
        Some C \<Rightarrow> z_SetConfig C f (mpz_set_ui (host_gmp E) v) st
      | None \<Rightarrow> Inr (put_err (''Ignoring flag -C '' @ f @ ''=0x'' @ hex_of_nat (unat v)) st))"
| "do_command E (Load_raw a f) st =
     (if first_word f = [] then Inl Undefined_behaviour else load_raw (host_files E) a (first_word f) st)"
| "do_command E (Load_image f) st = load_image (host_files E) (host_getline E) f st"
| "do_command E (Load_elf f) st = bind_res (load_elf (host_zlib E) f st) (\<lambda>(st, _). Inr st)"
| "do_command E (Entry_point v) st = Inr st"
| "do_command E (Cycle_limit n) st = Inr (st\<lparr>g_cycle_limit := n\<rparr>)"
| "do_command E (Verbosity v) st = Inr (st\<lparr>g_verbosity := v\<rparr>)"

fun do_commands :: "'h host \<Rightarrow> command list \<Rightarrow> rts \<Rightarrow> rts res" where
  "do_commands E [] st = Inr st"
| "do_commands E (c # cs) st = bind_res (do_command E c st) (do_commands E cs)"

fun entry_of :: "command list \<Rightarrow> u64 option \<Rightarrow> u64 option" where
  "entry_of [] e = e"
| "entry_of (Entry_point v # cs) e = entry_of cs (Some v)"
| "entry_of (_ # cs) e = entry_of cs e"

section \<open>Numbers in arguments are read back\<close>

lemma hex_ascii: "d < 16 \<Longrightarrow> (of_char (digit_char d) :: nat) = (if d < 10 then 48 + d else 87 + d)"
  by (simp add: digit_char_def)

lemma hex_char:
  assumes "d < 16"
  shows "is_xdigit (digit_char d)" "xdigit_value (digit_char d) = d"
    and "(of_char c :: nat) < 48 \<or> 102 < (of_char c :: nat) \<Longrightarrow> digit_char d \<noteq> c"
    and "digit_char d \<noteq> CHR ''X''"
  using hex_ascii [OF assms] assms
  by (auto simp: is_xdigit_def xdigit_value_def is_digit_def split: if_splits)

lemma hex_char_plain:
  assumes "d < 16"
  shows "\<not> is_space (digit_char d)" "digit_char d \<noteq> CHR ''-''" "digit_char d \<noteq> CHR ''+''" "digit_char d \<noteq> CHR ''x''"
proof -
  have "(of_char c :: nat) < 48" if "is_space c" for c
    using that by (auto simp: is_space_def)
  with hex_char(3) [OF assms, of "digit_char d"] show "\<not> is_space (digit_char d)" by auto
qed (use hex_char(3) [OF assms] in simp_all)

lemma hex_value_append: "hex_value (s @ [c]) = 16 * hex_value s + xdigit_value c"
  by (simp add: hex_value_def)

lemma hex_value_hex: "hex_value (hex_of_nat n) = n"
proof (induction n rule: less_induct)
  case (less n)
  show ?case
  proof (cases "n < 16")
    case True
    then show ?thesis by (simp add: hex_of_nat_def digits.simps [of 16 n] hex_value_def hex_char)
  next
    case False
    then have "hex_of_nat n = hex_of_nat (n div 16) @ [digit_char (n mod 16)]"
      by (simp add: hex_of_nat_def digits.simps [of 16 n])
    with False less [of "n div 16"] show ?thesis by (simp add: hex_value_append hex_char)
  qed
qed

lemma hex_of_nat_chars: "c \<in> set (hex_of_nat n) \<Longrightarrow> \<exists>d < 16. c = digit_char d"
  using digits_less [of 16 n] by (auto simp: hex_of_nat_def)

lemma hex_of_nat_not_Nil: "hex_of_nat n \<noteq> []"
  by (subst hex_of_nat_def, subst digits.simps) simp

lemma hex_of_nat_Cons: obtains d cs where "hex_of_nat n = digit_char d # cs" "d < 16"
  using hex_of_nat_chars [of _ n] hex_of_nat_not_Nil [of n] by (cases "hex_of_nat n") auto

lemma hex_of_nat_xdigits: "list_all is_xdigit (hex_of_nat n)"
  using hex_of_nat_chars [of _ n] hex_char by (auto simp: list_all_iff)

lemma take_1: "(\<And>c r. l = c # r \<Longrightarrow> c \<noteq> a) \<Longrightarrow> take 1 l \<noteq> [a]"
  by (cases l) auto

lemma scan_hex_hex:
  assumes "s = [] \<or> \<not> is_xdigit (hd s) \<and> hd s \<noteq> CHR ''x'' \<and> hd s \<noteq> CHR ''X''"
  shows "scan_hex (hex_of_nat n @ s) = Matched (int n) s"
proof -
  obtain d cs where h: "hex_of_nat n = digit_char d # cs" "d < 16" by (rule hex_of_nat_Cons)
  have x: "list_all is_xdigit (hex_of_nat n)" by (rule hex_of_nat_xdigits)
  have t: "takeWhile is_xdigit (hex_of_nat n @ s) = hex_of_nat n" "dropWhile is_xdigit (hex_of_nat n @ s) = s"
    using x assms by (cases s; simp add: list_all_iff takeWhile_append dropWhile_append)+
  have two: "take 2 (hex_of_nat n @ s) \<noteq> ''0x''" "take 2 (hex_of_nat n @ s) \<noteq> ''0X''"
  proof -
    have "c \<noteq> CHR ''x'' \<and> c \<noteq> CHR ''X''" if "cs @ s = c # r" for c r
    proof (cases cs)
      case Nil
      with that assms show ?thesis by auto
    next
      case (Cons c' cs')
      then have "c \<in> set (hex_of_nat n)" using that h(1) by simp
      then obtain d' where d': "d' < 16" "c = digit_char d'" using hex_of_nat_chars by blast
      show ?thesis using hex_char(4) [OF d'(1)] hex_char_plain(4) [OF d'(1)] d'(2) by simp
    qed
    then have "take 1 (cs @ s) \<noteq> ''x''" "take 1 (cs @ s) \<noteq> ''X''"
      by (intro take_1; blast)+
    moreover have "take 2 (hex_of_nat n @ s) = digit_char d # take 1 (cs @ s)" by (simp add: h(1) numeral_2_eq_2)
    ultimately show "take 2 (hex_of_nat n @ s) \<noteq> ''0x''" "take 2 (hex_of_nat n @ s) \<noteq> ''0X''" by simp_all
  qed
  have "scan_sign (hex_of_nat n @ s) = (False, hex_of_nat n @ s)"
    using hex_char_plain [OF h(2)] h(1) by (simp add: scan_sign_def)
  moreover have "dropWhile is_space (hex_of_nat n @ s) = hex_of_nat n @ s"
    using hex_char_plain [OF h(2)] h(1) by simp
  ultimately show ?thesis
    using two t hex_of_nat_not_Nil [of n] by (simp add: scan_hex_def Let_def hex_value_hex)
qed

lemma scan_lit_self: "scan_lit w (w @ s) = Matched UNIT s"
  by (induction w) simp_all

lemma scan_0x_hex:
  assumes "s = [] \<or> \<not> is_xdigit (hd s) \<and> hd s \<noteq> CHR ''x'' \<and> hd s \<noteq> CHR ''X''"
  shows "scan_0x (CHR ''0'' # CHR ''x'' # hex_of_nat n @ s) = Matched (int n) s"
  using scan_hex_hex [OF assms] scan_lit_self [of "''0x''"] by (simp add: scan_0x_def then_scan_def)

lemma fits_words: "fits_u64 (uint v)" "fits_i64 (sint (n :: i64))" for v :: u64
proof -
  have "- (2 ^ 64) < (0::int)" by simp
  also have "0 \<le> uint v" by simp
  finally show "fits_u64 (uint v)" using uint_lt2p [of v] by (simp add: fits_u64_def)
  show "fits_i64 (sint n)" using sint_range_size [of n] by (simp add: fits_i64_def word_size)
qed

lemma scan_dec_int: "scan_dec (dec_of_int k) = Matched k []"
proof -
  have m: "\<not> is_space (CHR ''-'')" by code_simp
  have d: "list_all is_digit (dec_of_nat n)" "dec_of_nat n \<noteq> []" "dec_value (dec_of_nat n) = n" for n
    using dec_of_nat_digits [of n] by auto
  have w: "takeWhile is_digit (dec_of_nat n) = dec_of_nat n" "dropWhile is_digit (dec_of_nat n) = []" for n
    using d(1) [of n] by (simp_all add: takeWhile_eq_all_conv dropWhile_eq_Nil_conv list_all_iff)
  have s: "dropWhile is_space (dec_of_nat n) = dec_of_nat n" "scan_sign (dec_of_nat n) = (False, dec_of_nat n)" for n
    by (rule dec_of_nat_word [of n], simp add: is_digit_not_space scan_sign_digit)+
  show ?thesis
  proof (cases "k < 0")
    case True
    then show ?thesis
      using d(2,3) m by (simp add: scan_dec_def dec_of_int_def Let_def scan_sign_def w)
  next
    case False
    then show ?thesis
      using d(2,3) s by (simp add: scan_dec_def dec_of_int_def Let_def w)
  qed
qed

lemma scan_config_flag:
  assumes "f \<noteq> []" "length f \<le> 99" "list_all p f" "\<not> p (CHR ''='')"
  shows "scan_config p ''=0x'' (f @ CHR ''='' # CHR ''0'' # CHR ''x'' # hex_of_nat n) scan_hex = Matched (f, int n) []"
proof -
  have "takeWhile p (f @ CHR ''='' # r) = f" for r
    using assms(3,4) by (simp add: takeWhile_append list_all_iff)
  then have "scan_flag p (f @ CHR ''='' # r) = Matched f (CHR ''='' # r)" for r
    using assms(1,2) by (simp add: scan_flag_def Let_def)
  moreover have "scan_lit ''=0x'' (''=0x'' @ hex_of_nat n) = Matched UNIT (hex_of_nat n)" by (rule scan_lit_self)
  ultimately show ?thesis
    using scan_hex_hex [of "[]" n] by (simp add: scan_config_def then_scan_def)
qed

lemma scan_word_first:
  "scan_word f = (if first_word f = [] then Input_end
     else Matched (first_word f) (drop (length (first_word f)) (dropWhile is_space f)))"
proof (cases "dropWhile is_space f")
  case Nil
  show ?thesis unfolding scan_word_def first_word_def Let_def Nil by simp
next
  case (Cons c cs)
  then have "\<not> is_space c" by (metis hd_dropWhile list.distinct(1) list.sel(1))
  with Cons show ?thesis by (simp add: scan_word_def first_word_def Let_def)
qed

lemma scan_binary_raw:
  "scan_binary (CHR ''0'' # CHR ''x'' # hex_of_nat n @ CHR '','' # f) =
     (if first_word f = [] then (1, Some (int n), None) else (2, Some (int n), Some (first_word f)))"
proof -
  have c: "\<not> is_xdigit (CHR '','')" "CHR '','' \<noteq> CHR ''x''" "CHR '','' \<noteq> CHR ''X''" by code_simp+
  then show ?thesis
    using scan_0x_hex [of "CHR '','' # f" n] by (simp add: scan_binary_def then_scan_def scan_word_first)
qed

section \<open>The command line does the commands\<close>

lemma option_does_command:
  assumes "command_ok E c" "command_option c = (o', arg)"
  shows "process_option E o' arg a st =
    bind_res (do_command E c st) (\<lambda>st. Inr (Next_option
      (case c of Entry_point v \<Rightarrow> \<lparr>elf_entry_set = True, entry_arg = Some v\<rparr> | _ \<Rightarrow> a) st))"
proof (cases c)
  case (Set_flag f v)
  with assms scan_config_flag [of f "host_scanset E" "unat v"] fits_words(1) [of v] show ?thesis
    by (auto simp: process_option_def arg_config_def set_flag_def split: option.splits)
next
  case (Load_raw a' f)
  with assms scan_binary_raw [of "unat a'" f] fits_words(1) [of a'] show ?thesis
    by (auto simp: process_option_def arg_binary_def)
next
  case (Load_elf f)
  with assms show ?thesis
    by (auto simp: process_option_def bind_res_def split: sum.splits)
next
  case (Entry_point v)
  with assms scan_0x_hex [of "[]" "unat v"] fits_words(1) [of v] show ?thesis
    by (auto simp: process_option_def arg_entry_def)
next
  case (Cycle_limit n)
  with assms scan_dec_int [of "sint n"] fits_words(2) [of n] show ?thesis
    by (auto simp: process_option_def arg_limit_def)
next
  case (Verbosity v)
  with assms scan_0x_hex [of "[]" "unat v"] fits_words(1) [of v] show ?thesis
    by (auto simp: process_option_def arg_verbosity_def)
qed (use assms in \<open>auto simp: process_option_def\<close>)

lemma options_do_commands:
  assumes "list_all (command_ok E) cs" "elf_entry_set a \<longleftrightarrow> entry_arg a \<noteq> None"
  shows "process_options E (map command_option cs) a st =
    bind_res (do_commands E cs st) (\<lambda>st. Inr (0, case entry_of cs (entry_arg a) of
      None \<Rightarrow> st | Some e \<Rightarrow> st\<lparr>g_elf_entry := e\<rparr>))"
  using assms
proof (induction cs arbitrary: a st)
  case Nil
  then show ?case by (auto simp: finish_arguments_def of_option_def)
next
  case (Cons c cs)
  obtain o' arg where o': "command_option c = (o', arg)" by fastforce
  define a' where "a' = (case c of Entry_point v \<Rightarrow> \<lparr>elf_entry_set = True, entry_arg = Some v\<rparr> | _ \<Rightarrow> a)"
  have a': "elf_entry_set a' \<longleftrightarrow> entry_arg a' \<noteq> None" "entry_of (c # cs) (entry_arg a) = entry_of cs (entry_arg a')"
    using Cons.prems(2) by (auto simp: a'_def split: command.splits)
  have IH: "process_options E (map command_option cs) a' t = bind_res (do_commands E cs t) (\<lambda>st. Inr (0, case entry_of cs (entry_arg a') of
      None \<Rightarrow> st | Some e \<Rightarrow> st\<lparr>g_elf_entry := e\<rparr>))" for t
    using Cons.IH [of a'] Cons.prems(1) a'(1) by simp
  have "process_option E o' arg a st = bind_res (do_command E c st) (\<lambda>st. Inr (Next_option a' st))"
    unfolding a'_def using Cons.prems(1) by (intro option_does_command [OF _ o']) simp
  then show ?case
    by (cases "do_command E c st") (simp_all add: o' IH a'(2))
qed

end
