(* ===== verification/Theorems_Runtime.thy ===== *)
theory Theorems_Runtime
  imports Rts_Commands
begin

text \<open>
  The properties of the runtime: its memory, runs of its operations, cycle limit, traces, image
  files and command line.
\<close>

lemma init_rts_wf: "wf_rts init_rts"
  by (simp add: wf_rts_def wf_blocks_def init_rts_def)

section \<open>Memory\<close>

text \<open>
  C21. What \<open>write_ram\<close> writes, \<open>read_ram\<close> reads back, for every number of bytes and every address,
  also across blocks and around the end of the address space; the other bytes are not changed and
  the memory stays well-formed.
\<close>

theorem ram_round_trip:
  assumes "gmp_laws G" "wf_rts st" "wf_lbits data" "0 \<le> n" "n < 2 ^ 61" "unat (l_len data) = 8 * nat n"
  shows "\<exists>st'. write_ram G as n hr addr data st = Inr (True, st') \<and> wf_rts st' \<and>
    read_ram G as' n hr' addr st' = Inr data \<and>
    (\<forall>b. unat (b - mpz_get_ui G (l_bits addr)) \<ge> nat n \<longrightarrow> read_mem b st' = read_mem b st)"
  by (rule gmp_laws.ram_roundtrip [OF assms])

theorem ram_round_trip_witness:
  "\<exists>st'. write_ram gmp_ref 64 2 \<lparr>l_len = 0, l_bits = 0\<rparr> \<lparr>l_len = 64, l_bits = 2 ^ 64 - 1\<rparr> \<lparr>l_len = 16, l_bits = 0x1234\<rparr> init_rts
       = Inr (True, st') \<and>
     read_ram gmp_ref 64 2 \<lparr>l_len = 0, l_bits = 0\<rparr> \<lparr>l_len = 64, l_bits = 2 ^ 64 - 1\<rparr> st' = Inr \<lparr>l_len = 16, l_bits = 0x1234\<rparr>"
  using ram_round_trip [OF gmp_ref_laws init_rts_wf, of "\<lparr>l_len = 16, l_bits = 0x1234\<rparr>" 2 64
      "\<lparr>l_len = 0, l_bits = 0\<rparr>" "\<lparr>l_len = 64, l_bits = 2 ^ 64 - 1\<rparr>" 64 "\<lparr>l_len = 0, l_bits = 0\<rparr>"]
  by (auto simp: wf_lbits_def)

text \<open>
  C22. In a well-formed state every byte and every tag can be written; the state stays well-formed
  (no identifier twice, every block aligned and of full size), one cell changes, in one of the two
  stores, and writes to different addresses commute.
\<close>

theorem memory_cells:
  assumes "wf_rts st"
  shows "(\<exists>st'. write_mem a v st = Inr st' \<and> wf_rts st' \<and> sail_tags st' = sail_tags st \<and>
      (\<forall>b. read_mem b st' = (if b = a then Inr (v AND 0xFF) else read_mem b st))) \<and>
    (\<exists>st'. write_tag_bool a t st = Inr st' \<and> wf_rts st' \<and> sail_memory st' = sail_memory st \<and>
      (\<forall>b. read_tag_bool b st' = (if b = a then Inr t else read_tag_bool b st))) \<and>
    (\<forall>c w. c \<noteq> a \<longrightarrow> (\<exists>s1 s2. bind_res (write_mem a v st) (write_mem c w) = Inr s1 \<and>
      bind_res (write_mem c w st) (write_mem a v) = Inr s2 \<and> (\<forall>b. read_mem b s1 = read_mem b s2)))"
proof (intro conjI allI impI)
  fix c w assume "c \<noteq> a"
  then show "\<exists>s1 s2. bind_res (write_mem a v st) (write_mem c w) = Inr s1 \<and>
      bind_res (write_mem c w st) (write_mem a v) = Inr s2 \<and> (\<forall>b. read_mem b s1 = read_mem b s2)"
    using mem.wr_commute [OF assms, of a c v w] by simp
qed (use write_mem_cases [OF assms, of a v] write_tag_cases [OF assms, of a t] in blast)+

theorem memory_cells_witness:
  "\<exists>st'. write_mem 0x12345678 0x1FF init_rts = Inr st' \<and> read_mem 0x12345678 st' = Inr 0xFF \<and> wf_rts st'"
  using memory_cells [OF init_rts_wf, of "0x12345678" "0x1FF" True] by auto

text \<open>
  The short read of at most 8 bytes returns the same bits as the general one, as a small
  bitvector; converting it gives the general result back.
\<close>

theorem fast_read_agrees:
  assumes "gmp_laws G" "wf_rts st" "0 \<le> n" "n \<le> 8"
  shows "\<exists>r. read_ram G as n hr addr st = Inr r \<and>
    fast_read_ram (word_of_int n) (mpz_get_ui G (l_bits addr)) st = Inr (convert_sbits_of_lbits G r d) \<and>
    convert_lbits_of_sbits G (convert_sbits_of_lbits G r d) d = r"
  by (rule gmp_laws.fast_read_ram_agrees [OF assms])

theorem fast_read_agrees_witness:
  "\<exists>r. fast_read_ram 4 0x1000 init_rts = Inr r"
  using fast_read_agrees [OF gmp_ref_laws init_rts_wf, of 4 64 "\<lparr>l_len = 0, l_bits = 0\<rparr>" "\<lparr>l_len = 64, l_bits = 0x1000\<rparr>" True]
  by (auto simp: gmp_laws.mpz_get_ui_law [OF gmp_ref_laws])

text \<open>
  Loading a raw file stores its bytes from the address on, wrapping around at the end of the
  address space, and changes nothing else; clearing the memory makes every byte 0 and every tag
  false again.
\<close>

theorem raw_file_loaded:
  assumes "wf_rts st" "fs file = Some bytes" "length bytes \<le> 2 ^ 64"
  shows "\<exists>st'. load_raw fs a file st = Inr st' \<and> wf_rts st' \<and> same_registers st st' \<and>
    (\<forall>b. read_mem b st' = (if unat (b - a) < length bytes then Inr (ucast (bytes ! unat (b - a))) else read_mem b st)) \<and>
    wf_rts (kill_mem st') \<and> (\<forall>b. read_mem b (kill_mem st') = Inr 0 \<and> read_tag_bool b (kill_mem st') = Inr False)"
proof -
  obtain st' where st': "load_bytes a bytes st = Inr st'" "wf_rts st'"
    "\<forall>b. read_mem b st' = (if unat (b - a) < length bytes then Inr (ucast (bytes ! unat (b - a))) else read_mem b st)"
    using load_bytes_eq [OF assms(1,3)] by blast
  moreover have "wf_rts (kill_mem st')" by (simp add: kill_mem_def wf_rts_def wf_blocks_def)
  moreover have "read_mem b (kill_mem st') = Inr 0 \<and> read_tag_bool b (kill_mem st') = Inr False" for b
    by (simp add: kill_mem_def read_mem_def read_tag_bool_def Let_def)
  ultimately show ?thesis
    using assms(2) load_bytes_frame [OF st'(1)] by (auto simp: load_raw_def)
qed

theorem raw_file_loaded_witness:
  "\<exists>st'. load_raw (\<lambda>f. if f = ''rom'' then Some [0x13, 0x05] else None) 0xFFFFFFFFFFFFFFFF ''rom'' init_rts = Inr st' \<and>
     read_mem 0xFFFFFFFFFFFFFFFF st' = Inr 0x13 \<and> read_mem 0 st' = Inr 0x05"
proof -
  from raw_file_loaded [OF init_rts_wf, of "\<lambda>f. if f = ''rom'' then Some [0x13, 0x05] else None" "''rom''" "[0x13, 0x05]"
      "0xFFFFFFFFFFFFFFFF"]
  obtain st' where st': "load_raw (\<lambda>f. if f = ''rom'' then Some [0x13, 0x05] else None) 0xFFFFFFFFFFFFFFFF ''rom'' init_rts = Inr st'"
    "\<forall>b. read_mem b st' = (if unat (b - 0xFFFFFFFFFFFFFFFF) < 2
        then Inr (ucast (([0x13, 0x05] :: u8 list) ! unat (b - 0xFFFFFFFFFFFFFFFF))) else read_mem b init_rts)"
    by auto
  from st'(2) [rule_format, of "0xFFFFFFFFFFFFFFFF"] st'(2) [rule_format, of 0] st'(1) show ?thesis by simp
qed

section \<open>Runs\<close>

text \<open>
  C23. The runtime implements the abstract machine: after any sequence of operations its bytes,
  tags, sleeping flag, cycle count and trace depth are what the machine has after the same
  sequence, and an operation is refused only at the cycle limit or at the extremes of the depth.
\<close>

theorem runtime_refines_machine:
  assumes "wf_rts st" "rts_run st ops st'"
  shows "wf_rts st' \<and> machine_of st' = fold machine_step ops (machine_of st) \<and>
    (\<forall>op. (\<exists>st''. rts_step st' op st'') \<longleftrightarrow> enabled op st')"
  using run_refines [OF assms(2,1)] step_enabled by blast

theorem runtime_refines_machine_witness:
  "\<exists>st'. rts_run init_rts [Sleep, Tick] st' \<and> m_sleeping (machine_of st') \<and> m_cycles (machine_of st') = 1"
proof -
  define st1 where "st1 = sleep_request UNIT init_rts"
  have "rts_run init_rts ([] @ [Sleep]) st1" by (rule run_snoc [OF run_nil]) (simp add: st1_def)
  moreover have "rts_step st1 Tick (st1\<lparr>g_cycle_count := 1\<rparr>)"
    by (simp add: cycle_count_def cycle_limit_reached_def st1_def sleep_request_def put_err_def init_rts_def)
  ultimately have r: "rts_run init_rts ([Sleep] @ [Tick]) (st1\<lparr>g_cycle_count := 1\<rparr>)"
    by (intro run_snoc) auto
  from runtime_refines_machine [OF init_rts_wf r] r show ?thesis
    by (auto simp: machine_of_def init_rts_def)
qed

text \<open>
  C24. With a limit on the cycles, the count of a run stays below the limit, equals the number of
  ticks and never wraps; calling \<open>cycle_count\<close> from a count below the limit succeeds until the
  limit is reached and then ends the program with success; without a limit it always succeeds.
\<close>

theorem cycle_limit:
  assumes "g_cycle_limit st = 0 \<or> g_cycle_count st < g_cycle_limit st"
  shows "(if g_cycle_limit st = 0 \<or> unat (g_cycle_count st) + n < unat (g_cycle_limit st)
      then cycles n st = Inr (st\<lparr>g_cycle_count := g_cycle_count st + of_nat n\<rparr>)
      else \<exists>m. cycles n st = Inl (Exit_success m)) \<and>
    (\<forall>ops st'. wf_rts st \<and> g_cycle_limit st \<noteq> 0 \<and> rts_run st ops st' \<longrightarrow>
      g_cycle_count st' < g_cycle_limit st' \<and> unat (g_cycle_count st') = unat (g_cycle_count st) + ticks ops)"
proof (cases "g_cycle_limit st = 0")
  case True
  then show ?thesis using cycles_unlimited [of st n] by simp
next
  case False
  then have "g_cycle_count st < g_cycle_limit st" using assms by simp
  then show ?thesis using False cycles_limited [of st n] run_below_limit [of st] by (auto split: if_splits)
qed

theorem cycle_limit_witness:
  "(\<exists>m. cycles 3 (init_rts\<lparr>g_cycle_limit := 3\<rparr>) = Inl (Exit_success m)) \<and>
   cycles 2 (init_rts\<lparr>g_cycle_limit := 3\<rparr>) = Inr (init_rts\<lparr>g_cycle_limit := 3, g_cycle_count := 2\<rparr>)"
  using cycle_limit [of "init_rts\<lparr>g_cycle_limit := 3\<rparr>" 3] cycle_limit [of "init_rts\<lparr>g_cycle_limit := 3\<rparr>" 2]
  by (simp add: init_rts_def)

text \<open>
  C25. Tracing a tree of calls prints one line for each call and one for each return, indented by
  the depth, and leaves the depth, and everything else, as it was.
\<close>

theorem trace_is_balanced:
  assumes "g_trace_enabled st" "sint (g_trace_depth st) = int d" "int d + int (height t) < 2 ^ 63"
  shows "trace_tree t st = Inr (put_err (render d t) st)"
  by (rule trace_tree_prints(1) [OF assms])

theorem trace_is_balanced_witness:
  "\<exists>st'. trace_tree (Call_tree ''main'' [Call_tree ''f'' [], Call_tree ''g'' []]) (enable_tracing UNIT init_rts) = Inr st' \<and>
     g_trace_depth st' = 0"
  using trace_is_balanced [of "enable_tracing UNIT init_rts" 0 "Call_tree ''main'' [Call_tree ''f'' [], Call_tree ''g'' []]"]
  by (simp add: enable_tracing_def init_rts_def put_err_def)

section \<open>Image files and the command line\<close>

text \<open>
  C26. An image file that lists bytes and an entry point, two decimal lines each and no number above 64 bits,
  is read back when its addresses and data are below 2^63: every address gets the last byte
  listed for it. When one of them is not, \<open>atoll\<close> overflows and loading is undefined behaviour. The first
  buffer of \<open>getline\<close> has to hold 22 characters (the GNU one holds 120).
\<close>

theorem image_round_trip:
  assumes "wf_rts st" "\<And>k. 22 \<le> alloc 0 k" "list_all image_word items"
    and "fs file = Some bytes" "map (\<lambda>b. char_of (unat b)) bytes = image_text items"
  shows "if list_all image_valid items
    then load_image fs alloc file st = load_items items st \<and>
      (\<exists>st'. load_image fs alloc file st = Inr st' \<and> wf_rts st' \<and>
        (\<forall>b. byte_at st' b = (case fold (item_byte b) items None of Some v \<Rightarrow> v | None \<Rightarrow> byte_at st b)))
    else load_image fs alloc file st = Inl Undefined_behaviour"
  using image_lines_text [of alloc 0 0 0 items st, OF assms(2) _ assms(3)] load_items_memory [OF assms(1), of items]
    load_numbers_valid [of items st] load_numbers_overflow [OF assms(1), of items] assms(4,5)
  by (simp add: load_image_def caps_ok_def)

theorem image_round_trip_witness:
  "\<exists>st'. load_image (\<lambda>f. Some [0x37, 0x0A, 0x39, 0x0A]) (\<lambda>n k. max 120 k) ''image'' init_rts = Inr st' \<and> byte_at st' 7 = 9"
proof -
  have "map (\<lambda>b. char_of (unat b)) [0x37, 0x0A, 0x39, 0x0A :: u8] = image_text [Image_byte 7 9]"
    by (simp add: dec_of_nat_def digits.simps newline_def digit_char_def)
  moreover have v: "list_all image_valid [Image_byte 7 9]" "list_all image_word [Image_byte 7 9]" by simp_all
  moreover have "\<And>k :: nat. 22 \<le> max 120 k" by simp
  ultimately have "\<exists>st'. load_image (\<lambda>f. Some [0x37, 0x0A, 0x39, 0x0A]) (\<lambda>n k. max 120 k) ''image'' init_rts = Inr st' \<and> wf_rts st' \<and>
      (\<forall>b. byte_at st' b = (case fold (item_byte b) [Image_byte 7 9] None of Some v \<Rightarrow> v | None \<Rightarrow> byte_at init_rts b))"
    using image_round_trip [OF init_rts_wf, of "\<lambda>n k. max 120 k" "[Image_byte 7 9]"
        "\<lambda>f. Some [0x37, 0x0A, 0x39, 0x0A]" "''image''" "[0x37, 0x0A, 0x39, 0x0A]", unfolded if_P [OF v(1)]] by blast
  then obtain st' where "load_image (\<lambda>f. Some [0x37, 0x0A, 0x39, 0x0A]) (\<lambda>n k. max 120 k) ''image'' init_rts = Inr st'"
    "byte_at st' 7 = (case fold (item_byte 7) [Image_byte 7 9] None of Some v \<Rightarrow> v | None \<Rightarrow> byte_at init_rts 7)" by blast
  then show ?thesis by simp
qed

text \<open>
  C27. One variable holds the capacity of both line buffers. When both have capacity \<open>c\<close>, an
  address line longer than \<open>c\<close> makes \<open>getline\<close> grow the first one and the variable; a data line
  that is longer than \<open>c\<close> but fits the new capacity then overruns the second buffer.
\<close>

theorem image_buffer_overrun:
  assumes "no_zero_or_newline w1" "no_zero_or_newline w2" "0 < c" "c < length w1 + 2" "c < length w2 + 2"
    and "length w2 + 2 \<le> alloc c (length w1 + 2)"
  shows "image_lines alloc c c c (w1 @ newline @ w2 @ newline @ rest) st = Inl Out_of_bounds"
  by (rule image_lines_overrun) (fact assms)+

theorem image_buffer_overrun_witness:
  "image_lines (\<lambda>n k. max 120 (max k (2 * n))) 120 120 120
     (replicate 150 (CHR ''1'') @ newline @ replicate 200 (CHR ''2'') @ newline @ []) init_rts = Inl Out_of_bounds"
proof -
  have digits_ok: "char_of (10::nat) \<noteq> CHR ''1''" "char_of (0::nat) \<noteq> CHR ''1''"
    "char_of (10::nat) \<noteq> CHR ''2''" "char_of (0::nat) \<noteq> CHR ''2''" by code_simp+
  have "no_zero_or_newline (replicate n (CHR ''1''))" "no_zero_or_newline (replicate n (CHR ''2''))" for n
    using digits_ok by (simp_all add: no_zero_or_newline_def)
  from image_buffer_overrun [OF this, of 120 150 200 "\<lambda>n k. max 120 (max k (2 * n))" "[]" init_rts]
  show ?thesis by simp
qed

text \<open>
  When the command line is accepted, the entry point is that of the last \<open>-n\<close> option with a
  number, if there is a \<open>-n\<close>; without \<open>-n\<close> and \<open>-i\<close> it keeps its value, also when an ELF file
  is loaded: the entry point of the file is never stored.
\<close>

theorem entry_point_option:
  assumes "config_keeps_entry E" "process_arguments E argv st = Inr (0, st')"
  defines "opts \<equiv> host_getopt E ''e:n:i:b:l:C:h'' options argv"
  shows "if CHR ''n'' \<in> fst ` set opts then last_entry opts None = Some (g_elf_entry st')
    else CHR ''i'' \<notin> fst ` set opts \<longrightarrow> g_elf_entry st' = g_elf_entry st"
  using process_options_entry [of E opts "\<lparr>elf_entry_set = False, entry_arg = None\<rparr>" st st'] assms(1,2)
  unfolding process_arguments_def opts_def [symmetric] by (simp split: if_splits)

theorem entry_point_option_witness:
  "\<exists>st'. process_arguments (host_of (\<lambda>f. None) [(CHR ''n'', Some ''0x80''), (CHR ''l'', Some ''5'')]) [] init_rts
     = Inr (0, st') \<and> g_elf_entry st' = 0x80"
proof -
  have "scan_0x ''0x80'' = Matched 128 []" "scan_dec ''5'' = Matched 5 []" by code_simp+
  then have run: "process_arguments (host_of (\<lambda>f. None) [(CHR ''n'', Some ''0x80''), (CHR ''l'', Some ''5'')]) [] init_rts
       = Inr (0, init_rts\<lparr>g_cycle_limit := 5, g_elf_entry := 128\<rparr>)"
    by (simp add: process_arguments_def process_option_def arg_entry_def arg_limit_def fits_u64_def fits_i64_def
        finish_arguments_def init_rts_def host_of_def)
  from entry_point_option [OF host_of_keeps_entry run] run show ?thesis by (simp add: host_of_def)
qed

text \<open>
  C28. A command line that is a list of commands (flags of the model, raw, image and ELF files, the
  entry point, the cycle limit, the verbosity), each written with its argument, does the commands in
  order, failures included, and then sets the entry point to the last one given: the formats read the numbers back
  exactly, and the names of flags of 1 to 99 characters that the format accepts. Of the name of a raw file they
  take the first word only: white space ends it, and without a word the name is uninitialised.
\<close>

theorem command_line_runs:
  assumes "host_getopt E ''e:n:i:b:l:C:h'' options argv = map command_option cs" "list_all (command_ok E) cs"
  shows "process_arguments E argv st = bind_res (do_commands E cs st) (\<lambda>st. Inr (0,
    case entry_of cs None of None \<Rightarrow> st | Some e \<Rightarrow> st\<lparr>g_elf_entry := e\<rparr>))"
  using options_do_commands [OF assms(2), of "\<lparr>elf_entry_set = False, entry_arg = None\<rparr>" st] assms(1)
  by (simp add: process_arguments_def)

theorem command_line_runs_witness:
  "process_arguments (host_of (\<lambda>f. if f = ''my'' then Some [7] else None) (map command_option [Entry_point 0x80, Cycle_limit 5, Verbosity 3, Entry_point 0x90])) [] init_rts =
     Inr (0, init_rts\<lparr>g_cycle_limit := 5, g_verbosity := 3, g_elf_entry := 0x90\<rparr>) \<and>
   process_arguments (host_of (\<lambda>f. if f = ''my'' then Some [7] else None) (map command_option [Load_raw 3 ''my file''])) [] init_rts =
     bind_res (write_mem 3 7 init_rts) (\<lambda>st. Inr (0, st))"
proof -
  define E where "E cs = host_of (\<lambda>f. if f = ''my'' then Some [7] else None) (map command_option cs)" for cs
  have E: "host_getopt (E cs) ''e:n:i:b:l:C:h'' options argv = map command_option cs"
    "host_files (E cs) = (\<lambda>f. if f = ''my'' then Some [7] else None)" "host_config (E cs) = None" for cs argv
    by (simp_all add: E_def host_of_def)
  have w: "first_word ''my file'' = ''my''" by code_simp
  show ?thesis
    using command_line_runs [where cs = "[Entry_point 0x80, Cycle_limit 5, Verbosity 3, Entry_point 0x90]" and argv = "[]" and st = init_rts, OF E(1)]
      command_line_runs [where cs = "[Load_raw 3 ''my file'']" and argv = "[]" and st = init_rts, OF E(1)]
    unfolding E_def [symmetric]
    by (simp add: E(2,3) w load_raw_def init_rts_def bind_res_def split: sum.splits)
qed

end
