(* ===== verification/Elf_Image.thy ===== *)
theory Elf_Image
  imports Rts
begin

text \<open>
  What loading an ELF file does to the memory, stated on the numbers in the file alone and for both
  classes and byte orders: the loadable segments, in order, over what was there before.
\<close>

section \<open>Segments of a file\<close>

text \<open>A number of \<open>n\<close> bytes in the byte order of the file, and what depends on its class.\<close>

definition file_number :: "u8 list \<Rightarrow> nat \<Rightarrow> nat \<Rightarrow> nat" where
  "file_number b i n = nat (file_value (b ! 5 = 1) b i n)"

definition elf32 :: "u8 list \<Rightarrow> bool" where
  "elf32 b \<longleftrightarrow> b ! 4 = 1"

definition header_count :: "u8 list \<Rightarrow> nat" where
  "header_count b = (if elf32 b then file_number b 44 2 else file_number b 56 2)"

definition header_step :: "u8 list \<Rightarrow> nat" where
  "header_step b = (if elf32 b then file_number b 42 2 else file_number b 54 2)"

definition header_start :: "u8 list \<Rightarrow> nat \<Rightarrow> nat" where
  "header_start b i = (if elf32 b then file_number b 28 4 else file_number b 32 8) + i * header_step b"

record segment =
  seg_offset :: nat
  seg_address :: u64
  seg_filesz :: nat
  seg_memsz :: nat

definition segment_at :: "u8 list \<Rightarrow> nat \<Rightarrow> segment" where
  "segment_at b p =
     (if elf32 b
      then \<lparr>seg_offset = file_number b (p + 4) 4, seg_address = of_nat (file_number b (p + 12) 4),
            seg_filesz = file_number b (p + 16) 4, seg_memsz = file_number b (p + 20) 4\<rparr>
      else \<lparr>seg_offset = file_number b (p + 8) 8, seg_address = of_nat (file_number b (p + 24) 8),
            seg_filesz = file_number b (p + 32) 8, seg_memsz = file_number b (p + 40) 8\<rparr>)"

text \<open>The loadable segments, in the order of their headers.\<close>

definition segment_list :: "u8 list \<Rightarrow> nat \<Rightarrow> segment list" where
  "segment_list b p = (if file_number b p 4 = 1 then [segment_at b p] else [])"

definition segments :: "u8 list \<Rightarrow> segment list" where
  "segments b = concat (map (\<lambda>i. segment_list b (header_start b i)) [0..<header_count b])"

text \<open>
  Nothing runs over: every header lies in the file, the bytes of every segment too, every segment takes
  less than 4 GiB of memory, and in a 32-bit file no segment wraps around the end of its address space.
\<close>

definition segment_fits :: "u8 list \<Rightarrow> segment \<Rightarrow> bool" where
  "segment_fits b s \<longleftrightarrow> seg_offset s + seg_filesz s \<le> length b \<and> seg_memsz s < 2 ^ 32 \<and>
     (elf32 b \<longrightarrow> unat (seg_address s) + max (seg_filesz s) (seg_memsz s) \<le> 2 ^ 32)"

definition loadable :: "u8 list \<Rightarrow> bool" where
  "loadable b \<longleftrightarrow> list_all (\<lambda>i. header_start b i + (if elf32 b then 32 else 56) \<le> length b \<and>
     list_all (segment_fits b) (segment_list b (header_start b i))) [0..<header_count b]"

text \<open>The byte of a segment at an address, and of a list of segments over what was there before.\<close>

definition segment_byte :: "u8 list \<Rightarrow> segment \<Rightarrow> u64 \<Rightarrow> u64 option" where
  "segment_byte b s a =
     (let k = unat (a - seg_address s)
      in if k < seg_filesz s then Some (ucast (b ! (seg_offset s + k)))
         else if k < seg_memsz s then Some 0 else None)"

definition loaded_byte :: "u8 list \<Rightarrow> segment list \<Rightarrow> u64 \<Rightarrow> u64 \<Rightarrow> u64" where
  "loaded_byte b ss a v = fold (\<lambda>s v. case segment_byte b s a of None \<Rightarrow> v | Some w \<Rightarrow> w) ss v"

lemma loaded_byte_append: "loaded_byte b (ss @ ts) a v = loaded_byte b ts a (loaded_byte b ss a v)"
  by (simp add: loaded_byte_def)

lemma loaded_byte_Nil [simp]: "loaded_byte b [] a v = v"
  by (simp add: loaded_byte_def)

section \<open>The loader loads them\<close>

lemma file_number_field:
  "unat (rd_half (b ! 5 = 1) (field b i 2)) = file_number b i 2"
  "unat (rd_word (b ! 5 = 1) (field b i 4)) = file_number b i 4"
  "unat (rd_xword (b ! 5 = 1) (field b i 8)) = file_number b i 8"
  by (simp_all add: file_number_def rd_eq unat_eq_nat_uint)

lemma file_number_less: "file_number b i 2 < 2 ^ 16" "file_number b i 4 < 2 ^ 32" "file_number b i 8 < 2 ^ 64"
proof -
  have "unat w < 2 ^ 16" for w :: u16 using unsigned_less [of w] by simp
  then show "file_number b i 2 < 2 ^ 16" using file_number_field(1) [of b i] by metis
  show "file_number b i 4 < 2 ^ 32"
    using unat_lt32 [of "rd_word (b ! 5 = 1) (field b i 4)"] by (simp add: file_number_field)
  show "file_number b i 8 < 2 ^ 64"
    using unat_lt64 [of "rd_xword (b ! 5 = 1) (field b i 8)"] by (simp add: file_number_field)
qed

lemma unat_is_1: "unat x = 1 \<longleftrightarrow> x = 1" for x :: u32
  using unat_1 [where 'a = 32] by (metis word_unat_eq_iff)

lemma block_loaded_byte:
  assumes "block_loaded b (seg_offset s) (seg_address s) (seg_filesz s) (seg_memsz s) t t'"
  shows "\<forall>a. byte_at t' a = loaded_byte b [s] a (byte_at t a)"
  using assms by (simp add: block_loaded_def byte_at_def loaded_byte_def segment_byte_def Let_def)

lemma load_header64:
  assumes "wf_rts t" "\<not> elf32 b" "length b < 2 ^ 31" "p + 56 \<le> length b" "list_all (segment_fits b) (segment_list b p)"
  shows "\<exists>t'. loadProgHdr64 (b ! 5 = 1) b (of_nat p) t = Inr t' \<and> wf_rts t' \<and>
    (\<forall>a. byte_at t' a = loaded_byte b (segment_list b p) a (byte_at t a))"
proof -
  have p: "unat (of_nat p :: u64) = p" using assms(3,4) by (intro unat_of_nat64) simp
  obtain h where h: "get_Elf64_Phdr b p = Inr h" using get_Phdr_Inr(2) [OF assms(4)] by blast
  then have f: "p64_type h = field b p 4" "p64_offset h = field b (p + 8) 8" "p64_paddr h = field b (p + 24) 8"
    "p64_filesz h = field b (p + 32) 8" "p64_memsz h = field b (p + 40) 8"
    by (auto simp: get_Elf64_Phdr_def)
  have len: "56 \<le> length b" "unat (of_nat p :: u64) + 56 \<le> length b" using assms(4) by (simp_all add: p)
  have h': "get_Elf64_Phdr b (unat (of_nat p :: u64)) = Inr h" unfolding p by (rule h)
  note hdr = assms(1) len(1) assms(3) len(2) h'
  have t: "rd_word (b ! 5 = 1) (p64_type h) = 1 \<longleftrightarrow> file_number b p 4 = 1"
    unfolding f(1) file_number_field(2) [symmetric] by (rule unat_is_1 [symmetric])
  show ?thesis
  proof (cases "file_number b p 4 = 1")
    case True
    define s where "s = segment_at b p"
    have s: "segment_list b p = [s]" using True by (simp add: segment_list_def s_def)
    have u: "unat (rd_xword (b ! 5 = 1) (p64_offset h)) = seg_offset s" "rd_xword (b ! 5 = 1) (p64_paddr h) = seg_address s"
      "unat (ucast (rd_xword (b ! 5 = 1) (p64_filesz h)) :: u32) = seg_filesz s mod 2 ^ 32"
      "unat (ucast (rd_xword (b ! 5 = 1) (p64_memsz h)) :: u32) = seg_memsz s mod 2 ^ 32"
      using assms(2) unfolding f s_def segment_at_def
      by (simp_all add: file_number_field [symmetric] unsigned_ucast_eq take_bit_eq_mod)
    have "seg_offset s + seg_filesz s \<le> length b" "seg_filesz s mod 2 ^ 32 = seg_filesz s" "seg_memsz s mod 2 ^ 32 = seg_memsz s"
      using assms(3,5) by (simp_all add: s segment_fits_def)
    with loadProgHdr64_segment [OF hdr, of "b ! 5 = 1"] t True show ?thesis
      by (auto simp: u s dest: block_loaded_byte)
  next
    case False
    with loadProgHdr64_cases [OF hdr(1-4), of "b ! 5 = 1"] h t assms(1) show ?thesis
      by (auto simp: p segment_list_def)
  qed
qed

lemma load_header32:
  assumes "wf_rts t" "elf32 b" "length b < 2 ^ 31" "p + 32 \<le> length b" "list_all (segment_fits b) (segment_list b p)"
  shows "\<exists>t'. loadProgHdr32 (b ! 5 = 1) b (of_nat p) t = Inr t' \<and> wf_rts t' \<and>
    (\<forall>a. byte_at t' a = loaded_byte b (segment_list b p) a (byte_at t a))"
proof -
  have p: "unat (of_nat p :: u32) = p" using assms(3,4) by (intro unat_of_nat32) simp
  obtain h where h: "get_Elf32_Phdr b p = Inr h" using get_Phdr_Inr(1) [OF assms(4)] by blast
  then have f: "p32_type h = field b p 4" "p32_offset h = field b (p + 4) 4" "p32_paddr h = field b (p + 12) 4"
    "p32_filesz h = field b (p + 16) 4" "p32_memsz h = field b (p + 20) 4"
    by (auto simp: get_Elf32_Phdr_def)
  have "unat (of_nat (length b) - 32 :: u64) = length b - 32"
    using assms(3,4) by (subst unat_sub64) (simp_all add: word_le_nat_alt unat_of_nat64)
  then have in_file: "\<not> (ucast (of_nat p :: u32) :: u64) > of_nat (length b) - 32"
    using assms(3,4) by (simp add: word_less_nat_alt p)
  have t: "rd_word (b ! 5 = 1) (p32_type h) = 1 \<longleftrightarrow> file_number b p 4 = 1"
    unfolding f(1) file_number_field(2) [symmetric] by (rule unat_is_1 [symmetric])
  show ?thesis
  proof (cases "file_number b p 4 = 1")
    case True
    define s where "s = segment_at b p"
    have s: "segment_list b p = [s]" using True by (simp add: segment_list_def s_def)
    have u: "unat (rd_word (b ! 5 = 1) (p32_offset h)) = seg_offset s" "ucast (rd_word (b ! 5 = 1) (p32_paddr h)) = seg_address s"
      "unat (rd_word (b ! 5 = 1) (p32_filesz h)) = seg_filesz s" "unat (rd_word (b ! 5 = 1) (p32_memsz h)) = seg_memsz s"
      using assms(2) unfolding f s_def segment_at_def
      by (simp_all add: file_number_field [symmetric])
    have fit: "seg_offset s + seg_filesz s \<le> length b" "unat (rd_word (b ! 5 = 1) (p32_paddr h)) + max (seg_filesz s) (seg_memsz s) \<le> 2 ^ 32"
      using assms(2,5) by (simp_all add: s segment_fits_def flip: u(2))
    have "\<not> rd_word (b ! 5 = 1) (p32_filesz h) > of_nat (length b) - rd_word (b ! 5 = 1) (p32_offset h)"
      using size_minus_offset32 [OF assms(3), of "rd_word (b ! 5 = 1) (p32_offset h)"] fit(1)
      by (simp add: word_less_nat_alt u)
    then have "loadProgHdr32 (b ! 5 = 1) b (of_nat p) t =
        loadBlock32 b (rd_word (b ! 5 = 1) (p32_offset h)) (rd_word (b ! 5 = 1) (p32_paddr h)) (rd_word (b ! 5 = 1) (p32_filesz h))
          (rd_word (b ! 5 = 1) (p32_memsz h)) t"
      using in_file h t True by (simp add: loadProgHdr32_def Let_def p)
    moreover obtain t' where "loadBlock32 b (rd_word (b ! 5 = 1) (p32_offset h)) (rd_word (b ! 5 = 1) (p32_paddr h))
        (rd_word (b ! 5 = 1) (p32_filesz h)) (rd_word (b ! 5 = 1) (p32_memsz h)) t = Inr t'" "wf_rts t'"
        "block_loaded b (seg_offset s) (seg_address s) (seg_filesz s) (seg_memsz s) t t'"
      using loadBlock32_eq [OF assms(1), of "rd_word (b ! 5 = 1) (p32_offset h)" "rd_word (b ! 5 = 1) (p32_filesz h)" b
          "rd_word (b ! 5 = 1) (p32_paddr h)" "rd_word (b ! 5 = 1) (p32_memsz h)"] fit assms(3) by (auto simp: u)
    ultimately show ?thesis by (auto simp: s dest: block_loaded_byte)
  next
    case False
    with in_file h t assms(1) show ?thesis
      by (simp add: loadProgHdr32_def Let_def p segment_list_def)
  qed
qed

text \<open>The loop over the headers, for either class.\<close>

lemma load_headers:
  assumes "wf_rts st" "loadable b"
    and step: "\<And>i t. \<lbrakk>i < header_count b; wf_rts t\<rbrakk> \<Longrightarrow> \<exists>t'. body i t = Inr t' \<and> wf_rts t' \<and>
      (\<forall>a. byte_at t' a = loaded_byte b (segment_list b (header_start b i)) a (byte_at t a))"
  shows "\<exists>st'. for_up_res 0 (header_count b) body st = Inr st' \<and> wf_rts st' \<and>
    (\<forall>a. byte_at st' a = loaded_byte b (segments b) a (byte_at st a))"
proof -
  have "\<exists>st'. for_up_res 0 (header_count b) body st = Inr st' \<and> (wf_rts st' \<and>
    (\<forall>a. byte_at st' a = loaded_byte b (concat (map (\<lambda>i. segment_list b (header_start b i)) [0..<header_count b])) a (byte_at st a)))"
  proof (rule for_up_res_induct)
    fix j t
    assume "j < header_count b" and t: "wf_rts t \<and>
      (\<forall>a. byte_at t a = loaded_byte b (concat (map (\<lambda>i. segment_list b (header_start b i)) [0..<j])) a (byte_at st a))"
    with step [of j t] show "\<exists>t'. body j t = Inr t' \<and> (wf_rts t' \<and>
      (\<forall>a. byte_at t' a = loaded_byte b (concat (map (\<lambda>i. segment_list b (header_start b i)) [0..<Suc j])) a (byte_at st a)))"
      by (auto simp: loaded_byte_append)
  qed (use assms in auto)
  then show ?thesis by (simp add: segments_def)
qed

lemma loadable_header:
  assumes "loadable b" "i < header_count b"
  shows "header_start b i + (if elf32 b then 32 else 56) \<le> length b"
    "list_all (segment_fits b) (segment_list b (header_start b i))"
  using assms by (simp_all add: loadable_def list_all_iff)

lemma header_product:
  assumes "length b < 2 ^ 31" "loadable b" "i < header_count b"
  shows "int i * int (header_step b) \<le> int_max"
proof -
  have "i * header_step b \<le> header_start b i" by (simp add: header_start_def)
  also have "\<dots> < 2 ^ 31" using loadable_header(1) [OF assms(2,3)] assms(1) by linarith
  finally have "int (i * header_step b) < int (2 ^ 31)" by (simp only: of_nat_less_iff)
  then show ?thesis by simp
qed

lemma load_headers32:
  assumes "wf_rts st" "length b < 2 ^ 31" "valid_elf b" "loadable b" "elf32 b"
  shows "\<exists>st'. loadELFHdr b st = Inr (st', True, ucast (field b 24 4 :: u32)) \<and>
    wf_rts st' \<and> (\<forall>a. byte_at st' a = loaded_byte b (segments b) a (byte_at st a))"
proof -
  obtain eh where eh: "get_Elf32_Ehdr b 0 = Inr eh" "e32_ident eh = take 16 b" "e32_entry eh = field b 24 4"
      "e32_phoff eh = field b 28 4" "e32_phentsize eh = field b 42 2" "e32_phnum eh = field b 44 2"
    using assms(3) by (auto simp: get_Elf32_Ehdr_def valid_elf_def)
  let ?le = "b ! 5 = 1"
  define body where "body = (\<lambda>i st. check (int i * uint (rd_half ?le (e32_phentsize eh)) \<le> int_max) Undefined_behaviour
    (loadProgHdr32 ?le b (rd_word ?le (e32_phoff eh) + of_nat (i * unat (rd_half ?le (e32_phentsize eh)))) st))"
  have n: "unat (rd_half ?le (e32_phnum eh)) = header_count b" "unat (rd_half ?le (e32_phentsize eh)) = header_step b"
    "rd_word ?le (e32_phoff eh) = of_nat (file_number b 28 4)"
    using assms(5) unfolding eh by (simp_all add: header_count_def header_step_def file_number_field flip: file_number_field(2))
  have "\<exists>t'. body i t = Inr t' \<and> wf_rts t' \<and>
      (\<forall>a. byte_at t' a = loaded_byte b (segment_list b (header_start b i)) a (byte_at t a))"
    if "i < header_count b" "wf_rts t" for i t
  proof -
    have "(rd_word ?le (e32_phoff eh) + of_nat (i * unat (rd_half ?le (e32_phentsize eh))) :: u32) = of_nat (header_start b i)"
      unfolding n using assms(5) by (simp add: header_start_def)
    moreover have "int i * uint (rd_half ?le (e32_phentsize eh)) \<le> int_max"
      using header_product [OF assms(2,4) that(1)] by (simp add: uint_nat n(2) del: of_nat_unat)
    ultimately show ?thesis
      using load_header32 [OF that(2) assms(5) assms(2)] loadable_header [OF assms(4) that(1)] assms(5) by (simp add: body_def)
  qed
  from load_headers [OF assms(1,4) this] obtain st' where
    "for_up_res 0 (unat (rd_half ?le (e32_phnum eh))) body st = Inr st'" "wf_rts st'"
    "\<forall>a. byte_at st' a = loaded_byte b (segments b) a (byte_at st a)" unfolding n(1) by blast
  then show ?thesis
    using assms(3,5) check_elf_iff [of b] eh(1,2,3) by (simp add: loadELFHdr_def Let_def body_def elf32_def)
qed

lemma load_headers64:
  assumes "wf_rts st" "length b < 2 ^ 31" "valid_elf b" "loadable b" "\<not> elf32 b"
  shows "\<exists>st'. loadELFHdr b st = Inr (st', False, field b 24 8) \<and>
    wf_rts st' \<and> (\<forall>a. byte_at st' a = loaded_byte b (segments b) a (byte_at st a))"
proof -
  have c2: "b ! 4 = 2" "64 \<le> length b" using assms(3,5) by (auto simp: valid_elf_def Let_def elf32_def)
  obtain eh where eh: "get_Elf32_Ehdr b 0 = Inr eh" "e32_ident eh = take 16 b"
    using assms(3) by (auto simp: get_Elf32_Ehdr_def valid_elf_def)
  obtain eh' where eh': "get_Elf64_Ehdr b 0 = Inr eh'" "e64_entry eh' = field b 24 8"
      "e64_phoff eh' = field b 32 8" "e64_phentsize eh' = field b 54 2" "e64_phnum eh' = field b 56 2"
    using c2 by (auto simp: get_Elf64_Ehdr_def)
  let ?le = "b ! 5 = 1"
  define body where "body = (\<lambda>i st. check (int i * uint (rd_half ?le (e64_phentsize eh')) \<le> int_max) Undefined_behaviour
    (loadProgHdr64 ?le b (rd_xword ?le (e64_phoff eh') + of_nat (i * unat (rd_half ?le (e64_phentsize eh')))) st))"
  have n: "unat (rd_half ?le (e64_phnum eh')) = header_count b" "unat (rd_half ?le (e64_phentsize eh')) = header_step b"
    "rd_xword ?le (e64_phoff eh') = of_nat (file_number b 32 8)"
    using assms(5) unfolding eh' by (simp_all add: header_count_def header_step_def file_number_field flip: file_number_field(3))
  have "\<exists>t'. body i t = Inr t' \<and> wf_rts t' \<and>
      (\<forall>a. byte_at t' a = loaded_byte b (segment_list b (header_start b i)) a (byte_at t a))"
    if "i < header_count b" "wf_rts t" for i t
  proof -
    have "(rd_xword ?le (e64_phoff eh') + of_nat (i * unat (rd_half ?le (e64_phentsize eh'))) :: u64) = of_nat (header_start b i)"
      unfolding n using assms(5) by (simp add: header_start_def)
    moreover have "int i * uint (rd_half ?le (e64_phentsize eh')) \<le> int_max"
      using header_product [OF assms(2,4) that(1)] by (simp add: uint_nat n(2) del: of_nat_unat)
    ultimately show ?thesis
      using load_header64 [OF that(2) assms(5) assms(2)] loadable_header [OF assms(4) that(1)] assms(5) by (simp add: body_def)
  qed
  from load_headers [OF assms(1,4) this] obtain st' where
    "for_up_res 0 (unat (rd_half ?le (e64_phnum eh'))) body st = Inr st'" "wf_rts st'"
    "\<forall>a. byte_at st' a = loaded_byte b (segments b) a (byte_at st a)" unfolding n(1) by blast
  then show ?thesis
    using assms(3) c2 check_elf_iff [of b] eh eh'(1,2) by (simp add: loadELFHdr_def Let_def body_def)
qed

lemma loadELFHdr_image:
  assumes "wf_rts st" "length b < 2 ^ 31" "valid_elf b" "loadable b"
  shows "\<exists>st'. loadELFHdr b st = Inr (st', elf32 b, if elf32 b then ucast (field b 24 4 :: u32) else field b 24 8) \<and>
    wf_rts st' \<and> (\<forall>a. byte_at st' a = loaded_byte b (segments b) a (byte_at st a))"
  using load_headers32 [OF assms] load_headers64 [OF assms] by (cases "elf32 b") auto

end
