(* ===== verification/Elf_Lookup.thy ===== *)
theory Elf_Lookup
  imports Elf_Image
begin

text \<open>
  What looking up a symbol in an ELF file finds, stated on the numbers in the file alone: the value
  of the first entry with the name in the last symbol table.
\<close>

section \<open>Sections and symbols of a file\<close>

definition section_count :: "u8 list \<Rightarrow> nat" where
  "section_count b = (if elf32 b then file_number b 48 2 else file_number b 60 2)"

definition name_section :: "u8 list \<Rightarrow> nat" where
  "name_section b = (if elf32 b then file_number b 50 2 else file_number b 62 2)"

definition section_start :: "u8 list \<Rightarrow> nat \<Rightarrow> nat" where
  "section_start b i = (if elf32 b then file_number b 32 4 + i * 40 else file_number b 40 8 + i * 64)"

definition section_type :: "u8 list \<Rightarrow> nat \<Rightarrow> nat" where
  "section_type b i = file_number b (section_start b i + 4) 4"

definition section_offset :: "u8 list \<Rightarrow> nat \<Rightarrow> nat" where
  "section_offset b i =
     (if elf32 b then file_number b (section_start b i + 16) 4 else file_number b (section_start b i + 24) 8)"

definition section_size :: "u8 list \<Rightarrow> nat \<Rightarrow> nat" where
  "section_size b i =
     (if elf32 b then file_number b (section_start b i + 20) 4 else file_number b (section_start b i + 32) 8)"

text \<open>The last symbol table, and the last string table that does not hold the section names; 0 for none.\<close>

definition symbol_section :: "u8 list \<Rightarrow> nat" where
  "symbol_section b = last_index (\<lambda>i. section_type b i = 2) (section_count b)"

definition string_section :: "u8 list \<Rightarrow> nat" where
  "string_section b = last_index (\<lambda>i. section_type b i = 3 \<and> i \<noteq> name_section b) (section_count b)"

definition symbol_count :: "u8 list \<Rightarrow> nat" where
  "symbol_count b = section_size b (symbol_section b) div (if elf32 b then 16 else 24)"

definition symbol_start :: "u8 list \<Rightarrow> nat \<Rightarrow> nat" where
  "symbol_start b k = section_offset b (symbol_section b) + k * (if elf32 b then 16 else 24)"

definition name_start :: "u8 list \<Rightarrow> nat \<Rightarrow> nat" where
  "name_start b k = section_offset b (string_section b) + file_number b (symbol_start b k) 4"

definition symbol_name :: "u8 list \<Rightarrow> nat \<Rightarrow> string" where
  "symbol_name b k = map (\<lambda>c. char_of (unat c)) (takeWhile (\<lambda>c. c \<noteq> 0) (drop (name_start b k) b))"

definition symbol_value :: "u8 list \<Rightarrow> nat \<Rightarrow> nat" where
  "symbol_value b k = (if elf32 b then file_number b (symbol_start b k + 4) 4 else file_number b (symbol_start b k + 8) 8)"

text \<open>
  A little-endian file (the code converts the offset of the section headers only in one of its two
  uses) in which the headers, the sections the lookup uses and the names of the symbols are in range.
\<close>

definition section_fits :: "u8 list \<Rightarrow> nat \<Rightarrow> bool" where
  "section_fits b i \<longleftrightarrow> section_offset b i + section_size b i \<le> length b"

definition symbol_fits :: "u8 list \<Rightarrow> nat \<Rightarrow> bool" where
  "symbol_fits b k \<longleftrightarrow>
     (let sz = section_size b (string_section b); x = file_number b (symbol_start b k) 4
      in x < sz \<and> list_ex (\<lambda>c. c = 0) (take (sz - x) (drop (name_start b k) b)))"

definition tables_fit :: "u8 list \<Rightarrow> bool" where
  "tables_fit b \<longleftrightarrow> b ! 5 = 1 \<and> section_start b (section_count b) \<le> length b \<and> name_section b < section_count b \<and>
     section_fits b (name_section b) \<and>
     (string_section b \<noteq> 0 \<and> symbol_section b \<noteq> 0 \<longrightarrow>
        section_fits b (string_section b) \<and> section_fits b (symbol_section b) \<and>
        list_all (symbol_fits b) [0..<symbol_count b])"

text \<open>The lookup of a name: the value of the first symbol that has it.\<close>

definition find_value :: "u8 list \<Rightarrow> string \<Rightarrow> u64 option" where
  "find_value b name =
     map_option (\<lambda>k. of_nat (symbol_value b k)) (find (\<lambda>k. symbol_name b k = name) [0..<symbol_count b])"

section \<open>Strings in the file\<close>

lemma strnlen_terminated:
  "p + m \<le> length b \<Longrightarrow> list_ex (\<lambda>c. c = 0) (take m (drop p b)) \<Longrightarrow>
   strnlen b p m = Inr (length (takeWhile (\<lambda>c. c \<noteq> 0) (drop p b))) \<and> length (takeWhile (\<lambda>c. c \<noteq> 0) (drop p b)) < m"
proof (induction m arbitrary: p)
  case (Suc m)
  then have p: "p < length b" "drop p b = b ! p # drop (Suc p) b" by (simp_all add: Cons_nth_drop_Suc)
  with Suc.prems Suc.IH [of "Suc p"] show ?case
    by (cases "b ! p = 0") (simp_all add: get_byte_def)
qed simp

lemma c_string_terminated:
  "c_string b p (length (takeWhile (\<lambda>c. c \<noteq> 0) (drop p b))) = map (\<lambda>c. char_of (unat c)) (takeWhile (\<lambda>c. c \<noteq> 0) (drop p b))"
  by (simp add: c_string_def takeWhile_eq_take [symmetric])

section \<open>The loops\<close>

lemma find_symbol32_at:
  assumes "symbol_at32 le b strtab sz symtab i = Some (m, v)" "i < n"
  shows "find_symbol32 le b strtab sz symtab name i n =
    (if m = name then Inr (Some v) else find_symbol32 le b strtab sz symtab name (Suc i) n)"
  using assms
  by (auto simp: find_symbol32.simps [of le b strtab sz symtab name i] symbol_at32_def Let_def strcmp_0_iff check_def not_le
      split: sum.splits if_splits)

lemma find_symbol64_at:
  assumes "symbol_at64 le b strtab sz symtab i = Some (m, v)" "i < n"
  shows "find_symbol64 le b strtab sz symtab name i n =
    (if m = name then Inr (Some v) else find_symbol64 le b strtab sz symtab name (Suc i) n)"
  using assms
  by (auto simp: find_symbol64.simps [of le b strtab sz symtab name i] symbol_at64_def Let_def strcmp_0_iff check_def not_le
      split: sum.splits if_splits)

lemma search_first:
  assumes "\<And>i. i < n \<Longrightarrow> f i = (if nm i = name then Inr (Some (vl i)) else f (Suc i))" "f n = Inr None"
  shows "i \<le> n \<Longrightarrow> f i = Inr (map_option vl (find (\<lambda>k. nm k = name) [i..<n]))"
proof (induction "n - i" arbitrary: i)
  case (Suc d)
  then have i: "i < n" "[i..<n] = i # [Suc i..<n]" by (simp_all add: upt_conv_Cons)
  with Suc.hyps(1) [of "Suc i"] Suc.hyps(2) assms(1) [of i] show ?case by simp
qed (use assms(2) in simp)

section \<open>What the loops find in a file whose tables fit\<close>

text \<open>On a little-endian file a field is its number.\<close>

lemma field_number:
  assumes "b ! 5 = 1"
  shows "unat (field b i 2 :: u16) = file_number b i 2" "unat (field b i 4 :: u32) = file_number b i 4"
    "unat (field b i 8 :: u64) = file_number b i 8"
  using file_number_field [of b i] assms by (simp_all add: rd_half_def rd_word_def rd_xword_def)

lemma rd_little [simp]: "rd_half True x = x" "rd_word True y = y" "rd_xword True z = z" "rd_word_of_xword True z = z"
  by (simp_all add: rd_half_def rd_word_def rd_xword_def rd_word_of_xword_def)

lemma symbol_in_table32:
  assumes "elf32 b" "b ! 5 = 1" "section_fits b (string_section b)" "section_fits b (symbol_section b)"
    and "k < symbol_count b" "symbol_fits b k" "unat sz = section_size b (string_section b)"
  shows "symbol_at32 True b (section_offset b (string_section b)) sz (section_offset b (symbol_section b)) k =
    Some (symbol_name b k, of_nat (symbol_value b k))"
proof -
  let ?p = "symbol_start b k"
  define x where "x = file_number b ?p 4"
  have k: "k < section_size b (symbol_section b) div 16" using assms(1,5) by (simp add: symbol_count_def)
  then have "(k + 1) * 16 \<le> section_size b (symbol_section b)" by (simp add: less_eq_div_iff_mult_less_eq [symmetric] Suc_le_eq)
  then have p: "?p = section_offset b (symbol_section b) + k * 16" "?p + 16 \<le> length b"
    using assms(1,4) by (simp_all add: symbol_start_def section_fits_def)
  have fit: "x < unat sz" "list_ex (\<lambda>c. c = 0) (take (unat sz - x) (drop (name_start b k) b))"
    using assms(6,7) by (simp_all add: symbol_fits_def Let_def x_def)
  have n: "name_start b k = section_offset b (string_section b) + x" by (simp add: name_start_def x_def)
  have f: "unat (field b ?p 4 :: u32) = x" "ucast (field b (?p + 4) 4 :: u32) = (of_nat (symbol_value b k) :: u64)"
    using assms(1) field_number(2) [OF assms(2)] of_nat_unat [of "field b (?p + 4) 4 :: u32", where 'a = "64 word"]
    by (simp_all add: x_def symbol_value_def)
  then have lt: "(field b ?p 4 :: u32) < sz" "unat (sz - field b ?p 4) = unat sz - x"
    using fit(1) unat_sub [of "field b ?p 4" sz] by (simp_all add: word_less_nat_alt word_le_nat_alt)
  have "name_start b k + (unat sz - x) \<le> length b" using assms(3,7) fit(1) n by (simp add: section_fits_def)
  from strnlen_terminated [OF this fit(2)] show ?thesis
    using p lt f by (simp add: symbol_at32_def get_Elf32_Sym_def Let_def n c_string_terminated flip: n p(1)) (simp add: symbol_name_def)
qed

lemma symbol_in_table64:
  assumes "\<not> elf32 b" "b ! 5 = 1" "section_fits b (string_section b)" "section_fits b (symbol_section b)" "length b < 2 ^ 31"
    and "k < symbol_count b" "symbol_fits b k" "unat sz = section_size b (string_section b)"
  shows "symbol_at64 True b (section_offset b (string_section b)) sz (section_offset b (symbol_section b)) k =
    Some (symbol_name b k, of_nat (symbol_value b k))"
proof -
  let ?p = "symbol_start b k"
  define x where "x = file_number b ?p 4"
  have k: "k < section_size b (symbol_section b) div 24" using assms(1,6) by (simp add: symbol_count_def)
  then have "(k + 1) * 24 \<le> section_size b (symbol_section b)" by (simp add: less_eq_div_iff_mult_less_eq [symmetric] Suc_le_eq)
  then have p: "?p = section_offset b (symbol_section b) + k * 24" "?p + 24 \<le> length b"
    using assms(1,4) by (simp_all add: symbol_start_def section_fits_def)
  have fit: "x < unat sz" "list_ex (\<lambda>c. c = 0) (take (unat sz - x) (drop (name_start b k) b))"
    using assms(7,8) by (simp_all add: symbol_fits_def Let_def x_def)
  have n: "name_start b k = section_offset b (string_section b) + x" by (simp add: name_start_def x_def)
  have f: "unat (field b ?p 4 :: u32) = x" "(field b (?p + 8) 8 :: u64) = of_nat (symbol_value b k)"
    using assms(1) field_number(2,3) [OF assms(2)] of_nat_unat [of "field b (?p + 8) 8 :: u64", where 'a = "64 word"]
    by (simp_all add: x_def symbol_value_def)
  have u: "unat (ucast (field b ?p 4 :: u32) :: u64) = x" using f(1) by simp
  have "unat (sz - ucast (field b ?p 4 :: u32)) = unat sz - x"
    using u fit(1) unat_sub [of "ucast (field b ?p 4 :: u32)" sz] by (simp add: word_le_nat_alt)
  moreover have "unat sz < 2 ^ 32" using assms(3,5,8) by (simp add: section_fits_def)
  ultimately have lt: "ucast (field b ?p 4 :: u32) < sz" "unat (ucast (sz - ucast (field b ?p 4 :: u32)) :: u32) = unat sz - x"
    using u fit(1) by (simp_all add: word_less_nat_alt unsigned_ucast_eq take_bit_nat_eq_self)
  have "name_start b k + (unat sz - x) \<le> length b" using assms(3,8) fit(1) n by (simp add: section_fits_def)
  from strnlen_terminated [OF this fit(2)] show ?thesis
    using p lt f by (simp add: symbol_at64_def get_Elf64_Sym_def Let_def n c_string_terminated flip: n p(1)) (simp add: symbol_name_def)
qed

text \<open>The loop over the section headers, for either class: it keeps the last index of each kind.\<close>

lemma table_loop:
  fixes body :: "nat \<Rightarrow> u32 \<times> u32 \<Rightarrow> (u32 \<times> u32) res"
  assumes "\<And>i s y. i < n \<Longrightarrow> body i (s, y) = Inr (if P i then of_nat i else s, if Q i then of_nat i else y)"
  shows "for_up_res 0 n body (0, 0) = Inr (of_nat (last_index P n), of_nat (last_index Q n))"
proof -
  have "\<exists>t. for_up_res 0 n body (0, 0) = Inr t \<and> t = (of_nat (last_index P n), of_nat (last_index Q n))"
    by (rule for_up_res_induct) (use assms in auto)
  then show ?thesis by blast
qed

lemma type_word: "(field b i 4 :: u32) = 2 \<longleftrightarrow> file_number b i 4 = 2" "(field b i 4 :: u32) = 3 \<longleftrightarrow> file_number b i 4 = 3"
  if "b ! 5 = 1"
  unfolding field_number(2) [OF that, symmetric] by (simp_all add: word_unat_eq_iff)

lemma section_start_mono:
  assumes "i < n"
  shows "section_start b i + (if elf32 b then 40 else 64) \<le> section_start b n"
proof -
  from assms have "(i + 1) * 40 \<le> n * 40" "(i + 1) * 64 \<le> n * 64" by (intro mult_right_mono; simp)+
  then show ?thesis by (simp add: section_start_def)
qed

lemma section_header32:
  assumes "elf32 b" "b ! 5 = 1" "section_start b (section_count b) \<le> length b" "i < section_count b"
  shows "\<exists>h. get_Elf32_Shdr b (file_number b 32 4 + i * 40) = Inr h \<and> unat (sh32_offset h) = section_offset b i \<and>
    unat (sh32_size h) = section_size b i \<and> sh32_type h = field b (section_start b i + 4) 4"
proof -
  have "section_start b i + 40 \<le> length b" using section_start_mono [OF assms(4), of b] assms(1,3) by simp
  then show ?thesis
    using assms(1) field_number [OF assms(2)]
    by (simp add: get_Elf32_Shdr_def section_start_def section_offset_def section_size_def)
qed

lemma find_tables32_spec:
  assumes "elf32 b" "b ! 5 = 1" "section_start b (section_count b) \<le> length b"
    and "e32_shoff eh = field b 32 4" "e32_shnum eh = field b 48 2" "e32_shtrndx eh = field b 50 2"
  shows "find_tables32 True b eh = Inr (of_nat (string_section b), of_nat (symbol_section b))"
proof -
  have n: "unat (e32_shnum eh) = section_count b" "unat (e32_shtrndx eh) = name_section b" "unat (e32_shoff eh) = file_number b 32 4"
    using assms(1,2,4,5,6) by (simp_all add: field_number section_count_def name_section_def)
  show ?thesis
    unfolding find_tables32_def string_section_def symbol_section_def rd_little n
  proof (rule table_loop)
    fix i s y assume "i < section_count b"
    then obtain h where "get_Elf32_Shdr b (file_number b 32 4 + i * 40) = Inr h" "sh32_type h = field b (section_start b i + 4) 4"
      using section_header32 [OF assms(1-3)] by blast
    then show "(\<lambda>(strtabidx, symtabidx).
          bind_res (get_Elf32_Shdr b (file_number b 32 4 + i * 40)) (\<lambda>shdr.
            let symtabidx = (if sh32_type shdr = SHT_SYMTAB then of_nat i else symtabidx);
                strtabidx = (if sh32_type shdr = SHT_STRTAB \<and> i \<noteq> name_section b then of_nat i else strtabidx)
            in Inr (strtabidx, symtabidx))) (s, y) =
        Inr (if section_type b i = 3 \<and> i \<noteq> name_section b then of_nat i else s, if section_type b i = 2 then of_nat i else y)"
      by (simp add: section_type_def type_word [OF assms(2)])
  qed
qed

lemma section_header64:
  assumes "\<not> elf32 b" "b ! 5 = 1" "section_start b (section_count b) \<le> length b" "i < section_count b"
  shows "\<exists>h. get_Elf64_Shdr b (file_number b 40 8 + i * 64) = Inr h \<and> unat (sh64_offset h) = section_offset b i \<and>
    unat (sh64_size h) = section_size b i \<and> sh64_type h = field b (section_start b i + 4) 4"
proof -
  have "section_start b i + 64 \<le> length b" using section_start_mono [OF assms(4), of b] assms(1,3) by simp
  then show ?thesis
    using assms(1) field_number [OF assms(2)]
    by (simp add: get_Elf64_Shdr_def section_start_def section_offset_def section_size_def)
qed

lemma find_tables64_spec:
  assumes "\<not> elf32 b" "b ! 5 = 1" "section_start b (section_count b) \<le> length b"
    and "e64_shoff eh = field b 40 8" "e64_shnum eh = field b 60 2" "e64_shtrndx eh = field b 62 2"
  shows "find_tables64 True b eh = Inr (of_nat (string_section b), of_nat (symbol_section b))"
proof -
  have n: "unat (e64_shnum eh) = section_count b" "unat (e64_shtrndx eh) = name_section b" "unat (e64_shoff eh) = file_number b 40 8"
    using assms(1,2,4,5,6) by (simp_all add: field_number section_count_def name_section_def)
  show ?thesis
    unfolding find_tables64_def string_section_def symbol_section_def rd_little n
  proof (rule table_loop)
    fix i s y assume "i < section_count b"
    then obtain h where "get_Elf64_Shdr b (file_number b 40 8 + i * 64) = Inr h" "sh64_type h = field b (section_start b i + 4) 4"
      using section_header64 [OF assms(1-3)] by blast
    then show "(\<lambda>(strtabidx, symtabidx).
          bind_res (get_Elf64_Shdr b (file_number b 40 8 + i * 64)) (\<lambda>shdr.
            let symtabidx = (if sh64_type shdr = SHT_SYMTAB then of_nat i else symtabidx);
                strtabidx = (if sh64_type shdr = SHT_STRTAB \<and> i \<noteq> name_section b then of_nat i else strtabidx)
            in Inr (strtabidx, symtabidx))) (s, y) =
        Inr (if section_type b i = 3 \<and> i \<noteq> name_section b then of_nat i else s, if section_type b i = 2 then of_nat i else y)"
      by (simp add: section_type_def type_word [OF assms(2)])
  qed
qed

text \<open>The lookup as a whole.\<close>

definition lookup_result :: "u8 list \<Rightarrow> string \<Rightarrow> 'a streams_scheme \<Rightarrow> ((int \<times> u64 option) \<times> 'a streams_scheme) res" where
  "lookup_result b name st =
     (if string_section b = 0 \<or> symbol_section b = 0
      then Inr ((- 1, None), put_err (''ELF: unable to find string or symbol table'' @ newline) st)
      else Inr ((case find_value b name of None \<Rightarrow> (- 1, None) | Some v \<Rightarrow> (0, Some v)), st))"

lemma lookup_result_allocated: "in_allocation n (lookup_result b name st) = lookup_result b name st"
  by (simp add: lookup_result_def)

lemma last_index_less: "0 < n \<Longrightarrow> last_index P n < n"
  by (induction n) (auto simp: less_Suc_eq)

lemma table_index:
  assumes "name_section b < section_count b"
  shows "string_section b < section_count b" "symbol_section b < section_count b"
    "unat (of_nat (string_section b) :: u32) = string_section b" "unat (of_nat (symbol_section b) :: u32) = symbol_section b"
proof -
  show l: "string_section b < section_count b" "symbol_section b < section_count b"
    using assms by (simp_all add: string_section_def symbol_section_def last_index_less)
  have "section_count b < 2 ^ 16" by (simp add: section_count_def file_number_less [simplified])
  with l show "unat (of_nat (string_section b) :: u32) = string_section b" "unat (of_nat (symbol_section b) :: u32) = symbol_section b"
    by (simp_all add: unat_of_nat32)
qed

lemma search32_spec:
  assumes "elf32 b" "b ! 5 = 1" "length b < 2 ^ 31" "section_fits b (string_section b)" "section_fits b (symbol_section b)"
    and "\<And>k. k < symbol_count b \<Longrightarrow> symbol_fits b k" "unat sz = section_size b (string_section b)"
  shows "find_symbol32 True b (section_offset b (string_section b)) sz (section_offset b (symbol_section b)) name 0 (symbol_count b) =
    Inr (find_value b name)"
  unfolding find_value_def
proof (rule search_first [where f = "\<lambda>i. find_symbol32 True b (section_offset b (string_section b)) sz
      (section_offset b (symbol_section b)) name i (symbol_count b)"])
  fix i assume i: "i < symbol_count b"
  have "symbol_at32 True b (section_offset b (string_section b)) sz (section_offset b (symbol_section b)) i =
      Some (symbol_name b i, of_nat (symbol_value b i))"
    by (rule symbol_in_table32) (use assms i in simp_all)
  then show "find_symbol32 True b (section_offset b (string_section b)) sz (section_offset b (symbol_section b)) name i
      (symbol_count b) = (if symbol_name b i = name then Inr (Some (of_nat (symbol_value b i)))
      else find_symbol32 True b (section_offset b (string_section b)) sz (section_offset b (symbol_section b)) name (Suc i)
        (symbol_count b))"
    using i by (rule find_symbol32_at)
qed (simp_all add: find_symbol32.simps)

lemma lookup32_start:
  assumes "elf32 b" "52 \<le> length b" "length b < 2 ^ 31" "tables_fit b"
  shows "lookupSymbol32 b True name st =
      (if string_section b = 0 \<or> symbol_section b = 0 then no_table st
       else bind_res (get_Elf32_Shdr b (file_number b 32 4 + string_section b * 40)) (\<lambda>strtab.
            bind_res (get_Elf32_Shdr b (file_number b 32 4 + symbol_section b * 40)) (\<lambda>symtab.
            bind_res (find_symbol32 True b (unat (sh32_offset strtab)) (sh32_size strtab) (unat (sh32_offset symtab)) name 0
                 (unat (sh32_size symtab) div 16))
              (symbol_result st))))"
proof -
  have le: "b ! 5 = 1" and hs: "section_start b (section_count b) \<le> length b" and ns: "name_section b < section_count b"
    and nf: "section_fits b (name_section b)" using assms(4) by (simp_all add: tables_fit_def)
  obtain eh where eh: "get_Elf32_Ehdr b 0 = Inr eh" "e32_shoff eh = field b 32 4" "e32_shnum eh = field b 48 2" "e32_shtrndx eh = field b 50 2"
    using assms(2) by (auto simp: get_Elf32_Ehdr_def)
  have n: "unat (e32_shnum eh) = section_count b" "unat (e32_shtrndx eh) = name_section b" "unat (e32_shoff eh) = file_number b 32 4"
    using assms(1) le eh by (simp_all add: field_number section_count_def name_section_def)
  have L: "unat (of_nat (length b) :: u64) = length b" "unat (of_nat (length b) :: u32) = length b"
    using assms(3) by (simp_all add: unat_of_nat64 unat_of_nat32)
  have room: "\<not> (of_nat (length b) :: u64) < ucast (e32_shoff eh) + ucast (e32_shnum eh) * 40"
  proof -
    have c: "section_count b < 2 ^ 16" "file_number b 32 4 < 2 ^ 32"
      using file_number_less(1) [of b 48] file_number_less(2) [of b 32] assms(1,3) hs by (simp_all add: section_count_def section_start_def)
    have "unat (ucast (e32_shnum eh) :: u64) = section_count b"
      using c(1) by (simp add: unsigned_ucast_eq n(1) take_bit_nat_eq_self)
    then have "unat (ucast (e32_shnum eh) * 40 :: u64) = section_count b * 40"
      using c(1) by (simp add: unat_word_ariths)
    then have "unat (ucast (e32_shoff eh) + ucast (e32_shnum eh) * 40 :: u64) = section_start b (section_count b)"
      using n(3) c assms(1) by (simp add: unat_add64 section_start_def)
    then show ?thesis using hs L(1) by (simp add: word_less_nat_alt)
  qed
  obtain hn where hn: "get_Elf32_Shdr b (file_number b 32 4 + name_section b * 40) = Inr hn"
      "unat (sh32_offset hn) = section_offset b (name_section b)" "unat (sh32_size hn) = section_size b (name_section b)"
    using section_header32 [OF assms(1) le hs ns] by blast
  have "unat (sh32_offset hn) + unat (sh32_size hn) < 2 ^ 32"
    using nf assms(3) by (simp add: hn section_fits_def)
  then have strings: "\<not> (of_nat (length b) :: u32) < sh32_offset hn + sh32_size hn"
    using nf L(2) by (simp add: word_less_nat_alt unat_add32 hn section_fits_def)
  have idx: "\<not> e32_shtrndx eh \<ge> e32_shnum eh" using ns n by (simp add: word_le_nat_alt)
  show ?thesis
    using find_tables32_spec [OF assms(1) le hs eh(2-4)] table_index [OF ns]
    by (simp add: lookupSymbol32_def Let_def eh(1) room idx hn(1) strings n word_unat_eq_iff)
qed

lemma lookup32_spec:
  assumes "elf32 b" "52 \<le> length b" "length b < 2 ^ 31" "tables_fit b"
  shows "lookupSymbol32 b True name st = lookup_result b name st"
proof (cases "string_section b = 0 \<or> symbol_section b = 0")
  case True
  then show ?thesis unfolding lookup32_start [OF assms] by (auto simp: lookup_result_def no_table_def)
next
  case False
  have t: "b ! 5 = 1" "section_start b (section_count b) \<le> length b" "name_section b < section_count b"
      "section_fits b (string_section b)" "section_fits b (symbol_section b)" "\<And>k. k < symbol_count b \<Longrightarrow> symbol_fits b k"
    using assms(4) False by (auto simp: tables_fit_def list_all_iff)
  obtain hs where hs: "get_Elf32_Shdr b (file_number b 32 4 + string_section b * 40) = Inr hs"
      "unat (sh32_offset hs) = section_offset b (string_section b)" "unat (sh32_size hs) = section_size b (string_section b)"
    using section_header32 [OF assms(1) t(1,2) table_index(1) [OF t(3)]] by blast
  obtain hy where hy: "get_Elf32_Shdr b (file_number b 32 4 + symbol_section b * 40) = Inr hy"
      "unat (sh32_offset hy) = section_offset b (symbol_section b)" "unat (sh32_size hy) = section_size b (symbol_section b)"
    using section_header32 [OF assms(1) t(1,2) table_index(2) [OF t(3)]] by blast
  have "section_size b (symbol_section b) div 16 = symbol_count b" using assms(1) by (simp add: symbol_count_def)
  then show ?thesis
    using False search32_spec [OF assms(1) t(1) assms(3) t(4-6) hs(3)] unfolding lookup32_start [OF assms]
    by (simp add: hs hy lookup_result_def symbol_result_def split: option.splits)
qed

lemma search64_spec:
  assumes "\<not> elf32 b" "b ! 5 = 1" "length b < 2 ^ 31" "section_fits b (string_section b)" "section_fits b (symbol_section b)"
    and "\<And>k. k < symbol_count b \<Longrightarrow> symbol_fits b k" "unat sz = section_size b (string_section b)"
  shows "find_symbol64 True b (section_offset b (string_section b)) sz (section_offset b (symbol_section b)) name 0 (symbol_count b) =
    Inr (find_value b name)"
  unfolding find_value_def
proof (rule search_first [where f = "\<lambda>i. find_symbol64 True b (section_offset b (string_section b)) sz
      (section_offset b (symbol_section b)) name i (symbol_count b)"])
  fix i assume i: "i < symbol_count b"
  have "symbol_at64 True b (section_offset b (string_section b)) sz (section_offset b (symbol_section b)) i =
      Some (symbol_name b i, of_nat (symbol_value b i))"
    by (rule symbol_in_table64) (use assms i in simp_all)
  then show "find_symbol64 True b (section_offset b (string_section b)) sz (section_offset b (symbol_section b)) name i
      (symbol_count b) = (if symbol_name b i = name then Inr (Some (of_nat (symbol_value b i)))
      else find_symbol64 True b (section_offset b (string_section b)) sz (section_offset b (symbol_section b)) name (Suc i)
        (symbol_count b))"
    using i by (rule find_symbol64_at)
qed (simp_all add: find_symbol64.simps)

lemma lookup64_start:
  assumes "\<not> elf32 b" "64 \<le> length b" "length b < 2 ^ 31" "tables_fit b"
  shows "lookupSymbol64 b True name st =
      (if string_section b = 0 \<or> symbol_section b = 0 then no_table st
       else bind_res (get_Elf64_Shdr b (file_number b 40 8 + string_section b * 64)) (\<lambda>strtab.
            bind_res (get_Elf64_Shdr b (file_number b 40 8 + symbol_section b * 64)) (\<lambda>symtab.
            bind_res (find_symbol64 True b (unat (sh64_offset strtab)) (sh64_size strtab) (unat (sh64_offset symtab)) name 0
                 (unat (sh64_size symtab) div 24))
              (symbol_result st))))"
proof -
  have le: "b ! 5 = 1" and hs: "section_start b (section_count b) \<le> length b" and ns: "name_section b < section_count b"
    and nf: "section_fits b (name_section b)" using assms(4) by (simp_all add: tables_fit_def)
  obtain eh where eh: "get_Elf64_Ehdr b 0 = Inr eh" "e64_shoff eh = field b 40 8" "e64_shnum eh = field b 60 2" "e64_shtrndx eh = field b 62 2"
    using assms(2) by (auto simp: get_Elf64_Ehdr_def)
  have n: "unat (e64_shnum eh) = section_count b" "unat (e64_shtrndx eh) = name_section b" "unat (e64_shoff eh) = file_number b 40 8"
    using assms(1) le eh by (simp_all add: field_number section_count_def name_section_def)
  have L: "unat (of_nat (length b) :: u64) = length b" "unat (of_nat (length b) :: u64) = length b"
    using assms(3) by (simp_all add: unat_of_nat64 unat_of_nat32)
  have room: "\<not> (of_nat (length b) :: u64) < e64_shoff eh + ucast (e64_shnum eh) * 64"
  proof -
    have c: "section_count b < 2 ^ 16" "file_number b 40 8 < 2 ^ 32"
      using file_number_less(1) [of b 60] file_number_less(1) [of b 60] assms(1,3) hs by (simp_all add: section_count_def section_start_def)
    have "unat (ucast (e64_shnum eh) :: u64) = section_count b"
      using c(1) by (simp add: unsigned_ucast_eq n(1) take_bit_nat_eq_self)
    then have "unat (ucast (e64_shnum eh) * 64 :: u64) = section_count b * 64"
      using c(1) by (simp add: unat_word_ariths)
    then have "unat (e64_shoff eh + ucast (e64_shnum eh) * 64 :: u64) = section_start b (section_count b)"
      using n(3) c assms(1) by (simp add: unat_add64 section_start_def)
    then show ?thesis using hs L(1) by (simp add: word_less_nat_alt)
  qed
  obtain hn where hn: "get_Elf64_Shdr b (file_number b 40 8 + name_section b * 64) = Inr hn"
      "unat (sh64_offset hn) = section_offset b (name_section b)" "unat (sh64_size hn) = section_size b (name_section b)"
    using section_header64 [OF assms(1) le hs ns] by blast
  have "unat (sh64_offset hn) + unat (sh64_size hn) < 2 ^ 32"
    using nf assms(3) by (simp add: hn section_fits_def)
  then have strings: "\<not> (of_nat (length b) :: u64) < sh64_offset hn + sh64_size hn"
    using nf L(2) by (simp add: word_less_nat_alt unat_add64 hn section_fits_def)
  have idx: "\<not> e64_shtrndx eh \<ge> e64_shnum eh" using ns n by (simp add: word_le_nat_alt)
  show ?thesis
    using find_tables64_spec [OF assms(1) le hs eh(2-4)] table_index [OF ns]
    by (simp add: lookupSymbol64_def Let_def eh(1) room idx hn(1) strings n word_unat_eq_iff)
qed

lemma lookup64_spec:
  assumes "\<not> elf32 b" "64 \<le> length b" "length b < 2 ^ 31" "tables_fit b"
  shows "lookupSymbol64 b True name st = lookup_result b name st"
proof (cases "string_section b = 0 \<or> symbol_section b = 0")
  case True
  then show ?thesis unfolding lookup64_start [OF assms] by (auto simp: lookup_result_def no_table_def)
next
  case False
  have t: "b ! 5 = 1" "section_start b (section_count b) \<le> length b" "name_section b < section_count b"
      "section_fits b (string_section b)" "section_fits b (symbol_section b)" "\<And>k. k < symbol_count b \<Longrightarrow> symbol_fits b k"
    using assms(4) False by (auto simp: tables_fit_def list_all_iff)
  obtain hs where hs: "get_Elf64_Shdr b (file_number b 40 8 + string_section b * 64) = Inr hs"
      "unat (sh64_offset hs) = section_offset b (string_section b)" "unat (sh64_size hs) = section_size b (string_section b)"
    using section_header64 [OF assms(1) t(1,2) table_index(1) [OF t(3)]] by blast
  obtain hy where hy: "get_Elf64_Shdr b (file_number b 40 8 + symbol_section b * 64) = Inr hy"
      "unat (sh64_offset hy) = section_offset b (symbol_section b)" "unat (sh64_size hy) = section_size b (symbol_section b)"
    using section_header64 [OF assms(1) t(1,2) table_index(2) [OF t(3)]] by blast
  have "section_size b (symbol_section b) div 24 = symbol_count b" using assms(1) by (simp add: symbol_count_def)
  then show ?thesis
    using False search64_spec [OF assms(1) t(1) assms(3) t(4-6) hs(3)] unfolding lookup64_start [OF assms]
    by (simp add: hs hy lookup_result_def symbol_result_def split: option.splits)
qed

lemma lookupSymbol_spec:
  assumes "valid_elf b" "length b < 2 ^ 31" "tables_fit b"
  shows "lookupSymbol b name st = lookup_result b name st"
proof -
  have l: "52 \<le> length b" "b ! 5 = 1" using assms(1,3) by (simp_all add: valid_elf_def tables_fit_def)
  obtain hdr where hdr: "get_Elf32_Ehdr b 0 = Inr hdr" "e32_ident hdr = take 16 b"
    using l(1) by (auto simp: get_Elf32_Ehdr_def)
  show ?thesis
  proof (cases "elf32 b")
    case True
    with lookup32_spec [OF True l(1) assms(2,3)] show ?thesis
      using assms(1) l hdr check_elf_iff [of b] by (simp add: lookupSymbol_def elf32_def)
  next
    case False
    then have "64 \<le> length b" "b ! 4 = 2" using assms(1) by (auto simp: valid_elf_def Let_def elf32_def)
    with lookup64_spec [OF False _ assms(2,3)] show ?thesis
      using assms(1) l hdr check_elf_iff [of b] by (simp add: lookupSymbol_def)
  qed
qed

end
