(* ===== verification/Rts_Boot.thy ===== *)
theory Rts_Boot
  imports Elf_Image Rts_Commands
begin

text \<open>
  Start of an emulator: what a command line that loads files leaves for the generated model to run on. The
  promise is stated on the contents of the files, for memory, entry point, cycle limit and verbosity; the code
  keeps it through the command line, the three loaders and the blocks of the memory.
\<close>

section \<open>What the commands promise\<close>

record boot =
  b_byte :: "u64 \<Rightarrow> u64"
  b_entry :: u64
  b_limit :: i64
  b_verbosity :: u64

definition boot_of :: "rts \<Rightarrow> boot" where
  "boot_of st = \<lparr>b_byte = byte_at st, b_entry = g_elf_entry st, b_limit = g_cycle_limit st, b_verbosity = g_verbosity st\<rparr>"

lemma boot_of_simps [simp]:
  "b_byte (boot_of st) = byte_at st" "b_entry (boot_of st) = g_elf_entry st"
  "b_limit (boot_of st) = g_cycle_limit st" "b_verbosity (boot_of st) = g_verbosity st"
  by (simp_all add: boot_of_def)

lemma boot_eqI:
  "b_byte A = b_byte B \<Longrightarrow> b_entry A = b_entry B \<Longrightarrow> b_limit A = b_limit B \<Longrightarrow> b_verbosity A = b_verbosity B \<Longrightarrow> A = (B :: boot)"
  by (cases A; cases B) simp

fun item_entry :: "image_item \<Rightarrow> u64 \<Rightarrow> u64" where
  "item_entry (Image_entry v) e = of_nat v"
| "item_entry (Image_byte a d) e = e"

text \<open>The memory after the bytes of a raw file are stored from \<open>a\<close> on, after an ELF file, and after an image file.\<close>

definition raw_over :: "u64 \<Rightarrow> u8 list \<Rightarrow> (u64 \<Rightarrow> u64) \<Rightarrow> u64 \<Rightarrow> u64" where
  "raw_over a b m c = (if unat (c - a) < length b then ucast (b ! unat (c - a)) else m c)"

definition elf_over :: "u8 list \<Rightarrow> (u64 \<Rightarrow> u64) \<Rightarrow> u64 \<Rightarrow> u64" where
  "elf_over b m c = loaded_byte b (segments b) c (m c)"

definition items_over :: "image_item list \<Rightarrow> (u64 \<Rightarrow> u64) \<Rightarrow> u64 \<Rightarrow> u64" where
  "items_over is m c = (case fold (item_byte c) is None of Some v \<Rightarrow> v | None \<Rightarrow> m c)"

text \<open>
  The contents of compressed files, of plain files, and the items of image files. An entry point given by
  itself has its effect at the end.
\<close>

fun command_effect :: "(string \<Rightarrow> u8 list option) \<Rightarrow> files \<Rightarrow> (string \<Rightarrow> image_item list) \<Rightarrow> command \<Rightarrow> boot \<Rightarrow> boot" where
  "command_effect contents fs items (Load_elf f) B =
     (case contents f of None \<Rightarrow> B | Some b \<Rightarrow> B\<lparr>b_byte := elf_over b (b_byte B)\<rparr>)"
| "command_effect contents fs items (Load_raw a f) B =
     (case fs f of None \<Rightarrow> B | Some b \<Rightarrow> B\<lparr>b_byte := raw_over a b (b_byte B)\<rparr>)"
| "command_effect contents fs items (Load_image f) B =
     B\<lparr>b_byte := items_over (items f) (b_byte B), b_entry := fold item_entry (items f) (b_entry B)\<rparr>"
| "command_effect contents fs items (Cycle_limit n) B = B\<lparr>b_limit := n\<rparr>"
| "command_effect contents fs items (Verbosity v) B = B\<lparr>b_verbosity := v\<rparr>"
| "command_effect contents fs items (Entry_point v) B = B"
| "command_effect contents fs items (Set_flag f v) B = B"

definition boot_result :: "(string \<Rightarrow> u8 list option) \<Rightarrow> files \<Rightarrow> (string \<Rightarrow> image_item list) \<Rightarrow> command list \<Rightarrow> boot \<Rightarrow> boot" where
  "boot_result contents fs items cs B =
     (let B = fold (command_effect contents fs items) cs B
      in case entry_of cs None of None \<Rightarrow> B | Some e \<Rightarrow> B\<lparr>b_entry := e\<rparr>)"

text \<open>
  The files of the commands exist and are what they should be, the names of raw files have no white space, and
  flags are ignored.
\<close>

fun command_files :: "'h host \<Rightarrow> (string \<Rightarrow> u8 list option) \<Rightarrow> (string \<Rightarrow> image_item list) \<Rightarrow> command \<Rightarrow> bool" where
  "command_files E contents items (Load_elf f) \<longleftrightarrow>
     (case contents f of None \<Rightarrow> False | Some b \<Rightarrow> int (length b) + 2 ^ 24 \<le> int_max \<and> valid_elf b \<and> loadable b)"
| "command_files E contents items (Load_raw a f) \<longleftrightarrow>
     f \<noteq> [] \<and> list_all (\<lambda>c. \<not> is_space c) f \<and>
     (case host_files E f of None \<Rightarrow> False | Some b \<Rightarrow> length b \<le> 2 ^ 64)"
| "command_files E contents items (Load_image f) \<longleftrightarrow>
     (case host_files E f of None \<Rightarrow> False
      | Some b \<Rightarrow> map (\<lambda>b. char_of (unat b)) b = image_text (items f) \<and> list_all image_valid (items f))"
| "command_files E contents items (Set_flag f v) \<longleftrightarrow> host_config E = None"
| "command_files E contents items c \<longleftrightarrow> True"

section \<open>The commands do what they promise\<close>

lemma put_err_registers [simp]:
  "g_elf_entry (put_err s st) = g_elf_entry st" "g_cycle_limit (put_err s st) = g_cycle_limit st"
  "g_verbosity (put_err s st) = g_verbosity st" "byte_at (put_err s st) = byte_at st"
  by (simp_all add: put_err_def byte_at_def read_mem_def fun_eq_iff)

lemma same_registers_boot:
  assumes "same_registers st st'" "\<forall>a. byte_at st' a = m a"
  shows "boot_of st' = boot_of st\<lparr>b_byte := m\<rparr>"
  using same_registers_fields [OF assms(1)] assms(2) by (intro boot_eqI) (auto simp: fun_eq_iff)

lemma load_items_entry:
  "load_items is st = Inr st' \<Longrightarrow>
   g_elf_entry st' = fold item_entry is (g_elf_entry st) \<and> g_cycle_limit st' = g_cycle_limit st \<and> g_verbosity st' = g_verbosity st"
proof (induction "is" arbitrary: st)
  case (Cons i "is")
  then show ?case
    by (cases i) (auto simp: bind_res_Inr_iff dest!: write_mem_frame same_registers_fields)
qed simp

lemma image_command:
  assumes "wf_rts st" "\<And>k. 22 \<le> host_getline E 0 k" "command_files E contents items (Load_image f)"
  shows "\<exists>st'. load_image (host_files E) (host_getline E) f st = Inr st' \<and> wf_rts st' \<and>
    boot_of st' = command_effect contents (host_files E) items (Load_image f) (boot_of st)"
proof -
  obtain b where b: "host_files E f = Some b" "map (\<lambda>b. char_of (unat b)) b = image_text (items f)" "list_all image_valid (items f)"
    using assms(3) by (auto split: option.splits)
  have "load_image (host_files E) (host_getline E) f st = load_items (items f) st"
    using image_lines_valid [of "host_getline E" "items f" st, OF assms(2) b(3)] b(1,2)
    by (simp add: load_image_def)
  moreover obtain st' where st': "load_items (items f) st = Inr st'" "wf_rts st'"
      "\<forall>a. byte_at st' a = (case fold (item_byte a) (items f) None of Some v \<Rightarrow> v | None \<Rightarrow> byte_at st a)"
    using load_items_memory [OF assms(1)] by blast
  ultimately show ?thesis
    using load_items_entry [OF st'(1)] by (auto intro!: boot_eqI simp: fun_eq_iff items_over_def)
qed

lemma raw_command:
  assumes "wf_rts st" "command_files E contents items (Load_raw a f)"
  shows "\<exists>st'. load_raw (host_files E) a f st = Inr st' \<and> wf_rts st' \<and>
    boot_of st' = command_effect contents (host_files E) items (Load_raw a f) (boot_of st)"
proof -
  obtain b where b: "host_files E f = Some b" "length b \<le> 2 ^ 64" using assms(2) by (auto split: option.splits)
  obtain st' where st': "load_bytes a b st = Inr st'" "wf_rts st'"
    "\<forall>c. read_mem c st' = (if unat (c - a) < length b then Inr (ucast (b ! unat (c - a))) else read_mem c st)"
    using load_bytes_eq [OF assms(1) b(2)] by blast
  have "\<forall>c. byte_at st' c = raw_over a b (byte_at st) c"
    using st'(3) by (simp add: byte_at_def raw_over_def)
  from same_registers_boot [OF load_bytes_frame [OF st'(1)] this] st'(1,2) b(1) show ?thesis
    by (simp add: load_raw_def)
qed

lemma elf_command:
  assumes "zlib_laws (host_zlib E) rest contents" "wf_rts st" "command_files E contents items (Load_elf f)"
  shows "\<exists>st' r. load_elf (host_zlib E) f st = Inr (st', r) \<and> wf_rts st' \<and>
    boot_of st' = command_effect contents (host_files E) items (Load_elf f) (boot_of st)"
proof -
  obtain b where b: "contents f = Some b" "int (length b) + 2 ^ 24 \<le> int_max" "valid_elf b" "loadable b"
    using assms(3) by (auto split: option.splits)
  obtain cap where "read_file (host_zlib E) f = Inr (b, cap)"
    using zlib_laws.read_file_Some [OF assms(1) b(1,2)] by blast
  moreover obtain st' where st': "loadELFHdr b st = Inr (st', elf32 b, if elf32 b then ucast (field b 24 4 :: u32) else field b 24 8)"
      "wf_rts st'" "\<forall>a. byte_at st' a = elf_over b (byte_at st) a"
    using loadELFHdr_image [OF assms(2) _ b(3,4)] b(2) by (auto simp: elf_over_def)
  ultimately show ?thesis
    using same_registers_boot [OF loadELFHdr_frame [OF st'(1)] st'(3)] b(1) by (simp add: load_elf_def)
qed

lemma command_boots:
  assumes "zlib_laws (host_zlib E) rest contents" "\<And>k. 22 \<le> host_getline E 0 k" "wf_rts st" "command_files E contents items c"
  shows "\<exists>st'. do_command E c st = Inr st' \<and> wf_rts st' \<and> boot_of st' = command_effect contents (host_files E) items c (boot_of st)"
proof (cases c)
  case (Load_raw a f)
  with raw_command [OF assms(3)] assms(4) first_word_plain [of f] show ?thesis by simp
next
  case (Load_image f)
  with image_command [OF assms(3,2)] assms(4) show ?thesis by simp
next
  case (Load_elf f)
  with elf_command [OF assms(1,3)] assms(4) show ?thesis by fastforce
qed (use assms(3,4) in \<open>auto intro!: boot_eqI simp: byte_at_def read_mem_def wf_rts_def fun_eq_iff\<close>)

lemma commands_boot:
  assumes "zlib_laws (host_zlib E) rest contents" "\<And>k. 22 \<le> host_getline E 0 k"
  shows "wf_rts st \<Longrightarrow> list_all (command_files E contents items) cs \<Longrightarrow>
    \<exists>st'. do_commands E cs st = Inr st' \<and> wf_rts st' \<and>
      boot_of st' = fold (command_effect contents (host_files E) items) cs (boot_of st)"
proof (induction cs arbitrary: st)
  case (Cons c cs)
  then obtain u where "do_command E c st = Inr u" "wf_rts u" "boot_of u = command_effect contents (host_files E) items c (boot_of st)"
    using command_boots [OF assms, of st items c] by auto
  with Cons.IH [of u] Cons.prems(2) show ?case by simp
qed simp

lemma command_line_boots:
  assumes "zlib_laws (host_zlib E) rest contents" "\<And>k. 22 \<le> host_getline E 0 k" "wf_rts st"
    and "host_getopt E ''e:n:i:b:l:C:h'' options argv = map command_option cs" "list_all (command_ok E) cs"
    and "list_all (command_files E contents items) cs"
  shows "\<exists>st'. process_arguments E argv st = Inr (0, st') \<and> wf_rts st' \<and>
    boot_of st' = boot_result contents (host_files E) items cs (boot_of st)"
proof -
  obtain u where u: "do_commands E cs st = Inr u" "wf_rts u"
      "boot_of u = fold (command_effect contents (host_files E) items) cs (boot_of st)"
    using commands_boot [OF assms(1-3,6)] by blast
  have "process_arguments E argv st = Inr (0, case entry_of cs None of None \<Rightarrow> u | Some e \<Rightarrow> u\<lparr>g_elf_entry := e\<rparr>)"
    using options_do_commands [OF assms(5), of "\<lparr>elf_entry_set = False, entry_arg = None\<rparr>" st] assms(4) u(1)
    by (simp add: process_arguments_def)
  moreover have "boot_of (u\<lparr>g_elf_entry := e\<rparr>) = boot_of u\<lparr>b_entry := e\<rparr>" for e
    by (rule boot_eqI) (simp_all add: byte_at_def read_mem_def fun_eq_iff)
  ultimately show ?thesis using u(2,3)
    by (cases "entry_of cs None") (auto simp: boot_result_def Let_def wf_rts_def)
qed

end
