(* ===== verification/Theorems_Elf.thy ===== *)
theory Theorems_Elf
  imports Theorems_Runtime Elf_Lookup Rts_Boot
begin

text \<open>
  The properties of the ELF loader, of the symbol lookup and of the start of an emulator, with a small ELF
  file on which they are applied.
\<close>

section \<open>A sample file\<close>

text \<open>
  A 64-bit little-endian AArch64 executable of 339 bytes: the header, a program header at 64 for a
  segment of 4 bytes at address 32 of which 2 are in the file at 336, three section headers at 120,
  a symbol table at 312 with the symbol \<open>a\<close> of value 34, and a string table at 336.
\<close>

definition sample_byte :: "nat \<Rightarrow> u8" where
  "sample_byte i = (case map_of
    [(0, 0x7F), (1, 0x45), (2, 0x4C), (3, 0x46), (4, 0x02), (5, 0x01), (16, 0x02), (18, 0xB7), (20,
    0x01), (24, 0x20), (32, 0x40), (40, 0x78), (52, 0x40), (54, 0x38), (56, 0x01), (58, 0x40), (60,
    0x03), (64, 0x01), (72, 0x50), (73, 0x01), (80, 0x20), (88, 0x20), (96, 0x02), (104, 0x04),
    (124, 0x03), (188, 0x02), (208, 0x38), (209, 0x01), (216, 0x18), (252, 0x03), (272, 0x50),
    (273, 0x01), (280, 0x03), (312, 0x01), (320, 0x22), (328, 0x01), (337, 0x61)] i
     of None \<Rightarrow> 0 | Some b \<Rightarrow> b)"

definition sample_elf :: "u8 list" where
  "sample_elf = map sample_byte [0..<339]"

lemma sample_nth: "i < 339 \<Longrightarrow> sample_elf ! i = sample_byte i"
  by (simp add: sample_elf_def)

lemma sample_length: "length sample_elf = 339"
  by (simp add: sample_elf_def)

lemma sample_string: "p + n \<le> 339 \<Longrightarrow> c_string sample_elf p n = map (\<lambda>i. char_of (unat (sample_byte i))) [p..<p + n]"
  by (simp add: c_string_def sample_elf_def drop_map take_map o_def)

lemma le_bytes_short:
  "le_bytes f 1 = f 0" "le_bytes f (Suc 0) = f 0" "le_bytes f 2 = f 0 + 256 * f 1"
  "le_bytes f 4 = f 0 + 256 * (f 1 + 256 * (f 2 + 256 * f 3))"
  "le_bytes f 8 = f 0 + 256 * (f 1 + 256 * (f 2 + 256 * (f 3 + 256 * (f 4 + 256 * (f 5 + 256 * (f 6 + 256 * f 7))))))"
  by (simp_all add: eval_nat_numeral)

lemmas sample_simps = sample_length sample_nth sample_byte_def le_bytes_short

lemma sample_valid: "valid_elf sample_elf"
  by (simp add: valid_elf_def file_value_def sample_simps)

lemma sample_ehdr: "get_Elf64_Ehdr sample_elf 0 = Inr
  \<lparr>e64_ident = take 16 sample_elf, e64_type = 2, e64_machine = 0xB7, e64_version = 1, e64_entry = 0x20,
   e64_phoff = 64, e64_shoff = 120, e64_flags = 0, e64_ehsize = 64, e64_phentsize = 56, e64_phnum = 1,
   e64_shensize = 64, e64_shnum = 3, e64_shtrndx = 0\<rparr>"
  by (simp add: get_Elf64_Ehdr_def field_def sample_simps)

lemma sample_phdr: "get_Elf64_Phdr sample_elf 64 = Inr
  \<lparr>p64_type = 1, p64_flags = 0, p64_offset = 336, p64_vaddr = 0x20, p64_paddr = 0x20, p64_filesz = 2, p64_memsz = 4,
   p64_align = 0\<rparr>"
  by (simp add: get_Elf64_Phdr_def field_def sample_simps)

lemma sample_inside: "segments_inside sample_elf"
  by (simp add: segments_inside_def sample_ehdr sample_phdr sample_simps rd_half_def rd_xword_def)

lemma char_97: "char_of (97::nat) = CHR ''a''"
  by code_simp

lemma sample_number: "file_number sample_elf i n = nat (le_bytes (\<lambda>j. uint (sample_elf ! (i + j))) n)"
  by (simp add: file_number_def file_value_def sample_simps)

lemmas sample_numbers = sample_number sample_simps

lemma sample_headers: "header_count sample_elf = 1" "header_start sample_elf 0 = 64" "\<not> elf32 sample_elf"
  by (simp_all add: header_count_def header_start_def header_step_def elf32_def sample_numbers)

lemma sample_segment: "segment_list sample_elf 64 =
    [\<lparr>seg_offset = 336, seg_address = 32, seg_filesz = 2, seg_memsz = 4\<rparr>]"
  using sample_headers(3) by (simp add: segment_list_def segment_at_def sample_numbers)

lemma sample_loadable: "loadable sample_elf"
  using sample_headers by (simp add: loadable_def sample_segment segment_fits_def sample_length)

lemma sample_segments: "segments sample_elf = [\<lparr>seg_offset = 336, seg_address = 32, seg_filesz = 2, seg_memsz = 4\<rparr>]"
  using sample_headers by (simp add: segments_def sample_segment)

lemma sample_sections: "section_count sample_elf = 3" "name_section sample_elf = 0"
  "section_start sample_elf 0 = 120" "section_start sample_elf 1 = 184"  "section_start sample_elf 2 = 248" "section_start sample_elf 3 = 312"
  using sample_headers by (simp_all add: section_count_def name_section_def section_start_def sample_numbers)

lemma sample_types: "section_type sample_elf 0 = 3" "section_type sample_elf 1 = 2" "section_type sample_elf 2 = 3"
  by (simp_all add: section_type_def sample_sections sample_numbers del: One_nat_def)

lemma last_index_3: "last_index P 3 = (if P 2 then 2 else if P 1 then 1 else 0)"
  by (simp add: numeral_3_eq_3 numeral_2_eq_2)

lemma sample_tables_at: "symbol_section sample_elf = 1" "string_section sample_elf = 2"
  by (simp_all add: symbol_section_def string_section_def sample_sections last_index_3 sample_types del: One_nat_def)

lemma sample_symbols: "section_offset sample_elf 1 = 312" "section_size sample_elf 1 = 24"
  "section_offset sample_elf 2 = 336" "section_size sample_elf 2 = 3" "symbol_count sample_elf = 1"
  "section_offset sample_elf 0 = 0" "section_size sample_elf 0 = 0"
  using sample_headers(3)
  by (simp_all add: section_offset_def section_size_def symbol_count_def sample_tables_at sample_sections sample_numbers del: One_nat_def)

lemma sample_symbol: "symbol_start sample_elf 0 = 312" "name_start sample_elf 0 = 337" "symbol_value sample_elf 0 = 34"
  "file_number sample_elf 312 4 = 1"
  using sample_headers(3)
  by (simp_all add: symbol_start_def name_start_def symbol_value_def sample_tables_at sample_symbols sample_numbers del: One_nat_def)

lemma upt_one: "[0..<1] = [0::nat]"
  by simp

lemma sample_tail: "drop 337 sample_elf = [0x61, 0]"
proof -
  have "[337..<339] = [337, 338]" by (simp add: upt_rec)
  then show ?thesis by (simp add: sample_elf_def drop_map sample_byte_def)
qed

lemma sample_fit: "tables_fit sample_elf"
  using sample_symbol sample_symbols
  by (simp add: tables_fit_def section_fits_def symbol_fits_def sample_sections sample_tables_at sample_tail sample_length
      sample_nth sample_byte_def upt_one del: One_nat_def)

lemma sample_find: "find_value sample_elf ''a'' = Some 34"
  using sample_symbol by (simp add: find_value_def sample_symbols symbol_name_def sample_tail char_97 upt_one del: One_nat_def)

lemma sample_result: "lookup_result sample_elf ''a'' st = Inr ((0, Some 34), st)"
  by (simp add: lookup_result_def sample_tables_at sample_find)

lemma sample_lookup64: "lookupSymbol64 sample_elf True ''a'' st = Inr ((0, Some 0x22), st)"
  using lookup64_spec [OF sample_headers(3) _ _ sample_fit, of "''a''" st] by (simp add: sample_length sample_result)

section \<open>Headers and segments\<close>

text \<open>
  C29. The check of the file header accepts exactly the executables: long enough for their class,
  with the magic bytes, of executable type and for an ARM or RISC-V machine of that class (32-bit ARM included,
  which the manual does not list), each number read in the byte order of the file; every other file
  ends the program.
\<close>

theorem header_check_decides:
  "if valid_elf b then checkELFHdr b = Inr () else exits (checkELFHdr b)"
proof (cases "valid_elf b")
  case False
  then have "checkELFHdr b \<noteq> Inr ()" by (simp add: check_elf_iff)
  with check_elf_safe [of b] have "exits (checkELFHdr b)" by blast
  with False show ?thesis by simp
qed (simp add: check_elf_iff)

text \<open>
  The accessors of fields read 2, 4 and 8 bytes of the file as a number in the byte order of
  the file, and the byte reversals they use are their own inverses.
\<close>

theorem fields_in_byte_order:
  "uint (rd_half le (field b i 2)) = file_value le b i 2 \<and>
   uint (rd_word le (field b i 4)) = file_value le b i 4 \<and>
   uint (rd_xword le (field b i 8)) = file_value le b i 8 \<and>
   rev16 (rev16 x) = x \<and> rev32 (rev32 y) = y \<and> rev64 (rev64 z) = z"
proof -
  have u: "0 \<le> uint x" "uint x < 2 ^ (8 * 2)" "uint y < 2 ^ (8 * 4)" "uint z < 2 ^ (8 * 8)"
    using unsigned_less [of x] unsigned_less [of y] unsigned_less [of z] by simp_all
  then have "rev16 (rev16 x) = x" "rev32 (rev32 y) = y" "rev64 (rev64 z) = z"
    by (simp_all add: word_uint_eq_iff rev16_eq rev32_eq rev64_eq rev_bytes_int_involution)
  then show ?thesis by (simp add: rd_eq)
qed

text \<open>
  A loadable segment whose bytes lie in the file is copied to its physical address, the rest
  of its memory cleared, and no other byte changed; one that overruns the file from an offset
  inside it ends the program.
\<close>

theorem segment_loaded:
  assumes "wf_rts st" "56 \<le> length b" "length b < 2 ^ 31" "unat off + 56 \<le> length b"
    and "get_Elf64_Phdr b (unat off) = Inr h" "rd_word le (p64_type h) = 1"
    and "unat (rd_xword le (p64_offset h)) \<le> length b"
  shows "if unat (rd_xword le (p64_offset h)) + unat (ucast (rd_xword le (p64_filesz h)) :: u32) \<le> length b
    then \<exists>st'. loadProgHdr64 le b off st = Inr st' \<and> wf_rts st' \<and>
      block_loaded b (unat (rd_xword le (p64_offset h))) (rd_xword le (p64_paddr h))
        (unat (ucast (rd_xword le (p64_filesz h)) :: u32)) (unat (ucast (rd_xword le (p64_memsz h)) :: u32)) st st'
    else exits (loadProgHdr64 le b off st)"
  by (rule loadProgHdr64_segment [OF assms])

theorem segment_loaded_witness:
  "\<exists>st'. loadProgHdr64 True sample_elf 64 init_rts = Inr st' \<and> read_mem 33 st' = Inr 0x61 \<and> read_mem 35 st' = Inr 0"
proof -
  have u: "unat (64 :: u64) = 64" by simp
  from segment_loaded [OF init_rts_wf, of sample_elf 64, unfolded u, OF _ _ _ sample_phdr, of True]
  obtain st' where st': "loadProgHdr64 True sample_elf 64 init_rts = Inr st'"
    "block_loaded sample_elf 336 32 2 4 init_rts st'"
    by (auto simp: sample_length rd_word_def rd_xword_def)
  from st'(2) have "read_mem 33 st' = Inr (ucast (sample_elf ! 337))" "read_mem 35 st' = Inr 0"
    by (simp_all add: block_loaded_def)
  with st'(1) show ?thesis by (simp add: sample_simps)
qed

text \<open>
  C31. The test that a segment lies in the file subtracts its offset from the size of the file
  without checking that it is smaller: for an offset past the end, below \<open>2 ^ 63\<close>, the difference
  wraps, the test passes, and the first byte is read past the bytes of the file: outside of the
  buffer, unless the buffer was allocated longer than the file (as \<open>load_elf\<close> does, by up to 16 MB) and
  the offset lies in that part, which was never written.
\<close>

theorem segment_offset_unchecked:
  assumes "wf_rts st" "56 \<le> length b" "length b < 2 ^ 31" "unat off + 56 \<le> length b"
    and "get_Elf64_Phdr b (unat off) = Inr h" "rd_word le (p64_type h) = 1"
    and "length b < unat (rd_xword le (p64_offset h))" "unat (rd_xword le (p64_offset h)) < 2 ^ 63"
    and "(ucast (rd_xword le (p64_filesz h)) :: u32) \<noteq> 0"
  shows "loadProgHdr64 le b off st = Inl (Past_data (unat (rd_xword le (p64_offset h)) + 1)) \<and>
    in_allocation (length b) (loadProgHdr64 le b off st) = Inl Out_of_bounds \<and>
    (\<forall>cap. in_allocation cap (loadProgHdr64 le b off st) =
      Inl (if unat (rd_xword le (p64_offset h)) < cap then Uninitialised else Out_of_bounds))"
  using loadProgHdr64_hole [OF assms] assms(7) by (simp add: Suc_le_eq)

theorem segment_offset_unchecked_witness:
  "loadProgHdr64 True ([1, 0, 0, 0, 0, 0, 0, 0, 0, 0, 1] @ replicate 21 0 @ [1] @ replicate 23 0) 0 init_rts = Inl (Past_data 0x10001)"
proof -
  define b :: "u8 list" where "b = [1, 0, 0, 0, 0, 0, 0, 0, 0, 0, 1] @ replicate 21 0 @ [1] @ replicate 23 0"
  have l: "length b = 56" by (simp add: b_def)
  have u: "unat (0 :: u64) = 0" by simp
  have h: "get_Elf64_Phdr b 0 = Inr \<lparr>p64_type = 1, p64_flags = 0, p64_offset = 0x10000, p64_vaddr = 0, p64_paddr = 0,
      p64_filesz = 1, p64_memsz = 0, p64_align = 0\<rparr>"
    by (simp add: get_Elf64_Phdr_def l field_def le_bytes_short) (simp add: b_def nth_append)
  from segment_offset_unchecked [OF init_rts_wf, of b 0, unfolded u, OF _ _ _ h, of True]
  show ?thesis unfolding b_def [symmetric] by (simp add: l rd_word_def rd_xword_def)
qed

section \<open>Whole files\<close>

text \<open>
  C32. Reading a file in chunks through zlib ends and delivers its contents, in a buffer at most 16 MB
  longer, if 16 MB more than its size fit an \<open>int\<close>. Loading it ends the program when the file does
  not exist or is no executable, whatever is in it. For an executable whose segments start inside the
  file it ends the program or succeeds, with a well-formed memory, the class of the file, and its
  entry point as the file stores it.
\<close>

theorem load_elf_safe:
  assumes "zlib_laws Z rest contents" "wf_rts st"
    and "\<And>bs. contents f = Some bs \<Longrightarrow> int (length bs) + 2 ^ 24 \<le> int_max"
  shows "case contents f of
      None \<Rightarrow> exits (load_elf Z f st)
    | Some b \<Rightarrow> (\<exists>cap. read_file Z f = Inr (b, cap) \<and> length b < cap \<and> cap \<le> length b + 2 ^ 24) \<and>
        (if \<not> valid_elf b then exits (load_elf Z f st)
         else segments_inside b \<longrightarrow> exits (load_elf Z f st) \<or>
           (\<exists>st'. wf_rts st' \<and>
             load_elf Z f st = Inr (st', b ! 4 = 1, if b ! 4 = 1 then ucast (field b 24 4 :: u32) else field b 24 8)))"
proof (cases "contents f")
  case None
  then show ?thesis using zlib_laws.read_file_None [OF assms(1) None] by (simp add: load_elf_def)
next
  case (Some b)
  note b = assms(3) [OF Some]
  obtain cap where r: "read_file Z f = Inr (b, cap)" "length b < cap" "cap \<le> length b + 2 ^ 24"
    using zlib_laws.read_file_Some [OF assms(1) Some b] by blast
  then have e: "load_elf Z f st = in_allocation cap (loadELFHdr b st)" by (simp add: load_elf_def)
  have "\<not> valid_elf b \<Longrightarrow> exits (loadELFHdr b st)"
    using check_elf_iff [of b] check_elf_safe [of b] by (auto simp: loadELFHdr_def)
  moreover have "exits (load_elf Z f st) \<or> (\<exists>st'. wf_rts st' \<and>
      load_elf Z f st = Inr (st', b ! 4 = 1, if b ! 4 = 1 then ucast (field b 24 4 :: u32) else field b 24 8))"
    if "segments_inside b"
    using load_elf_hdr_safe [OF assms(2) b that]
  proof (elim disjE exE conjE)
    fix st' assume "loadELFHdr b st = Inr (st', b ! 4 = 1, if b ! 4 = 1 then ucast (field b 24 4 :: u32) else field b 24 8)" "wf_rts st'"
    then show ?thesis by (intro disjI2 exI [of _ st']) (simp add: e)
  qed (simp add: e)
  ultimately show ?thesis using Some r e by simp
qed

theorem load_elf_safe_witness:
  "\<exists>cap. read_file (zlib_ref (\<lambda>f. Some sample_elf)) ''prog'' = Inr (sample_elf, cap)"
  using load_elf_safe [OF zlib_ref_laws init_rts_wf, of "\<lambda>f. Some sample_elf" "''prog''"]
  by (auto simp: sample_length)

text \<open>
  A symbol lookup in a 64-bit file uses the last symbol table and the last string table that
  is not the one of the section names, and returns the value of the first symbol with the name:
  every symbol before it has another name. It fails when there is no such symbol or table.
\<close>

theorem lookup_finds_first:
  assumes "lookupSymbol64 b le name st = Inr ((ret, r), st')"
  shows "\<exists>eh s y. get_Elf64_Ehdr b 0 = Inr eh \<and>
    s = of_nat (last_index (\<lambda>i. section_type64 le b eh i = 3 \<and> i \<noteq> unat (rd_half le (e64_shtrndx eh)))
                 (unat (rd_half le (e64_shnum eh)))) \<and>
    y = of_nat (last_index (\<lambda>i. section_type64 le b eh i = 2) (unat (rd_half le (e64_shnum eh)))) \<and>
    (if s = 0 \<or> y = 0
     then ret = - 1 \<and> r = None \<and> st' = put_err (''ELF: unable to find string or symbol table'' @ newline) st
     else st' = st \<and> ret = (if r = None then - 1 else 0) \<and>
       (\<exists>strtab symtab. get_Elf64_Shdr b (unat (e64_shoff eh) + unat (s :: u32) * 64) = Inr strtab \<and>
          get_Elf64_Shdr b (unat (e64_shoff eh) + unat (y :: u32) * 64) = Inr symtab \<and>
          first_symbol
            (symbol_at64 le b (unat (rd_xword le (sh64_offset strtab))) (rd_xword le (sh64_size strtab))
              (unat (rd_xword le (sh64_offset symtab))))
            name 0 (unat (rd_xword le (sh64_size symtab)) div 24) r))"
proof -
  obtain eh s y where t: "get_Elf64_Ehdr b 0 = Inr eh" "find_tables64 le b eh = Inr (s, y)"
    "if s = 0 \<or> y = 0
     then ret = - 1 \<and> r = None \<and> st' = put_err (''ELF: unable to find string or symbol table'' @ newline) st
     else st' = st \<and> ret = (if r = None then - 1 else 0) \<and>
       (\<exists>strtab symtab. get_Elf64_Shdr b (unat (e64_shoff eh) + unat s * 64) = Inr strtab \<and>
          get_Elf64_Shdr b (unat (e64_shoff eh) + unat y * 64) = Inr symtab \<and>
          first_symbol
            (symbol_at64 le b (unat (rd_xword le (sh64_offset strtab))) (rd_xword le (sh64_size strtab))
              (unat (rd_xword le (sh64_offset symtab))))
            name 0 (unat (rd_xword le (sh64_size symtab)) div 24) r)"
    using lookupSymbol64_result [OF assms] by blast
  then show ?thesis using find_tables64_eq [OF t(2)] by blast
qed

theorem lookup_finds_first_witness:
  "\<exists>eh. get_Elf64_Ehdr sample_elf 0 = Inr eh \<and>
     lookupSymbol64 sample_elf True ''a'' (\<lparr>out_text = [], err_text = []\<rparr>) = Inr ((0, Some 0x22), \<lparr>out_text = [], err_text = []\<rparr>)"
  using lookup_finds_first [OF sample_lookup64 [of "\<lparr>out_text = [], err_text = []\<rparr>"]] sample_lookup64 by blast

text \<open>
  C30. An executable whose program headers and segments lie in the file is loaded completely, for
  both classes and byte orders: the memory afterwards is the segments of the file, in the order of
  their headers, each with its bytes and zeros up to its size in memory, over what was there before, and
  apart from that only messages are printed. The results are the class of the file and its entry point as
  the file stores it. Three limits: the size of the file and 16 MB more fit an int, a segment takes less than 4 GiB of memory (the loader cuts 64-bit sizes to 32
  bits), and in a 32-bit file none wraps around the end of the 32-bit addresses.
\<close>

theorem elf_image_loaded:
  assumes "zlib_laws Z rest contents" "wf_rts st" "contents f = Some b" "int (length b) + 2 ^ 24 \<le> int_max"
    and "valid_elf b" "loadable b"
  shows "\<exists>st'. load_elf Z f st = Inr (st', elf32 b, if elf32 b then ucast (field b 24 4 :: u32) else field b 24 8) \<and>
    wf_rts st' \<and> same_registers st st' \<and> (\<forall>a. byte_at st' a = loaded_byte b (segments b) a (byte_at st a))"
proof -
  obtain cap where "read_file Z f = Inr (b, cap)"
    using zlib_laws.read_file_Some [OF assms(1,3,4)] by blast
  moreover obtain st' where st': "loadELFHdr b st = Inr (st', elf32 b, if elf32 b then ucast (field b 24 4 :: u32) else field b 24 8)"
      "wf_rts st'" "\<forall>a. byte_at st' a = loaded_byte b (segments b) a (byte_at st a)"
    using loadELFHdr_image [OF assms(2) _ assms(5,6)] assms(4) by auto
  ultimately show ?thesis using loadELFHdr_frame [OF st'(1)] by (auto simp: load_elf_def)
qed

theorem elf_image_loaded_witness:
  "\<exists>st'. load_elf (zlib_ref (\<lambda>f. Some sample_elf)) ''prog'' init_rts = Inr (st', False, 0x20) \<and>
     byte_at st' 33 = 0x61 \<and> byte_at st' 35 = 0"
proof -
  have e: "(field sample_elf 24 8 :: u64) = 0x20" by (simp add: field_def sample_simps)
  show ?thesis
    using elf_image_loaded [OF zlib_ref_laws init_rts_wf, of "\<lambda>f. Some sample_elf" "''prog''" sample_elf] sample_headers(3) e
    by (auto simp: sample_length sample_valid sample_loadable sample_segments loaded_byte_def segment_byte_def sample_nth sample_byte_def)
qed

text \<open>
  C33. Looking up a symbol in a little-endian executable of either class, whose tables are in range,
  uses the last symbol table and the last string table that does not hold the section names, and
  delivers the value of the first symbol with that name; it reports a failure when no symbol has the
  name, and prints a message when a table is missing.
\<close>

theorem symbol_lookup:
  assumes "zlib_laws Z rest contents" "contents f = Some b" "int (length b) + 2 ^ 24 \<le> int_max"
    and "valid_elf b" "tables_fit b"
  shows "lookup_sym Z f name st = lookup_result b name st"
proof -
  obtain cap where "read_file Z f = Inr (b, cap)"
    using zlib_laws.read_file_Some [OF assms(1-3)] by blast
  moreover have len: "length b < 2 ^ 31" using assms(3) by simp
  ultimately show ?thesis
    by (simp add: lookup_sym_def lookupSymbol_spec [OF assms(4) len assms(5)] lookup_result_allocated)
qed

theorem symbol_lookup_witness:
  "lookup_sym (zlib_ref (\<lambda>f. Some sample_elf)) ''prog'' ''a'' init_rts = Inr ((0, Some 34), init_rts)"
  using symbol_lookup [OF zlib_ref_laws, of "\<lambda>f. Some sample_elf" "''prog''" sample_elf "''a''" init_rts]
  by (simp add: sample_length sample_valid sample_fit sample_result)

section \<open>Start of an emulator\<close>

text \<open>
  C34. A command line that loads ELF files, raw files and image files and sets registers leaves the machine it
  describes: the files over each other in the memory, in the order given, and the last cycle limit and verbosity.
  The entry point is that of the last \<open>-n\<close>, or else of the last image file that has one: loading an ELF file
  never sets it, although a comment says that \<open>-n\<close> overrides the one of the ELF file. The model then reads from
  memory the bytes of those files. The files are those that their loaders take: executables as in C30, raw files whose
  names have no white space, image files with addresses and data below 2^63 (C26); flags have 1 to 99
  characters that the format accepts and are ignored, as without a set-up function of the model.
\<close>

theorem command_line_boots_machine:
  assumes "gmp_laws G" "zlib_laws (host_zlib E) rest contents" "\<And>k. 22 \<le> host_getline E 0 k" "wf_rts st"
    and "host_getopt E ''e:n:i:b:l:C:h'' options argv = map command_option cs" "list_all (command_ok E) cs"
    and "list_all (command_files E contents items) cs" "0 \<le> n" "n < 2 ^ 61"
  shows "\<exists>st'. process_arguments E argv st = Inr (0, st') \<and> wf_rts st' \<and>
    boot_of st' = boot_result contents (host_files E) items cs (boot_of st) \<and>
    read_ram G as n hr addr st' = Inr \<lparr>l_len = word_of_int (8 * n), l_bits =
      le_bytes (\<lambda>i. uint (b_byte (boot_result contents (host_files E) items cs (boot_of st))
        (mpz_get_ui G (l_bits addr) + of_nat i))) (nat n)\<rparr>"
proof -
  obtain st' where st': "process_arguments E argv st = Inr (0, st')" "wf_rts st'"
      "boot_of st' = boot_result contents (host_files E) items cs (boot_of st)"
    using command_line_boots [OF assms(2-7)] by blast
  have n: "mpz_get_ui G n = word_of_int n" "unat (word_of_int n :: u64) = nat n"
    using assms(8,9) by (simp_all add: gmp_laws.mpz_get_ui_law [OF assms(1)] unat_eq_nat_uint uint_word_of_int)
  have "b_byte (boot_result contents (host_files E) items cs (boot_of st)) = byte_at st'"
    using st'(3) [symmetric] by simp
  then have "read_ram G as n hr addr st' = Inr \<lparr>l_len = word_of_int (8 * n), l_bits =
      le_bytes (\<lambda>i. uint (b_byte (boot_result contents (host_files E) items cs (boot_of st))
        (mpz_get_ui G (l_bits addr) + of_nat i))) (nat n)\<rparr>"
    using gmp_laws.read_ram_eq [OF assms(1) st'(2), of as n hr addr] n by (simp add: mem_value_def mult.commute)
  with st' show ?thesis by blast
qed

definition boot_files :: files where
  "boot_files f = (if f = ''prog'' then Some sample_elf else Some [0x55])"

theorem command_line_boots_machine_witness:
  "\<exists>st'. process_arguments (host_of boot_files (map command_option
       [Load_elf ''prog'', Load_raw 34 ''rom'', Cycle_limit 9, Entry_point 0x80])) [] init_rts = Inr (0, st') \<and>
     g_cycle_limit st' = 9 \<and> g_elf_entry st' = 0x80 \<and>
     read_ram gmp_ref 64 2 \<lparr>l_len = 0, l_bits = 0\<rparr> \<lparr>l_len = 64, l_bits = 33\<rparr> st' = Inr \<lparr>l_len = 16, l_bits = 0x5561\<rparr>"
proof -
  let ?cs = "[Load_elf ''prog'', Load_raw 34 ''rom'', Cycle_limit 9, Entry_point 0x80]"
  define E where "E = host_of boot_files (map command_option ?cs)"
  have E: "host_zlib E = zlib_ref boot_files" "host_files E = boot_files" "\<And>k. 22 \<le> host_getline E 0 k"
      "\<And>s l argv. host_getopt E s l argv = map command_option ?cs"
    by (simp_all add: E_def host_of_def)
  have rom: "list_all (\<lambda>c. \<not> is_space c) ''rom''" by code_simp
  have ok: "list_all (command_ok E) ?cs" "list_all (command_files E boot_files (\<lambda>f. [])) ?cs"
    using sample_length sample_valid sample_loadable rom by (simp_all add: E(2) boot_files_def)
  define B where "B = boot_result boot_files boot_files (\<lambda>f. []) ?cs (boot_of init_rts)"
  have B: "b_byte B 33 = 0x61" "b_byte B 34 = 0x55" "b_limit B = 9" "b_entry B = 0x80"
    by (simp_all add: B_def boot_result_def boot_files_def raw_over_def elf_over_def loaded_byte_def sample_segments segment_byte_def
        sample_nth sample_byte_def unsigned_minus_1_eq_mask mask_eq_exp_minus_1)
  obtain st' where st': "process_arguments E [] init_rts = Inr (0, st')" "boot_of st' = B"
      "read_ram gmp_ref 64 2 \<lparr>l_len = 0, l_bits = 0\<rparr> \<lparr>l_len = 64, l_bits = 33\<rparr> st' =
        Inr \<lparr>l_len = word_of_int (8 * 2), l_bits = le_bytes (\<lambda>i. uint (b_byte B (mpz_get_ui gmp_ref 33 + of_nat i))) (nat 2)\<rparr>"
    using command_line_boots_machine [where n = 2 and as = 64 and hr = "\<lparr>l_len = 0, l_bits = 0\<rparr>" and
      addr = "\<lparr>l_len = 64, l_bits = 33\<rparr>" and argv = "[]",
      OF gmp_ref_laws zlib_ref_laws [of boot_files, folded E(1)] E(3) init_rts_wf E(4) ok]
    unfolding E(2) B_def [symmetric] by auto
  have "b_byte B (33 + 1) = 0x55" using B(2) by simp
  then have "le_bytes (\<lambda>i. uint (b_byte B (mpz_get_ui gmp_ref 33 + of_nat i))) (nat 2) = 0x5561"
    using B(1) by (simp add: le_bytes_short gmp_laws.mpz_get_ui_law [OF gmp_ref_laws])
  with st' B(3,4) boot_of_simps [of st'] show ?thesis unfolding E_def by auto
qed

end
