(* ===== verification/Sail_Real.thy ===== *)
theory Sail_Real
  imports Sail_Text
begin

text \<open>
  Reals (\<open>lib/sail.c\<close>, "Sail Reals"), which Sail represents by rationals: the operations, the
  square root by the Babylonian method, powers, conversion from strings, and the clock. GMP's
  rationals are a parameter, the record \<open>gmpq\<close>, with what its manual documents in the locale
  \<open>gmpq_laws\<close>.
\<close>

section \<open>GMP's rationals\<close>

text \<open>
  An \<open>mpq_t\<close> is a numerator and a denominator, which \<open>mpq_numref\<close> and \<open>mpq_denref\<close> reach. Functions
  that abort on a zero divisor return an option.
\<close>

record mpq =
  mpq_numref :: int
  mpq_denref :: int

record gmpq =
  mpq_add :: "mpq \<Rightarrow> mpq \<Rightarrow> mpq"
  mpq_sub :: "mpq \<Rightarrow> mpq \<Rightarrow> mpq"
  mpq_mul :: "mpq \<Rightarrow> mpq \<Rightarrow> mpq"
  mpq_div :: "mpq \<Rightarrow> mpq \<Rightarrow> mpq option"
  mpq_inv :: "mpq \<Rightarrow> mpq option"
  mpq_neg :: "mpq \<Rightarrow> mpq"
  mpq_abs :: "mpq \<Rightarrow> mpq"
  mpq_div_2exp :: "mpq \<Rightarrow> u64 \<Rightarrow> mpq"
  mpq_cmp :: "mpq \<Rightarrow> mpq \<Rightarrow> int"
  mpq_canonicalize :: "mpq \<Rightarrow> mpq option"
  fmt_Qd :: "mpq \<Rightarrow> string"
  sscanf_real :: "string \<Rightarrow> (int \<times> nat \<times> int \<times> nat) option"

definition mpq_of :: "int \<Rightarrow> int \<Rightarrow> mpq" where
  "mpq_of n d = \<lparr>mpq_numref = n, mpq_denref = d\<rparr>"

text \<open>The value, and the canonical form all functions but \<open>mpq_canonicalize\<close> demand and deliver.\<close>

definition qv :: "mpq \<Rightarrow> rat" where
  "qv q = Fract (mpq_numref q) (mpq_denref q)"

definition canonical :: "mpq \<Rightarrow> bool" where
  "canonical q \<longleftrightarrow> 0 < mpq_denref q \<and> coprime (mpq_numref q) (mpq_denref q)"

text \<open>
  \<open>sscanf_real\<close> is \<open>gmp_sscanf\<close> with the format \<open>%Zd.%n%Zd%n\<close>: the two numbers and the two positions,
  or \<open>None\<close> when not everything was converted.
\<close>

locale gmpq_laws = gmp_laws G for G :: gmp +
  fixes Q :: gmpq
  assumes mpq_add_law: "canonical a \<Longrightarrow> canonical b \<Longrightarrow> canonical (mpq_add Q a b) \<and> qv (mpq_add Q a b) = qv a + qv b"
    and mpq_sub_law: "canonical a \<Longrightarrow> canonical b \<Longrightarrow> canonical (mpq_sub Q a b) \<and> qv (mpq_sub Q a b) = qv a - qv b"
    and mpq_mul_law: "canonical a \<Longrightarrow> canonical b \<Longrightarrow> canonical (mpq_mul Q a b) \<and> qv (mpq_mul Q a b) = qv a * qv b"
    and mpq_div_law: "canonical a \<Longrightarrow> canonical b \<Longrightarrow> qv b \<noteq> 0 \<Longrightarrow>
      \<exists>q. mpq_div Q a b = Some q \<and> canonical q \<and> qv q = qv a / qv b"
    and mpq_div_zero: "canonical b \<Longrightarrow> qv b = 0 \<Longrightarrow> mpq_div Q a b = None"
    and mpq_inv_law: "canonical a \<Longrightarrow> qv a \<noteq> 0 \<Longrightarrow> \<exists>q. mpq_inv Q a = Some q \<and> canonical q \<and> qv q = inverse (qv a)"
    and mpq_inv_zero: "canonical a \<Longrightarrow> qv a = 0 \<Longrightarrow> mpq_inv Q a = None"
    and mpq_neg_law: "canonical a \<Longrightarrow> canonical (mpq_neg Q a) \<and> qv (mpq_neg Q a) = - qv a"
    and mpq_abs_law: "canonical a \<Longrightarrow> canonical (mpq_abs Q a) \<and> qv (mpq_abs Q a) = \<bar>qv a\<bar>"
    and mpq_div_2exp_law: "canonical a \<Longrightarrow> canonical (mpq_div_2exp Q a n) \<and> qv (mpq_div_2exp Q a n) = qv a / 2 ^ unat n"
    and mpq_cmp_law: "canonical a \<Longrightarrow> canonical b \<Longrightarrow> sgn (of_int (mpq_cmp Q a b)) = sgn (qv a - qv b)"
    and mpq_canonicalize_law: "mpq_denref a \<noteq> 0 \<Longrightarrow> \<exists>q. mpq_canonicalize Q a = Some q \<and> canonical q \<and> qv q = qv a"
    and fmt_Qd_law: "canonical a \<Longrightarrow> fmt_Qd Q a =
      dec_of_int (mpq_numref a) @ (if mpq_denref a = 1 then [] else ''/'' @ dec_of_int (mpq_denref a))"
    and sscanf_real_law: "list_all is_digit ip \<Longrightarrow> ip \<noteq> [] \<Longrightarrow> list_all is_digit fp \<Longrightarrow> fp \<noteq> [] \<Longrightarrow>
      sscanf_real Q ((if neg then ''-'' else []) @ ip @ ''.'' @ fp) =
        Some ((if neg then - int (dec_value ip) else int (dec_value ip)), of_bool neg + length ip + 1,
          int (dec_value fp), of_bool neg + length ip + 1 + length fp)"

section \<open>A library that satisfies the laws\<close>

definition normal :: "int \<Rightarrow> int \<Rightarrow> mpq" where
  "normal n d = (let g = gcd n d * sgn d in mpq_of (n div g) (d div g))"

lemma normal_law:
  assumes "d \<noteq> 0"
  shows "canonical (normal n d)" "qv (normal n d) = Fract n d"
proof -
  define g where "g = gcd n d"
  have g: "0 < g" "g dvd n" "g dvd d" using assms by (auto simp: g_def)
  obtain n' d' where nd: "n = g * n'" "d = g * d'" using g by (auto elim!: dvdE)
  have d': "d' \<noteq> 0" "sgn d = sgn d'" using assms nd g by (auto simp: sgn_mult)
  have cop: "coprime n' d'"
  proof -
    have "n' = n div g" "d' = d div g" using nd g(1) by simp_all
    then show ?thesis using div_gcd_coprime [of n d] assms by (simp add: g_def)
  qed
  have n: "normal n d = mpq_of (n' * sgn d') (d' * sgn d')"
  proof -
    have "normal n d = mpq_of ((g * n') div (g * sgn d')) ((g * d') div (g * sgn d'))"
      unfolding normal_def Let_def d'(2) g_def [symmetric] nd(1) [symmetric] nd(2) [symmetric] ..
    then show ?thesis using g(1) d'(1) by (simp add: sgn_if)
  qed
  show "canonical (normal n d)"
    using d' cop by (auto simp: n canonical_def mpq_of_def sgn_if)
  have "Fract (n' * sgn d') (d' * sgn d') = Fract n' d'"
    using d' by (auto simp: sgn_if eq_rat)
  also have "\<dots> = Fract n d" using d' g by (simp add: nd eq_rat)
  finally show "qv (normal n d) = Fract n d" by (simp add: n qv_def mpq_of_def)
qed

definition scan_real :: "string \<Rightarrow> (int \<times> nat \<times> int \<times> nat) option" where
  "scan_real s =
     (let neg = (s \<noteq> [] \<and> hd s = CHR ''-''); t = (if neg then tl s else s);
          ip = takeWhile is_digit t; r = drop (length ip) t; fp = takeWhile is_digit (tl r)
      in if ip \<noteq> [] \<and> r \<noteq> [] \<and> hd r = CHR ''.'' \<and> fp \<noteq> []
         then Some ((if neg then - int (dec_value ip) else int (dec_value ip)), of_bool neg + length ip + 1,
                int (dec_value fp), of_bool neg + length ip + 1 + length fp)
         else None)"

definition gmpq_ref :: gmpq where
  "gmpq_ref = \<lparr>
     mpq_add = (\<lambda>a b. normal (mpq_numref a * mpq_denref b + mpq_numref b * mpq_denref a) (mpq_denref a * mpq_denref b)),
     mpq_sub = (\<lambda>a b. normal (mpq_numref a * mpq_denref b - mpq_numref b * mpq_denref a) (mpq_denref a * mpq_denref b)),
     mpq_mul = (\<lambda>a b. normal (mpq_numref a * mpq_numref b) (mpq_denref a * mpq_denref b)),
     mpq_div = (\<lambda>a b. if mpq_numref b = 0 then None
        else Some (normal (mpq_numref a * mpq_denref b) (mpq_denref a * mpq_numref b))),
     mpq_inv = (\<lambda>a. if mpq_numref a = 0 then None else Some (normal (mpq_denref a) (mpq_numref a))),
     mpq_neg = (\<lambda>a. mpq_of (- mpq_numref a) (mpq_denref a)),
     mpq_abs = (\<lambda>a. mpq_of \<bar>mpq_numref a\<bar> (mpq_denref a)),
     mpq_div_2exp = (\<lambda>a n. normal (mpq_numref a) (mpq_denref a * 2 ^ unat n)),
     mpq_cmp = (\<lambda>a b. sgn (mpq_numref a * mpq_denref b - mpq_numref b * mpq_denref a)),
     mpq_canonicalize = (\<lambda>a. if mpq_denref a = 0 then None else Some (normal (mpq_numref a) (mpq_denref a))),
     fmt_Qd = (\<lambda>a. dec_of_int (mpq_numref a) @ (if mpq_denref a = 1 then [] else ''/'' @ dec_of_int (mpq_denref a))),
     sscanf_real = scan_real \<rparr>"

lemma canonical_den: "canonical a \<Longrightarrow> 0 < mpq_denref a"
  by (simp add: canonical_def)

lemma qv_eq_0: "canonical a \<Longrightarrow> qv a = 0 \<longleftrightarrow> mpq_numref a = 0"
  by (auto simp: qv_def canonical_def Zero_rat_def eq_rat)

lemma dot_not_digit: "\<not> is_digit CHR ''.''"
  by code_simp

lemma scan_real_law:
  assumes "list_all is_digit ip" "ip \<noteq> []" "list_all is_digit fp" "fp \<noteq> []"
  shows "scan_real ((if neg then ''-'' else []) @ ip @ ''.'' @ fp) =
        Some ((if neg then - int (dec_value ip) else int (dec_value ip)), of_bool neg + length ip + 1,
          int (dec_value fp), of_bool neg + length ip + 1 + length fp)"
proof -
  have t: "takeWhile is_digit (ip @ ''.'' @ fp) = ip" "takeWhile is_digit fp = fp"
    using assms dot_not_digit by (auto simp: list_all_iff takeWhile_append takeWhile_eq_all_conv)
  obtain c cs where c: "ip = c # cs" "is_digit c" using assms by (cases ip) auto
  have "(if neg then ''-'' else []) @ ip @ ''.'' @ fp \<noteq> []" "hd ((if neg then ''-'' else []) @ ip @ ''.'' @ fp) = CHR ''-'' \<longleftrightarrow> neg"
    using c is_digit_not_minus [OF c(2)] by auto
  then have s: "scan_real ((if neg then ''-'' else []) @ ip @ ''.'' @ fp) = (
      let t = ip @ ''.'' @ fp; ip = takeWhile is_digit t; r = drop (length ip) t; fp = takeWhile is_digit (tl r)
      in if ip \<noteq> [] \<and> r \<noteq> [] \<and> hd r = CHR ''.'' \<and> fp \<noteq> []
         then Some ((if neg then - int (dec_value ip) else int (dec_value ip)), of_bool neg + length ip + 1,
                int (dec_value fp), of_bool neg + length ip + 1 + length fp)
         else None)"
    by (cases neg) (simp_all add: scan_real_def Let_def)
  show ?thesis unfolding s Let_def t using assms(2,4) by (simp add: t(2))
qed

lemma sgn_of_int_rat: "sgn (of_int k :: rat) = of_int (sgn k)"
  by (simp add: sgn_if)

interpretation gmpq_ref: gmpq_laws gmp_ref gmpq_ref
proof unfold_locales
  fix a b :: mpq and n :: u64
  show "canonical a \<Longrightarrow> canonical b \<Longrightarrow> canonical (mpq_add gmpq_ref a b) \<and> qv (mpq_add gmpq_ref a b) = qv a + qv b"
    using canonical_den [of a] canonical_den [of b] by (simp add: gmpq_ref_def normal_law) (simp add: qv_def)
  show "canonical a \<Longrightarrow> canonical b \<Longrightarrow> canonical (mpq_sub gmpq_ref a b) \<and> qv (mpq_sub gmpq_ref a b) = qv a - qv b"
    using canonical_den [of a] canonical_den [of b] by (simp add: gmpq_ref_def normal_law) (simp add: qv_def)
  show "canonical a \<Longrightarrow> canonical b \<Longrightarrow> canonical (mpq_mul gmpq_ref a b) \<and> qv (mpq_mul gmpq_ref a b) = qv a * qv b"
    using canonical_den [of a] canonical_den [of b] by (simp add: gmpq_ref_def normal_law) (simp add: qv_def)
  show "canonical a \<Longrightarrow> canonical b \<Longrightarrow> qv b \<noteq> 0 \<Longrightarrow>
      \<exists>q. mpq_div gmpq_ref a b = Some q \<and> canonical q \<and> qv q = qv a / qv b"
    using canonical_den [of a] canonical_den [of b] qv_eq_0 [of b] by (simp add: gmpq_ref_def normal_law) (simp add: qv_def)
  show "canonical b \<Longrightarrow> qv b = 0 \<Longrightarrow> mpq_div gmpq_ref a b = None"
    using qv_eq_0 [of b] by (simp add: gmpq_ref_def)
  show "canonical a \<Longrightarrow> qv a \<noteq> 0 \<Longrightarrow> \<exists>q. mpq_inv gmpq_ref a = Some q \<and> canonical q \<and> qv q = inverse (qv a)"
    using canonical_den [of a] qv_eq_0 [of a] by (simp add: gmpq_ref_def normal_law) (simp add: qv_def)
  show "canonical a \<Longrightarrow> qv a = 0 \<Longrightarrow> mpq_inv gmpq_ref a = None"
    using qv_eq_0 [of a] by (simp add: gmpq_ref_def)
  show "canonical a \<Longrightarrow> canonical (mpq_neg gmpq_ref a) \<and> qv (mpq_neg gmpq_ref a) = - qv a"
    by (simp add: gmpq_ref_def canonical_def mpq_of_def qv_def)
  show "canonical a \<Longrightarrow> canonical (mpq_abs gmpq_ref a) \<and> qv (mpq_abs gmpq_ref a) = \<bar>qv a\<bar>"
    by (simp add: gmpq_ref_def canonical_def mpq_of_def qv_def)
  show "canonical a \<Longrightarrow> canonical (mpq_div_2exp gmpq_ref a n) \<and> qv (mpq_div_2exp gmpq_ref a n) = qv a / 2 ^ unat n"
    using canonical_den [of a] by (simp add: gmpq_ref_def normal_law) (simp add: qv_def Fract_of_int_quotient)
  show "canonical a \<Longrightarrow> canonical b \<Longrightarrow> sgn (of_int (mpq_cmp gmpq_ref a b)) = sgn (qv a - qv b)"
    using canonical_den [of a] canonical_den [of b]
    by (auto simp: gmpq_ref_def qv_def Fract_of_int_quotient sgn_of_int_rat diff_frac_eq sgn_divide sgn_mult
        simp flip: of_int_mult of_int_diff)
  show "mpq_denref a \<noteq> 0 \<Longrightarrow> \<exists>q. mpq_canonicalize gmpq_ref a = Some q \<and> canonical q \<and> qv q = qv a"
    by (simp add: gmpq_ref_def normal_law) (simp add: qv_def)
qed (simp_all add: gmpq_ref_def scan_real_law del: append_Cons append_Nil)

lemma gmpq_ref_laws: "gmpq_laws gmp_ref gmpq_ref"
  by (rule gmpq_ref.gmpq_laws_axioms)

section \<open>Operations\<close>

definition create_real :: mpq where
  "create_real = mpq_of 0 1"

definition recreate_real :: mpq where
  "recreate_real = mpq_of 0 1"

definition copy_real :: "mpq \<Rightarrow> mpq" where
  "copy_real op = op"

definition undefined_real :: "sail_unit \<Rightarrow> mpq" where
  "undefined_real u = mpq_of 0 1"

definition neg_real :: "gmpq \<Rightarrow> mpq \<Rightarrow> mpq" where
  "neg_real Q op = mpq_neg Q op"

definition mult_real :: "gmpq \<Rightarrow> mpq \<Rightarrow> mpq \<Rightarrow> mpq" where
  "mult_real Q op1 op2 = mpq_mul Q op1 op2"

definition sub_real :: "gmpq \<Rightarrow> mpq \<Rightarrow> mpq \<Rightarrow> mpq" where
  "sub_real Q op1 op2 = mpq_sub Q op1 op2"

definition add_real :: "gmpq \<Rightarrow> mpq \<Rightarrow> mpq \<Rightarrow> mpq" where
  "add_real Q op1 op2 = mpq_add Q op1 op2"

definition div_real :: "gmpq \<Rightarrow> mpq \<Rightarrow> mpq \<Rightarrow> mpq res" where
  "div_real Q op1 op2 = of_option Gmp_abort (mpq_div Q op1 op2)"

definition abs_real :: "gmpq \<Rightarrow> mpq \<Rightarrow> mpq" where
  "abs_real Q op = mpq_abs Q op"

definition round_up :: "gmp \<Rightarrow> mpq \<Rightarrow> int res" where
  "round_up G op = of_option Gmp_abort (mpz_cdiv_q G (mpq_numref op) (mpq_denref op))"

definition round_down :: "gmp \<Rightarrow> mpq \<Rightarrow> int res" where
  "round_down G op = of_option Gmp_abort (mpz_fdiv_q G (mpq_numref op) (mpq_denref op))"

text \<open>\<open>mpq_set_z\<close> sets the denominator to 1.\<close>

definition mpq_set_z :: "int \<Rightarrow> mpq" where
  "mpq_set_z k = mpq_of k 1"

definition to_real :: "gmpq \<Rightarrow> int \<Rightarrow> mpq res" where
  "to_real Q op = of_option Gmp_abort (mpq_canonicalize Q (mpq_set_z op))"

definition eq_real :: "gmpq \<Rightarrow> mpq \<Rightarrow> mpq \<Rightarrow> bool" where
  "eq_real Q op1 op2 \<longleftrightarrow> mpq_cmp Q op1 op2 = 0"

definition lt_real :: "gmpq \<Rightarrow> mpq \<Rightarrow> mpq \<Rightarrow> bool" where
  "lt_real Q op1 op2 \<longleftrightarrow> mpq_cmp Q op1 op2 < 0"

definition gt_real :: "gmpq \<Rightarrow> mpq \<Rightarrow> mpq \<Rightarrow> bool" where
  "gt_real Q op1 op2 \<longleftrightarrow> mpq_cmp Q op1 op2 > 0"

definition lteq_real :: "gmpq \<Rightarrow> mpq \<Rightarrow> mpq \<Rightarrow> bool" where
  "lteq_real Q op1 op2 \<longleftrightarrow> mpq_cmp Q op1 op2 \<le> 0"

definition gteq_real :: "gmpq \<Rightarrow> mpq \<Rightarrow> mpq \<Rightarrow> bool" where
  "gteq_real Q op1 op2 \<longleftrightarrow> mpq_cmp Q op1 op2 \<ge> 0"

section \<open>The square root\<close>

definition SQRT_PRECISION :: u64 where
  "SQRT_PRECISION = 30"

text \<open>The loop runs until an iteration changes the estimate by less than \<open>convergence\<close>.\<close>

partial_function (option) sqrt_loop :: "gmpq \<Rightarrow> mpq \<Rightarrow> mpq \<Rightarrow> mpq \<Rightarrow> mpq res option" where
  "sqrt_loop Q op convergence p =
     (case mpq_div Q op p of
        None \<Rightarrow> Some (Inl Gmp_abort)
      | Some tmp \<Rightarrow>
          let tmp = mpq_add Q tmp p;
              n = mpq_div_2exp Q tmp 1;
              tmp = mpq_sub Q p n;
              tmp = mpq_abs Q tmp
          in if mpq_cmp Q tmp convergence < 0 then Some (Inr n) else sqrt_loop Q op convergence n)"

definition sqrt_real :: "gmp \<Rightarrow> gmpq \<Rightarrow> mpq \<Rightarrow> mpq res" where
  "sqrt_real G Q op =
     (if mpz_cmp_ui G (mpq_denref op) 1 = 0 \<and> mpz_perfect_square_p G (mpq_numref op) then
        bind_res (of_option Gmp_abort (mpz_sqrt G (mpq_numref op))) (\<lambda>r. Inr (mpq_of r (mpz_set_ui G 1)))
      else
        bind_res (of_option Gmp_abort (mpz_cdiv_q G (mpq_numref op) (mpq_denref op))) (\<lambda>tmp_z.
        bind_res (of_option Gmp_abort (mpz_sqrt G tmp_z)) (\<lambda>tmp_z.
          let p = mpq_set_z tmp_z;
              tmp_z = mpz_pow_ui G (mpz_set_ui G 10) SQRT_PRECISION;
              convergence = mpq_of (mpz_set_ui G 1) tmp_z
          in case sqrt_loop Q op convergence p of None \<Rightarrow> Inl No_return | Some r \<Rightarrow> r)))"

section \<open>Powers\<close>

text \<open>
  The loop on the \<open>int64_t\<close> exponent, which is not negative; \<open>llabs\<close> of the smallest \<open>int64_t\<close> is
  undefined.
\<close>

function power_loop :: "gmpq \<Rightarrow> mpq \<Rightarrow> mpq \<Rightarrow> nat \<Rightarrow> mpq" where
  "power_loop Q rop b pexp =
     (if pexp \<noteq> 0 then
        if pexp AND 1 \<noteq> 0 then power_loop Q (mpq_mul Q rop b) b (pexp - 1)
        else power_loop Q rop (mpq_mul Q b b) (drop_bit 1 pexp)
      else rop)"
  by pat_completeness auto
termination
  by (relation "measure (\<lambda>(Q, rop, b, pexp). pexp)") (auto simp: drop_bit_Suc)

declare power_loop.simps [simp del]

definition real_power :: "gmp \<Rightarrow> gmpq \<Rightarrow> mpq \<Rightarrow> int \<Rightarrow> mpq res" where
  "real_power G Q base e =
     (let exp_si = mpz_get_si G e
      in check (sint exp_si \<noteq> - (2 ^ 63)) Undefined_behaviour
           (let rop = power_loop Q (mpq_of (mpz_set_ui G 1) (mpz_set_ui G 1)) base (nat \<bar>sint exp_si\<bar>)
            in if sint exp_si < 0 then of_option Gmp_abort (mpq_inv Q rop) else Inr rop))"

section \<open>Conversion from strings, random values, printing and time\<close>

text \<open>
  The positions \<open>decimal\<close> and \<open>total\<close> are of type \<open>int\<close>: a position that does not fit is undefined, and
  \<open>decimal\<close> is at most \<open>total\<close>. Without all conversions they are not initialised. The difference
  becomes an \<open>unsigned long\<close> exponent.
\<close>

definition create_real_of_sail_string :: "gmp \<Rightarrow> gmpq \<Rightarrow> string \<Rightarrow> mpq res" where
  "create_real_of_sail_string G Q op =
     (case sscanf_real Q op of
        None \<Rightarrow> Inl Undefined_behaviour
      | Some (tmp1, decimal, tmp2, total_chars) \<Rightarrow>
          check (int total_chars \<le> int_max) Undefined_behaviour
            (let len = int total_chars - int decimal;
                 tmp3 = mpz_ui_pow_ui G 10 (word_of_int len)
             in bind_res (of_option Gmp_abort (mpq_canonicalize Q (mpq_of tmp2 tmp3))) (\<lambda>rop.
                  Inr (mpq_add Q rop (mpq_of tmp1 (mpz_set_ui G 1))))))"

definition convert_real_of_sail_string :: "gmp \<Rightarrow> gmpq \<Rightarrow> string \<Rightarrow> mpq res" where
  "convert_real_of_sail_string G Q op =
     (case sscanf_real Q op of
        None \<Rightarrow> Inl Undefined_behaviour
      | Some (tmp1, decimal, tmp2, total_chars) \<Rightarrow>
          check (int total_chars \<le> int_max) Undefined_behaviour
            (let len = int total_chars - int decimal;
                 tmp3 = mpz_ui_pow_ui G 10 (word_of_int len)
             in bind_res (of_option Gmp_abort (mpq_canonicalize Q (mpq_of tmp2 tmp3))) (\<lambda>rop.
                  Inr (mpq_add Q rop (mpq_of tmp1 (mpz_set_ui G 1))))))"

text \<open>\<open>rand\<close> is a parameter: the number and the next state of the generator.\<close>

definition random_real :: "gmp \<Rightarrow> gmpq \<Rightarrow> ('r \<Rightarrow> i64 \<times> 'r) \<Rightarrow> sail_unit \<Rightarrow> 'r \<Rightarrow> (mpq \<times> 'r) res" where
  "random_real G Q rand u r =
     (let (bit0, r) = rand r;
          (x, r) = rand r;
          num = (if bit0 AND 1 \<noteq> 0 then mpz_set_si G x else mpz_set_si G (- x));
          (y, r) = rand r
      in bind_res (of_option Gmp_abort (mpq_canonicalize Q (mpq_of num (mpz_set_si G y)))) (\<lambda>q. Inr (q, r)))"

definition print_real :: "gmpq \<Rightarrow> string \<Rightarrow> mpq \<Rightarrow> 'a streams_scheme \<Rightarrow> 'a streams_scheme" where
  "print_real Q str op st = put_out (str @ fmt_Qd Q op @ [char_of (10::nat)]) st"

definition prerr_real :: "gmpq \<Rightarrow> string \<Rightarrow> mpq \<Rightarrow> 'a streams_scheme \<Rightarrow> 'a streams_scheme" where
  "prerr_real Q str op st = put_err (str @ fmt_Qd Q op @ [char_of (10::nat)]) st"

text \<open>The clock delivers seconds and nanoseconds.\<close>

definition get_time_ns :: "gmp \<Rightarrow> i64 \<times> i64 \<Rightarrow> sail_unit \<Rightarrow> int" where
  "get_time_ns G t u =
     (let rop = mpz_set_si G (fst t);
          rop = mpz_mul_ui G rop 1000000000
      in mpz_add_ui G rop (snd t))"

section \<open>What the operations compute\<close>

lemma canonical_int: "canonical (mpq_of k 1)" "qv (mpq_of k 1) = of_int k"
  by (simp_all add: canonical_def mpq_of_def qv_def Fract_of_int_eq)

lemma qv_quotient: "canonical q \<Longrightarrow> qv q = of_int (mpq_numref q) / of_int (mpq_denref q)"
  by (simp add: qv_def Fract_of_int_quotient)

lemma ceiling_minus_floor: "- ((- a) div b) = \<lceil>of_int a / of_int b :: rat\<rceil>" for a b :: int
proof -
  have "\<lfloor>- (of_int a / of_int b :: rat)\<rfloor> = \<lfloor>of_int (- a) / of_int b :: rat\<rfloor>" by simp
  then show ?thesis by (simp only: ceiling_def floor_divide_of_int_eq)
qed

lemma sint_of_int64: "- (2 ^ 63) \<le> k \<Longrightarrow> k < 2 ^ 63 \<Longrightarrow> sint (word_of_int k :: i64) = k"
  using signed_take_bit_int_eq_self [of 63 k] by (simp add: signed_of_int)

context gmpq_laws
begin

lemma mpq_cmp_iff:
  assumes "canonical a" "canonical b"
  shows "mpq_cmp Q a b = 0 \<longleftrightarrow> qv a = qv b" "mpq_cmp Q a b < 0 \<longleftrightarrow> qv a < qv b" "0 < mpq_cmp Q a b \<longleftrightarrow> qv b < qv a"
  using mpq_cmp_law [OF assms] by (auto simp: sgn_if split: if_splits)

lemma comparisons:
  assumes "canonical a" "canonical b"
  shows "eq_real Q a b \<longleftrightarrow> qv a = qv b" "lt_real Q a b \<longleftrightarrow> qv a < qv b" "gt_real Q a b \<longleftrightarrow> qv a > qv b"
    "lteq_real Q a b \<longleftrightarrow> qv a \<le> qv b" "gteq_real Q a b \<longleftrightarrow> qv a \<ge> qv b"
  using mpq_cmp_iff [OF assms]
  by (auto simp: eq_real_def lt_real_def gt_real_def lteq_real_def gteq_real_def not_less [symmetric])

lemma rounding:
  assumes "canonical a"
  shows "round_up G a = Inr \<lceil>qv a\<rceil>" "round_down G a = Inr \<lfloor>qv a\<rfloor>"
  using canonical_den [OF assms]
  by (simp_all add: round_up_def round_down_def mpz_division qv_quotient [OF assms] ceiling_minus_floor floor_divide_of_int_eq)

lemma to_real_eq: "\<exists>q. to_real Q k = Inr q \<and> canonical q \<and> qv q = of_int k"
  using mpq_canonicalize_law [of "mpq_of k 1"] canonical_int [of k]
  by (auto simp: to_real_def mpq_set_z_def mpq_of_def)

text \<open>The loop of the powers keeps \<open>rop * b ^ pexp\<close>.\<close>

lemma power_loop_eq:
  "canonical rop \<Longrightarrow> canonical b \<Longrightarrow>
   canonical (power_loop Q rop b n) \<and> qv (power_loop Q rop b n) = qv rop * qv b ^ n"
proof (induction n arbitrary: rop b rule: less_induct)
  case (less n)
  consider "n = 0" | "odd n" | "n \<noteq> 0" "even n" by auto
  then show ?case
  proof cases
    case 1
    then show ?thesis using less.prems by (simp add: power_loop.simps)
  next
    case 2
    then have "power_loop Q rop b n = power_loop Q (mpq_mul Q rop b) b (n - 1)" "0 < n"
      by (auto simp: power_loop.simps [of Q rop b n] odd_iff_mod_2_eq_one and_one_eq elim: oddE)
    then show ?thesis
      using less.IH [of "n - 1" "mpq_mul Q rop b" b] less.prems mpq_mul_law [of rop b]
        power_minus_mult [of n "qv b"] by (simp add: ac_simps)
  next
    case 3
    then have "power_loop Q rop b n = power_loop Q rop (mpq_mul Q b b) (n div 2)"
      by (simp add: power_loop.simps [of Q rop b n] and_one_eq drop_bit_eq_div)
    moreover have "qv b ^ n = (qv b * qv b) ^ (n div 2)"
      using 3 by (simp add: power2_eq_square [symmetric] power_mult [symmetric])
    ultimately show ?thesis
      using less.IH [of "n div 2" rop "mpq_mul Q b b"] less.prems mpq_mul_law [of b b] 3 by simp
  qed
qed

lemma real_power_eq:
  assumes "canonical b" "- (2 ^ 63) < e" "e < 2 ^ 63" "qv b \<noteq> 0 \<or> 0 \<le> e"
  shows "\<exists>r. real_power G Q b e = Inr r \<and> canonical r \<and> qv r = power_int (qv b) e"
proof -
  have e: "sint (mpz_get_si G e) = e"
    using assms(2,3) by (simp add: mpz_get_si_law sint_of_int64)
  define r where "r = power_loop Q (mpq_of 1 1) b (nat \<bar>e\<bar>)"
  have r: "canonical r" "qv r = qv b ^ nat \<bar>e\<bar>"
    using power_loop_eq [of "mpq_of 1 1" b "nat \<bar>e\<bar>"] assms(1) canonical_int [of 1] by (simp_all add: r_def)
  have p: "real_power G Q b e = (if e < 0 then of_option Gmp_abort (mpq_inv Q r) else Inr r)"
    using assms(2) by (simp add: real_power_def Let_def e r_def)
  show ?thesis
  proof (cases "e < 0")
    case True
    then have "qv r \<noteq> 0" using r(2) assms(4) by auto
    from mpq_inv_law [OF r(1) this] True r(2) show ?thesis
      by (auto simp: p power_int_def power_inverse)
  next
    case False
    with r show ?thesis by (simp add: p power_int_def)
  qed
qed

lemma real_power_zero:
  assumes "canonical b" "- (2 ^ 63) < e" "e < 0" "qv b = 0"
  shows "real_power G Q b e = Inl Gmp_abort"
proof -
  have e: "sint (mpz_get_si G e) = e"
    using assms(2,3) by (simp add: mpz_get_si_law sint_of_int64)
  define r where "r = power_loop Q (mpq_of 1 1) b (nat \<bar>e\<bar>)"
  have "canonical r" "qv r = 0"
    using power_loop_eq [of "mpq_of 1 1" b "nat \<bar>e\<bar>"] assms canonical_int [of 1] by (simp_all add: r_def)
  then show ?thesis using assms by (simp add: real_power_def Let_def e r_def mpq_inv_zero)
qed

end

section \<open>The square root converges\<close>

lemma babylonian:
  fixes x p :: rat
  assumes "0 < x" "0 < p"
  defines "f \<equiv> (x / p + p) / 2"
  shows "0 < f" "f * f = x + (p - f) * (p - f)" "x \<le> p * p \<Longrightarrow> f \<le> p"
proof -
  show "0 < f" using assms by (simp add: f_def add_pos_pos)
  define y where "y = x / p"
  have "x = y * p" using assms by (simp add: y_def)
  then show "f * f = x + (p - f) * (p - f)" unfolding f_def y_def [symmetric] by (simp add: field_simps)
  assume "x \<le> p * p"
  then have "x / p \<le> p" using assms by (simp add: divide_le_eq)
  then show "f \<le> p" by (simp add: f_def)
qed

lemma ceiling_steps:
  fixes e f p :: rat
  assumes "0 < e" "0 < f" "f + e \<le> p"
  shows "nat \<lceil>f / e\<rceil> < nat \<lceil>p / e\<rceil>"
proof -
  have "(f + e) / e \<le> p / e" using assms by (intro divide_right_mono) auto
  then have "f / e + 1 \<le> p / e" using assms(1) by (simp add: add_divide_distrib)
  then have "\<lceil>f / e + 1\<rceil> \<le> \<lceil>p / e\<rceil>" by (rule ceiling_mono)
  moreover have "0 < f / e" "0 < p / e" using assms by simp_all
  ultimately show ?thesis by simp
qed

text \<open>A result whose square is above \<open>x\<close> by less than \<open>e * e\<close>.\<close>

definition sqrt_found :: "rat \<Rightarrow> rat \<Rightarrow> mpq \<Rightarrow> bool" where
  "sqrt_found x e r \<longleftrightarrow> canonical r \<and> 0 < qv r \<and> x \<le> qv r * qv r \<and> qv r * qv r < x + e * e"

context gmpq_laws
begin

lemma sqrt_loop_step:
  assumes "canonical op" "canonical p" "0 < qv p" "canonical c"
  shows "\<exists>n. canonical n \<and> qv n = (qv op / qv p + qv p) / 2 \<and>
    sqrt_loop Q op c p = (if \<bar>qv p - qv n\<bar> < qv c then Some (Inr n) else sqrt_loop Q op c n)"
proof -
  obtain t where t: "mpq_div Q op p = Some t" "canonical t" "qv t = qv op / qv p"
    using mpq_div_law [OF assms(1,2)] assms(3) by auto
  define s where "s = mpq_add Q t p"
  have s: "canonical s" "qv s = qv op / qv p + qv p" using mpq_add_law [OF t(2) assms(2)] t(3) by (auto simp: s_def)
  define n where "n = mpq_div_2exp Q s 1"
  have n: "canonical n" "qv n = (qv op / qv p + qv p) / 2" using mpq_div_2exp_law [OF s(1), of 1] s(2) by (auto simp: n_def)
  define d where "d = mpq_abs Q (mpq_sub Q p n)"
  have d: "canonical d" "qv d = \<bar>qv p - qv n\<bar>"
    using mpq_sub_law [OF assms(2) n(1)] mpq_abs_law [of "mpq_sub Q p n"] by (auto simp: d_def)
  have "sqrt_loop Q op c p = (if mpq_cmp Q d c < 0 then Some (Inr n) else sqrt_loop Q op c n)"
    by (simp add: sqrt_loop.simps [of Q op c p] t(1) Let_def flip: s_def n_def d_def)
  then have "sqrt_loop Q op c p = (if \<bar>qv p - qv n\<bar> < qv c then Some (Inr n) else sqrt_loop Q op c n)"
    unfolding mpq_cmp_iff(2) [OF d(1) assms(4)] d(2) .
  with n show ?thesis by blast
qed

lemma sqrt_loop_above:
  assumes "canonical op" "0 < qv op" "canonical c" "0 < qv c"
  shows "canonical p \<Longrightarrow> 0 < qv p \<Longrightarrow> qv op \<le> qv p * qv p \<Longrightarrow>
    \<exists>r. sqrt_loop Q op c p = Some (Inr r) \<and> sqrt_found (qv op) (qv c) r"
proof (induction "nat \<lceil>qv p / qv c\<rceil>" arbitrary: p rule: less_induct)
  case less
  obtain n where n: "canonical n" "qv n = (qv op / qv p + qv p) / 2"
    "sqrt_loop Q op c p = (if \<bar>qv p - qv n\<bar> < qv c then Some (Inr n) else sqrt_loop Q op c n)"
    using sqrt_loop_step [OF assms(1) less.prems(1,2) assms(3)] by blast
  have b: "0 < qv n" "qv n * qv n = qv op + (qv p - qv n) * (qv p - qv n)" "qv n \<le> qv p"
    using babylonian [OF assms(2) less.prems(2)] less.prems(3) by (simp_all flip: n(2))
  show ?case
  proof (cases "\<bar>qv p - qv n\<bar> < qv c")
    case True
    with n(1) b show ?thesis by (simp add: n(3) sqrt_found_def mult_strict_mono')
  next
    case False
    then have "qv n + qv c \<le> qv p" using b(3) by simp
    from less.hyps [OF ceiling_steps [OF assms(4) b(1) this] n(1) b(1)] b(2) False
    show ?thesis by (simp add: n(3))
  qed
qed

lemma sqrt_loop_found:
  assumes "canonical op" "0 < qv op" "canonical c" "0 < qv c" "canonical p" "0 < qv p"
  shows "\<exists>r. sqrt_loop Q op c p = Some (Inr r) \<and> sqrt_found (qv op) (qv c) r"
proof -
  obtain n where n: "canonical n" "qv n = (qv op / qv p + qv p) / 2"
    "sqrt_loop Q op c p = (if \<bar>qv p - qv n\<bar> < qv c then Some (Inr n) else sqrt_loop Q op c n)"
    using sqrt_loop_step [OF assms(1,5,6,3)] by blast
  have b: "0 < qv n" "qv n * qv n = qv op + (qv p - qv n) * (qv p - qv n)"
    using babylonian [OF assms(2,6)] by (simp_all flip: n(2))
  have sq: "(qv p - qv n) * (qv p - qv n) < qv c * qv c" if "\<bar>qv p - qv n\<bar> < qv c"
    using that abs_mult_self_eq [of "qv p - qv n"] mult_strict_mono' [OF that that] by simp
  show ?thesis
  proof (cases "\<bar>qv p - qv n\<bar> < qv c")
    case True
    with n(1) b sq show ?thesis by (simp add: n(3) sqrt_found_def)
  next
    case False
    with sqrt_loop_above [OF assms(1-4) n(1) b(1)] b(2) show ?thesis by (simp add: n(3))
  qed
qed

lemma no_negative_square: "a < 0 \<Longrightarrow> \<not> mpz_perfect_square_p G a"
  by (auto simp: mpz_perfect_square_p_law not_less [symmetric])

lemma sqrt_real_exact:
  assumes "mpq_denref op = 1" "mpz_perfect_square_p G (mpq_numref op)"
  shows "\<exists>r. sqrt_real G Q op = Inr r \<and> canonical r \<and> 0 \<le> qv r \<and> qv r * qv r = qv op"
proof -
  obtain k where k: "mpq_numref op = k * k" "0 \<le> k"
    using assms(2) by (metis abs_ge_zero abs_mult_self_eq mpz_perfect_square_p_law)
  obtain r where r: "mpz_sqrt G (k * k) = Some r" "0 \<le> r" "r * r \<le> k * k" "k * k < (r + 1) * (r + 1)"
    using mpz_sqrt_law [of "k * k"] by auto
  have "r \<le> k" using r(2,3) k(2) by (metis abs_le_square_iff abs_of_nonneg power2_eq_square)
  moreover have "k < r + 1" using r(2,4) k(2) by (metis mult_mono not_le add_nonneg_nonneg zero_le_one)
  ultimately have "r = k" by simp
  have "qv op = of_int (k * k)"
    using assms(1) by (simp add: qv_def Fract_of_int_eq [symmetric] k(1))
  moreover have "sqrt_real G Q op = Inr (mpq_of k 1)"
    using assms r(1) by (simp add: sqrt_real_def k(1) \<open>r = k\<close>)
  ultimately show ?thesis using canonical_int [of k] k(2) by simp
qed

lemma sqrt_real_general:
  assumes "canonical op" "0 < qv op" "\<not> (mpq_denref op = 1 \<and> mpz_perfect_square_p G (mpq_numref op))"
  shows "\<exists>r. sqrt_real G Q op = Inr r \<and> sqrt_found (qv op) (1 / 10 ^ 30) r"
proof -
  define z where "z = \<lceil>qv op\<rceil>"
  have z: "1 \<le> z" "mpz_cdiv_q G (mpq_numref op) (mpq_denref op) = Some z"
    using assms(2) canonical_den [OF assms(1)]
    by (simp_all add: z_def mpz_division qv_quotient [OF assms(1)] ceiling_minus_floor)
  obtain r where r: "mpz_sqrt G z = Some r" "0 \<le> r" "z < (r + 1) * (r + 1)"
    using mpz_sqrt_law [of z] z(1) by auto
  have "r \<noteq> 0" using r(3) z(1) by auto
  then have p: "canonical (mpq_of r 1)" "0 < qv (mpq_of r 1)" using canonical_int [of r] r(2) by auto
  have c: "canonical (mpq_of 1 (10 ^ 30))" "qv (mpq_of 1 (10 ^ 30)) = 1 / 10 ^ 30"
    by (simp_all add: canonical_def mpq_of_def qv_def Fract_of_int_quotient)
  have "0 < qv (mpq_of 1 (10 ^ 30))" unfolding c(2) by simp
  from sqrt_loop_found [OF assms(1,2) c(1) this p] obtain q where
    q: "sqrt_loop Q op (mpq_of 1 (10 ^ 30)) (mpq_of r 1) = Some (Inr q)" "sqrt_found (qv op) (1 / 10 ^ 30) q"
    unfolding c(2) by blast
  have "sqrt_real G Q op = Inr q"
    using assms(3) q(1) by (auto simp: sqrt_real_def z(2) r(1) mpq_set_z_def SQRT_PRECISION_def)
  with q(2) show ?thesis by blast
qed

lemma sqrt_real_negative:
  assumes "canonical op" "qv op < 0"
  shows "sqrt_real G Q op = Inl Gmp_abort"
proof -
  define z where "z = \<lceil>qv op\<rceil>"
  have z: "z \<le> 0" "mpz_cdiv_q G (mpq_numref op) (mpq_denref op) = Some z"
    using assms(2) canonical_den [OF assms(1)]
    by (simp_all add: z_def mpz_division qv_quotient [OF assms(1)] ceiling_minus_floor)
  have "mpq_numref op < 0"
    using assms canonical_den [OF assms(1)] by (simp add: qv_quotient divide_less_0_iff)
  then have np: "\<not> mpz_perfect_square_p G (mpq_numref op)" by (rule no_negative_square)
  show ?thesis
  proof (cases "z = 0")
    case True
    obtain r where "mpz_sqrt G 0 = Some r" "0 \<le> r" "r * r \<le> 0" using mpz_sqrt_law [of 0] by auto
    moreover from this have "r = 0" by (simp add: mult_le_0_iff)
    moreover have "sqrt_loop Q op c (mpq_of 0 1) = Some (Inl Gmp_abort)" for c
      using mpq_div_zero [of "mpq_of 0 1" op] canonical_int [of 0] by (simp add: sqrt_loop.simps)
    ultimately show ?thesis using np True by (simp add: sqrt_real_def z(2) mpq_set_z_def)
  next
    case False
    then have "mpz_sqrt G z = None" using z(1) by (simp add: mpz_sqrt_neg)
    then show ?thesis using np by (simp add: sqrt_real_def z(2))
  qed
qed

lemma real_of_string:
  fixes neg :: bool
  assumes "list_all is_digit ip" "ip \<noteq> []" "list_all is_digit fp" "fp \<noteq> []"
  defines "s \<equiv> (if neg then ''-'' else []) @ ip @ ''.'' @ fp"
  assumes "int (length s) \<le> int_max"
  shows "\<exists>r. create_real_of_sail_string G Q s = Inr r \<and> convert_real_of_sail_string G Q s = Inr r \<and> canonical r \<and>
    qv r = (if neg then - of_nat (dec_value ip) else of_nat (dec_value ip)) + of_nat (dec_value fp) / 10 ^ length fp"
proof -
  define k where "k = (if neg then - int (dec_value ip) else int (dec_value ip))"
  have scan: "sscanf_real Q s = Some (k, of_bool neg + length ip + 1, int (dec_value fp), of_bool neg + length ip + 1 + length fp)"
    unfolding s_def k_def by (rule sscanf_real_law [OF assms(1-4)])
  have len: "int (of_bool neg + length ip + 1 + length fp) \<le> int_max"
    using assms(6) by (simp add: s_def split: if_splits)
  then have "length fp < 2 ^ 64" by (cases neg) simp_all
  then have e: "mpz_ui_pow_ui G 10 (word_of_int (int (length fp))) = 10 ^ length fp"
    by (simp add: unat_of_nat64)
  have digits_read: "int (of_bool neg + length ip + 1 + length fp) - int (of_bool neg + length ip + 1) = int (length fp)"
    by simp
  obtain q where q: "mpq_canonicalize Q (mpq_of (int (dec_value fp)) (10 ^ length fp)) = Some q" "canonical q"
      "qv q = of_nat (dec_value fp) / 10 ^ length fp"
    using mpq_canonicalize_law [of "mpq_of (int (dec_value fp)) (10 ^ length fp)"]
    by (auto simp: mpq_of_def qv_def Fract_of_int_quotient)
  have "create_real_of_sail_string G Q s = Inr (mpq_add Q q (mpq_of k 1))"
    "convert_real_of_sail_string G Q s = Inr (mpq_add Q q (mpq_of k 1))"
    unfolding create_real_of_sail_string_def convert_real_of_sail_string_def scan option.case prod.case Let_def
      eqTrueI [OF len] check_simps digits_read e
    using q(1) by simp_all
  then show ?thesis
    using mpq_add_law [OF q(2) canonical_int(1) [of k]] canonical_int(2) [of k] q(3) by (auto simp: k_def)
qed

lemma real_of_long_string:
  fixes neg :: bool
  assumes "list_all is_digit ip" "ip \<noteq> []" "list_all is_digit fp" "fp \<noteq> []"
  defines "s \<equiv> (if neg then ''-'' else []) @ ip @ ''.'' @ fp"
  assumes "\<not> int (length s) \<le> int_max"
  shows "create_real_of_sail_string G Q s = Inl Undefined_behaviour"
    "convert_real_of_sail_string G Q s = Inl Undefined_behaviour"
proof -
  have "\<not> int (of_bool neg + length ip + 1 + length fp) \<le> int_max"
    using assms(6) by (simp add: s_def split: if_splits)
  then show "create_real_of_sail_string G Q s = Inl Undefined_behaviour"
    "convert_real_of_sail_string G Q s = Inl Undefined_behaviour"
    unfolding create_real_of_sail_string_def convert_real_of_sail_string_def s_def sscanf_real_law [OF assms(1-4)]
    by (simp_all del: of_nat_add)
qed

end

end
