(* ===== verification/Demo_Rpn.thy ===== *)
theory Demo_Rpn
  imports Sail_Text
begin

text \<open>
  The two C programs of the AArch64 demonstration (\<open>aarch64/mono/demo/aarch64_no_vector\<close>): \<open>hello.c\<close>
  and the calculator \<open>rpn.c\<close>. What they print, on the standard output or through the memory-mapped
  tube of the emulated processor, is a string. A C \<open>int\<close> that leaves its 32 bits is undefined.
\<close>

section \<open>Printing\<close>

definition in_int :: "int \<Rightarrow> bool" where
  "in_int k \<longleftrightarrow> - (2 ^ 31) \<le> k \<and> k < 2 ^ 31"

definition rpn_print_char :: "char \<Rightarrow> string \<Rightarrow> string" where
  "rpn_print_char c out = out @ [c]"

fun rpn_print_string :: "string \<Rightarrow> string \<Rightarrow> string" where
  "rpn_print_string [] out = out"
| "rpn_print_string (c # cs) out = rpn_print_string cs (rpn_print_char c out)"

text \<open>The conversion of the sum \<open>d + '0'\<close> to the parameter of type \<open>char\<close>.\<close>

definition digit_sum :: "int \<Rightarrow> char" where
  "digit_sum d = char_of (nat ((d + 48) mod 256))"

text \<open>The two loops of \<open>print_int\<close>: the largest power of ten below \<open>n\<close>, and the digits.\<close>

partial_function (option) find_power :: "int \<Rightarrow> int \<Rightarrow> int res option" where
  "find_power n pw =
     (if \<not> in_int (pw * 10) then Some (Inl Undefined_behaviour)
      else if n sdiv (pw * 10) > 0 then find_power n (pw * 10)
      else Some (Inr pw))"

function print_digits :: "int \<Rightarrow> int \<Rightarrow> string \<Rightarrow> int \<times> string" where
  "print_digits n pw out =
     (if pw > 1 then
        let d = n sdiv pw
        in print_digits (n - d * pw) (pw sdiv 10) (rpn_print_char (digit_sum d) out)
      else (n, out))"
  by pat_completeness auto
termination
  by (relation "measure (\<lambda>(n, pw, out). nat pw)") (auto simp: signed_divide_int_def sgn_if)

declare print_digits.simps [simp del]

definition rpn_print_int :: "int \<Rightarrow> string \<Rightarrow> string res" where
  "rpn_print_int n out =
     (case find_power n 1 of
        None \<Rightarrow> Inl No_return
      | Some r \<Rightarrow> bind_res r (\<lambda>pw.
          let (n, out) = print_digits n pw out
          in Inr (rpn_print_char (digit_sum n) out)))"

section \<open>The calculator\<close>

text \<open>
  The local variables of \<open>evaluate\<close>. The array has 10 elements without initial values.
\<close>

record rpn_state =
  rpn_stack :: "int option list"
  rpn_top :: int
  rpn_tally :: int

definition rpn_init :: rpn_state where
  "rpn_init = \<lparr>rpn_stack = replicate 10 None, rpn_top = - 1, rpn_tally = 0\<rparr>"

definition stack_read :: "int option list \<Rightarrow> nat \<Rightarrow> int res" where
  "stack_read stack i = check (i < length stack) Out_of_bounds (of_option Undefined_behaviour (stack ! i))"

text \<open>The loop of \<open>+\<close> adds the whole stack up.\<close>

fun collapse :: "nat \<Rightarrow> int option list \<Rightarrow> int option list res" where
  "collapse 0 stack = Inr stack"
| "collapse (Suc t) stack =
     bind_res (stack_read stack (Suc t)) (\<lambda>x.
     bind_res (stack_read stack t) (\<lambda>y.
       check (in_int (x + y)) Undefined_behaviour (collapse t (stack[t := Some (x + y)]))))"

definition rpn_char :: "char \<Rightarrow> rpn_state \<Rightarrow> rpn_state res" where
  "rpn_char c s =
     (if is_digit c then
        let n = int (of_char c) - 48
        in check (in_int (rpn_tally s * 10) \<and> in_int (rpn_tally s * 10 + n)) Undefined_behaviour
             (Inr (s\<lparr>rpn_tally := rpn_tally s * 10 + n\<rparr>))
      else if c = CHR '' '' then
        let top = rpn_top s + 1
        in check (nat top < length (rpn_stack s)) Out_of_bounds
             (Inr (s\<lparr>rpn_stack := (rpn_stack s)[nat top := Some (rpn_tally s)], rpn_top := top, rpn_tally := 0\<rparr>))
      else if c = CHR ''+'' then
        bind_res (collapse (nat (rpn_top s)) (rpn_stack s)) (\<lambda>stack.
          Inr (s\<lparr>rpn_stack := stack, rpn_top := min (rpn_top s) 0\<rparr>))
      else Inr s)"

fun rpn_chars :: "string \<Rightarrow> rpn_state \<Rightarrow> rpn_state res" where
  "rpn_chars [] s = Inr s"
| "rpn_chars (c # cs) s = bind_res (rpn_char c s) (rpn_chars cs)"

definition rpn_evaluate :: "string \<Rightarrow> string \<Rightarrow> string res" where
  "rpn_evaluate expr out =
     bind_res (rpn_chars expr rpn_init) (\<lambda>s.
     bind_res (stack_read (rpn_stack s) 0) (\<lambda>x.
     bind_res (rpn_print_int x out) (\<lambda>out.
       Inr (rpn_print_char (char_of (10::nat)) out))))"

definition rpn_main :: "string \<Rightarrow> (int \<times> string) res" where
  "rpn_main out =
     bind_res (rpn_print_int 321456 out) (\<lambda>out.
     bind_res (rpn_evaluate ''1 12 21 + 100 +'' (rpn_print_char (char_of (10::nat)) out)) (\<lambda>out.
       Inr (0, out)))"

text \<open>On AArch64 the program starts in \<open>_start\<close>, which ends the output with EOT.\<close>

definition rpn_start :: "string \<Rightarrow> string res" where
  "rpn_start out = bind_res (rpn_main out) (\<lambda>(ret, out). Inr (rpn_print_char (char_of (4::nat)) out))"

definition hello_print_char :: "char \<Rightarrow> string \<Rightarrow> string" where
  "hello_print_char c out = out @ [c]"

fun hello_print_string :: "string \<Rightarrow> string \<Rightarrow> string" where
  "hello_print_string [] out = out"
| "hello_print_string (c # cs) out = hello_print_string cs (hello_print_char c out)"

definition hello_main :: "string \<Rightarrow> int \<times> string" where
  "hello_main out = (0, hello_print_string (''Hello, World! (from C)'' @ [char_of (10::nat)]) out)"

definition hello_start :: "string \<Rightarrow> string" where
  "hello_start out = (let (ret, out) = hello_main out in hello_print_char (char_of (4::nat)) out)"

section \<open>Numbers are printed in decimal\<close>

lemma sdiv_pos: "0 \<le> n \<Longrightarrow> 0 < m \<Longrightarrow> n sdiv m = n div m" for n m :: int
  by (simp add: signed_divide_int_def sgn_if)

lemma low_digits:
  fixes n :: nat
  assumes "i < w"
  shows "n mod b ^ w div b ^ i mod b = n div b ^ i mod b"
proof -
  obtain c where c: "w = i + Suc c" using assms less_iff_Suc_add by auto
  then have w: "b ^ w = b ^ i * (b * b ^ c)" by (simp add: power_add)
  show ?thesis
  proof (cases "b = 0")
    case False
    then have "n mod b ^ w div b ^ i = n div b ^ i mod (b * b ^ c)"
      unfolding w by (simp add: mod_mult2_eq)
    then show ?thesis by (simp add: mod_mult2_eq)
  qed (use c in \<open>cases i; simp\<close>)
qed

lemma fixed_digits_high: "fixed_digits b (Suc w) n = (n div b ^ w mod b) # fixed_digits b w (n mod b ^ w)"
  by (auto simp: fixed_digits_def low_digits)

lemma length_digits: "1 < b \<Longrightarrow> b ^ k \<le> n \<Longrightarrow> Suc k \<le> length (digits b n)"
proof (induction k arbitrary: n)
  case (Suc k)
  then have "b ^ k \<le> n div b" by (simp add: less_eq_div_iff_mult_less_eq mult.commute)
  moreover have "b \<le> n" using Suc.prems by (metis One_nat_def Suc_leI dual_order.trans le_add1 plus_1_eq_Suc power_increasing power_one_right less_imp_le_nat)
  ultimately show ?case using Suc by (simp add: digits.simps [of b n])
next
  case 0
  show ?case by (cases "n < b") (simp_all add: digits.simps [of b n])
qed

lemma dec_fixed:
  assumes "n < 10 ^ Suc k" "k = 0 \<or> 10 ^ k \<le> n"
  shows "dec_of_nat n = map digit_char (fixed_digits 10 (Suc k) n)"
proof -
  have "Suc k \<le> length (digits 10 n)"
    using assms(2) length_digits [of 10 k n] by (cases "k = 0") (auto simp: digits.simps [of 10 n] Suc_le_eq)
  then show ?thesis
    using padded_digits [of 10 "Suc k" n] assms(1) by (simp add: dec_of_nat_def)
qed

lemma digit_sum_char: "0 \<le> d \<Longrightarrow> d < 10 \<Longrightarrow> digit_sum d = digit_char (nat d)"
  by (simp add: digit_sum_def digit_char_def nat_add_distrib add.commute)

lemma print_digits_eq:
  assumes "0 \<le> n" "n < 10 ^ Suc k"
  shows "\<exists>m out'. print_digits n (10 ^ k) out = (m, out') \<and>
    out' @ [digit_sum m] = out @ map digit_char (fixed_digits 10 (Suc k) (nat n))"
  using assms
proof (induction k arbitrary: n out)
  case 0
  then show ?case by (simp add: print_digits.simps digit_sum_char fixed_digits_def)
next
  case (Suc k)
  define d where "d = n div 10 ^ Suc k"
  have r: "n - d * 10 ^ Suc k = n mod 10 ^ Suc k" by (simp add: d_def minus_div_mult_eq_mod)
  have "d < 10"
  proof (rule ccontr)
    assume "\<not> d < 10"
    then have "10 * 10 ^ Suc k \<le> d * 10 ^ Suc k" by (intro mult_right_mono) auto
    moreover have "0 \<le> n mod 10 ^ Suc k" by simp
    then have "d * 10 ^ Suc k \<le> n" using r by linarith
    moreover have "n < 10 * 10 ^ Suc k" using Suc.prems(2) by simp
    ultimately show False by linarith
  qed
  then have d: "0 \<le> d" "d < 10" "n sdiv 10 ^ Suc k = d"
    using Suc.prems by (auto simp: d_def sdiv_pos pos_imp_zdiv_nonneg_iff)
  have p: "(10::int) ^ Suc k sdiv 10 = 10 ^ k" "1 < (10::int) ^ Suc k"
    using power_gt1 [of "10::int" k] by (simp_all add: sdiv_pos)
  obtain m out' where m: "print_digits (n mod 10 ^ Suc k) (10 ^ k) (out @ [digit_char (nat d)]) = (m, out')"
    "out' @ [digit_sum m] = (out @ [digit_char (nat d)]) @ map digit_char (fixed_digits 10 (Suc k) (nat (n mod 10 ^ Suc k)))"
    using Suc.IH [of "n mod 10 ^ Suc k" "out @ [digit_char (nat d)]"] by auto
  have ten: "nat ((10::int) ^ Suc k) = 10 ^ Suc k" using nat_power_eq [of 10 "Suc k"] by simp
  have nm: "nat (n mod 10 ^ Suc k) = nat n mod 10 ^ Suc k"
    using nat_mod_distrib [OF Suc.prems(1), of "10 ^ Suc k"] unfolding ten by simp
  have "nat d = nat n div 10 ^ Suc k"
    using nat_div_distrib [OF Suc.prems(1), of "10 ^ Suc k"] unfolding ten d_def .
  moreover have "nat d mod 10 = nat d" using d(1,2) by simp
  ultimately have "nat d = nat n div 10 ^ Suc k mod 10" by simp
  note nm this
  then show ?case
    using m p d(3) unfolding print_digits.simps [of n "10 ^ Suc k"] Let_def d(3) r fixed_digits_high [of 10 "Suc k"]
    by (simp add: rpn_print_char_def digit_sum_char [OF d(1,2)])
qed

lemma in_int_power: "j \<le> 8 \<Longrightarrow> in_int (10 ^ j * 10)"
proof -
  assume "j \<le> 8"
  then have "(10::int) ^ Suc j \<le> 10 ^ 9" by (intro power_increasing) auto
  then have "(10::int) ^ j * 10 \<le> 1000000000" by simp
  moreover have "0 \<le> (10::int) ^ j * 10" by simp
  moreover have "(2::int) ^ 31 = 2147483648" by simp
  ultimately show ?thesis unfolding in_int_def by linarith
qed

lemma find_power_small:
  assumes "0 \<le> n" "n < 10 ^ 9" "j \<le> 8" "j = 0 \<or> 10 ^ j \<le> n"
  shows "\<exists>k. find_power n (10 ^ j) = Some (Inr (10 ^ k)) \<and> (k = 0 \<or> 10 ^ k \<le> n) \<and> n < 10 ^ Suc k"
  using assms(3,4)
proof (induction "8 - j" arbitrary: j)
  case 0
  then have "j = 8" by simp
  with assms 0 show ?case by (intro exI [of _ 8]) (simp add: find_power.simps in_int_def sdiv_pos)
next
  case (Suc d)
  have i: "in_int (10 ^ j * 10)" using Suc by (intro in_int_power) auto
  show ?case
  proof (cases "10 ^ Suc j \<le> n")
    case True
    then have "n sdiv (10 ^ j * 10) > 0"
      using assms(1) by (simp add: sdiv_pos pos_imp_zdiv_pos_iff mult.commute)
    then have "find_power n (10 ^ j) = find_power n (10 ^ Suc j)"
      using i by (simp add: find_power.simps [of n "10 ^ j"] mult.commute)
    then show ?thesis using Suc.hyps(1) [of "Suc j"] Suc.hyps(2) Suc.prems True by simp
  next
    case False
    then have "n sdiv (10 ^ j * 10) = 0" using assms(1) by (simp add: sdiv_pos mult.commute div_pos_pos_trivial)
    then have "find_power n (10 ^ j) = Some (Inr (10 ^ j))"
      using i by (simp add: find_power.simps [of n "10 ^ j"])
    then show ?thesis using Suc.prems(2) False by (intro exI [of _ j]) auto
  qed
qed

lemma find_power_big:
  assumes "10 ^ 9 \<le> n" "j \<le> 9"
  shows "find_power n (10 ^ j) = Some (Inl Undefined_behaviour)"
  using assms(2)
proof (induction "9 - j" arbitrary: j)
  case 0
  then have "j = 9" by simp
  then show ?case by (simp add: find_power.simps in_int_def)
next
  case (Suc d)
  have "(10::int) ^ Suc j \<le> 10 ^ 9" using Suc by (intro power_increasing) auto
  then have i: "in_int (10 ^ j * 10)" "10 ^ Suc j \<le> n"
    using Suc assms(1) in_int_power [of j] by (simp_all add: order_trans [of "10 ^ Suc j" "10 ^ 9" n])
  then have "n sdiv (10 ^ j * 10) > 0"
    using order_trans [OF _ i(2)] by (simp add: sdiv_pos pos_imp_zdiv_pos_iff mult.commute)
  then have "find_power n (10 ^ j) = find_power n (10 ^ Suc j)"
    using i by (simp add: find_power.simps [of n "10 ^ j"] mult.commute)
  then show ?case using Suc.hyps(1) [of "Suc j"] Suc.hyps(2) by simp
qed

lemma rpn_print_int_eq:
  assumes "0 \<le> n"
  shows "rpn_print_int n out = (if n < 10 ^ 9 then Inr (out @ dec_of_int n) else Inl Undefined_behaviour)"
proof (cases "n < 10 ^ 9")
  case True
  obtain k where k: "find_power n 1 = Some (Inr (10 ^ k))" "k = 0 \<or> 10 ^ k \<le> n" "n < 10 ^ Suc k"
    using find_power_small [OF assms True, of 0] by auto
  obtain m out' where m: "print_digits n (10 ^ k) out = (m, out')"
    "out' @ [digit_sum m] = out @ map digit_char (fixed_digits 10 (Suc k) (nat n))"
    using print_digits_eq [OF assms k(3)] by blast
  have "nat n < 10 ^ Suc k" "k = 0 \<or> 10 ^ k \<le> nat n"
    using k(2,3) assms by (auto simp: nat_less_iff le_nat_iff)
  from dec_fixed [OF this] have "out' @ [digit_sum m] = out @ dec_of_int n"
    using m(2) assms by (simp add: dec_of_int_def)
  then show ?thesis using True k(1) m(1) by (simp add: rpn_print_int_def rpn_print_char_def)
next
  case False
  then have "find_power n 1 = Some (Inl Undefined_behaviour)" using find_power_big [of n 0] by simp
  with False show ?thesis by (simp add: rpn_print_int_def)
qed

section \<open>What the calculator computes\<close>

text \<open>
  The machine without bounds: the numbers pushed, and the number being read. A space pushes the
  number, and \<open>+\<close> replaces everything pushed so far by its sum.
\<close>

fun calc_step :: "char \<Rightarrow> int list \<times> int \<Rightarrow> int list \<times> int" where
  "calc_step c (nums, tally) =
     (if is_digit c then (nums, tally * 10 + (int (of_char c) - 48))
      else if c = CHR '' '' then (nums @ [tally], 0)
      else if c = CHR ''+'' then (if nums = [] then [] else [sum_list nums], tally)
      else (nums, tally))"

fun calc_fits :: "string \<Rightarrow> int list \<times> int \<Rightarrow> bool" where
  "calc_fits [] s = True"
| "calc_fits (c # cs) s =
     (let s' = calc_step c s
      in length (fst s') \<le> 10 \<and> snd s' < 2 ^ 31 \<and> sum_list (fst s') < 2 ^ 31 \<and> calc_fits cs s')"

definition rpn_rel :: "rpn_state \<Rightarrow> int list \<times> int \<Rightarrow> bool" where
  "rpn_rel s m \<longleftrightarrow> rpn_top s = int (length (fst m)) - 1 \<and> length (rpn_stack s) = 10 \<and> length (fst m) \<le> 10 \<and>
     take (length (fst m)) (rpn_stack s) = map Some (fst m) \<and> rpn_tally s = snd m \<and>
     (\<forall>k \<in> set (fst m). 0 \<le> k) \<and> 0 \<le> snd m \<and> sum_list (fst m) < 2 ^ 31 \<and> snd m < 2 ^ 31"

lemma take_map_nth: "take n xs = map Some ys \<Longrightarrow> i < length ys \<Longrightarrow> n \<le> length xs \<Longrightarrow> i < length xs \<and> xs ! i = Some (ys ! i)"
  by (metis length_map length_take min.absorb2 nth_map nth_take order_less_le_trans)

lemma sum_list_nonneg_last_two:
  fixes xs :: "int list"
  assumes "\<forall>k \<in> set (xs @ [y, x]). 0 \<le> k"
  shows "0 \<le> x + y \<and> x + y \<le> sum_list (xs @ [y, x])"
  using assms sum_list_nonneg [of xs] by auto

lemma collapse_sum:
  "length nums = Suc t \<Longrightarrow> take (Suc t) stack = map Some nums \<Longrightarrow> Suc t \<le> length stack \<Longrightarrow>
   \<forall>k \<in> set nums. 0 \<le> k \<Longrightarrow> sum_list nums < 2 ^ 31 \<Longrightarrow>
   \<exists>stack'. collapse t stack = Inr stack' \<and> length stack' = length stack \<and> stack' ! 0 = Some (sum_list nums)"
proof (induction t arbitrary: stack nums)
  case 0
  then obtain k where "nums = [k]" by (cases nums) auto
  with 0 show ?case by (cases stack) auto
next
  case (Suc t)
  obtain ns y x where nums: "nums = ns @ [y, x]" "length ns = t"
    using Suc.prems(1) by (cases nums rule: rev_cases; cases "butlast nums" rule: rev_cases) auto
  have at: "stack ! t = Some y" "stack ! Suc t = Some x" "t < length stack" "Suc t < length stack"
    using take_map_nth [OF Suc.prems(2), of t] take_map_nth [OF Suc.prems(2), of "Suc t"] Suc.prems(3) nums
    by (auto simp: nth_append)
  have xy: "0 \<le> x + y" "x + y < 2 ^ 31"
    using sum_list_nonneg_last_two [of ns y x] Suc.prems(4,5) nums by auto
  have "take t stack = map Some ns"
    using arg_cong [OF Suc.prems(2), of "take t"] nums by simp
  then have tk: "take (Suc t) (stack[t := Some (x + y)]) = map Some (ns @ [x + y])"
    using at by (simp add: take_Suc_conv_app_nth)
  have "\<exists>stack'. collapse t (stack[t := Some (x + y)]) = Inr stack' \<and>
      length stack' = length (stack[t := Some (x + y)]) \<and> stack' ! 0 = Some (sum_list (ns @ [x + y]))"
    using nums Suc.prems xy by (intro Suc.IH [OF _ tk]) (auto simp: add.commute)
  then show ?case
    using at xy nums by (auto simp: stack_read_def in_int_def add.commute)
qed

lemma rpn_char_rel:
  assumes "rpn_rel s m" "calc_step c m = m'" "length (fst m') \<le> 10" "snd m' < 2 ^ 31" "sum_list (fst m') < 2 ^ 31"
  shows "\<exists>s'. rpn_char c s = Inr s' \<and> rpn_rel s' m'"
proof -
  obtain nums tally where m: "m = (nums, tally)" by fastforce
  consider (Digit) "is_digit c" | (Space) "\<not> is_digit c" "c = CHR '' ''"
    | (Plus) "\<not> is_digit c" "c = CHR ''+''" | (Other) "\<not> is_digit c" "c \<noteq> CHR '' ''" "c \<noteq> CHR ''+''" by blast
  then show ?thesis
  proof cases
    case Digit
    then have "48 \<le> int (of_char c)" by (simp add: is_digit_def)
    then show ?thesis
      using assms Digit by (auto simp: m rpn_char_def rpn_rel_def in_int_def Let_def)
  next
    case Space
    then have m': "m' = (nums @ [tally], 0)" "length nums < 10" using assms(2,3) m by auto
    have "nat (rpn_top s + 1) = length nums" using assms(1) by (simp add: rpn_rel_def m)
    then show ?thesis
      using assms(1,5) Space m' by (auto simp: m rpn_char_def rpn_rel_def Let_def take_Suc_conv_app_nth)
  next
    case Plus
    show ?thesis
    proof (cases "nums = []")
      case True
      with assms Plus show ?thesis by (auto simp: m rpn_char_def rpn_rel_def)
    next
      case False
      then obtain t where t: "length nums = Suc t" by (cases nums) auto
      then have top: "nat (rpn_top s) = t" "rpn_top s = int t" using assms(1) by (auto simp: rpn_rel_def m)
      have "sum_list nums < 2 ^ 31" using assms(1) by (simp add: rpn_rel_def m)
      then obtain stack' where st: "collapse t (rpn_stack s) = Inr stack'" "length stack' = 10"
          "stack' ! 0 = Some (sum_list nums)"
        using collapse_sum [of nums t "rpn_stack s"] assms(1) t by (auto simp: rpn_rel_def m)
      have "take (Suc 0) stack' = [Some (sum_list nums)]" using st by (cases stack') auto
      moreover have "0 \<le> sum_list nums" using assms(1) by (auto simp: rpn_rel_def m intro: sum_list_nonneg)
      ultimately show ?thesis
        using assms Plus False st top by (auto simp: m rpn_char_def rpn_rel_def)
    qed
  next
    case Other
    with assms show ?thesis by (auto simp: m rpn_char_def rpn_rel_def)
  qed
qed

lemma rpn_chars_rel:
  "rpn_rel s m \<Longrightarrow> calc_fits expr m \<Longrightarrow> \<exists>s'. rpn_chars expr s = Inr s' \<and> rpn_rel s' (fold calc_step expr m)"
proof (induction expr arbitrary: s m)
  case (Cons c cs)
  then have "length (fst (calc_step c m)) \<le> 10" "snd (calc_step c m) < 2 ^ 31" "sum_list (fst (calc_step c m)) < 2 ^ 31"
    "calc_fits cs (calc_step c m)" by (auto simp: Let_def)
  from rpn_char_rel [OF Cons.prems(1) refl this(1-3)] Cons.IH [OF _ this(4)] show ?case by auto
qed simp

lemma rpn_evaluate_eq:
  assumes "calc_fits expr ([], 0)" "fold calc_step expr ([], 0) = (x # rest, tally)" "x < 10 ^ 9"
  shows "rpn_evaluate expr out = Inr (out @ dec_of_int x @ [char_of (10::nat)])"
proof -
  have "rpn_rel rpn_init ([], 0)" by (simp add: rpn_rel_def rpn_init_def)
  from rpn_chars_rel [OF this assms(1)] obtain s where
    s: "rpn_chars expr rpn_init = Inr s" "rpn_rel s (x # rest, tally)" using assms(2) by auto
  then have x: "0 \<le> x" "stack_read (rpn_stack s) 0 = Inr x"
    using take_map_nth [of "length (x # rest)" "rpn_stack s" "x # rest" 0]
    by (auto simp: rpn_rel_def stack_read_def)
  then show ?thesis
    using assms(3) by (simp add: rpn_evaluate_def s(1) rpn_print_int_eq rpn_print_char_def)
qed

end
