(* ===== verification/Theorems_Text.thy ===== *)
theory Theorems_Text
  imports Sail_Real Demo_Rpn
begin

text \<open>
  The properties of strings, printing and reals, and of the demonstration programs.
\<close>

section \<open>Printing and parsing\<close>

text \<open>
  C35. A bitvector of less than 2^31 - 1 bits is printed as the reference prints its bits, in
  hexadecimal when its length is a multiple of 4 and in binary otherwise, by \<open>string_of_lbits\<close> and by
  \<open>fprint_bits\<close> alike, and the reference's parser reads the hexadecimal digits back. The one exception
  is the empty bitvector: the reference and \<open>fprint_bits\<close> print 0x, \<open>string_of_lbits\<close> prints 0x0.
\<close>

theorem bits_printed_as_reference:
  assumes "gmp_laws G" "gmp_text_laws T" "wf_lbits v" "unat (l_len v) < 2 ^ 31 - 1"
  shows "\<exists>s. ml_string_of_bits (bl_of v) = Some s \<and>
    string_of_lbits G T v = Inr (if l_len v = 0 then ''0x0'' else s) \<and> (l_len v = 0 \<longrightarrow> s = ''0x'') \<and>
    fprint_bits G pre v post = Inr (pre @ s @ post) \<and>
    (l_len v mod 4 = 0 \<longrightarrow> ml_bits_of_string (drop 2 s) = Some (bl_of v))"
proof -
  obtain s where s: "ml_string_of_bits (bl_of v) = Some s" "string_of_lbits G T v = Inr (if l_len v = 0 then ''0x0'' else s)"
    "l_len v = 0 \<longrightarrow> s = ''0x''"
    using string_of_lbits_reference [OF assms(1-3) _ assms(4)] string_of_lbits_empty [OF assms(2,3)]
    by (cases "l_len v = 0") (auto simp: word_gt_0)
  show ?thesis
  proof (cases "l_len v mod 4 = 0")
    case True
    have n: "unat (l_len v) = 4 * unat (l_len v div 4)" by (rule len_div_4 [OF True])
    then have "unat (l_len v div 4) < 2 ^ 31 - 1" using assms(4) by linarith
    then have "uint (l_len v div 4) \<le> int_max" by (simp add: uint_nat del: of_nat_unat)
    from gmp_laws.fprint_bits_hex [OF assms(1,3) True this] s
    have f: "fprint_bits G pre v post = Inr (pre @ s @ post)" by auto
    have "s = ''0x'' @ map (\<lambda>i. hex_digit (of_nat (nibble (l_bits v) i))) (rev [0..<unat (l_len v div 4)])"
      using s(1) ml_hex_int_bl [of "unat (l_len v div 4)" "l_bits v"] unfolding bl_of_def n [symmetric] by simp
    then have "ml_bits_of_string (drop 2 s) = Some (bl_of v)"
      using ml_bits_of_hex [of "l_bits v" "unat (l_len v div 4)"] unfolding bl_of_def n [symmetric] by simp
    with s f show ?thesis by blast
  next
    case False
    from gmp_laws.fprint_bits_bin [OF assms(1) False] assms(4) s show ?thesis using False by auto
  qed
qed

theorem bits_printed_as_reference_witness:
  "string_of_lbits gmp_ref gmp_text_ref \<lparr>l_len = 8, l_bits = 0xA5\<rparr> = Inr ''0xA5'' \<and>
   string_of_lbits gmp_ref gmp_text_ref \<lparr>l_len = 0, l_bits = 0\<rparr> = Inr ''0x0'' \<and>
   fprint_bits gmp_ref [] \<lparr>l_len = 0, l_bits = 0\<rparr> [] = Inr ''0x''"
proof -
  have "ml_string_of_bits (bl_of \<lparr>l_len = 8, l_bits = 0xA5\<rparr>) = Some ''0xA5''" by code_simp
  with bits_printed_as_reference [OF gmp_ref_laws gmp_text_ref_laws, of "\<lparr>l_len = 8, l_bits = 0xA5\<rparr>" "[]" "[]"]
    bits_printed_as_reference [OF gmp_ref_laws gmp_text_ref_laws, of "\<lparr>l_len = 0, l_bits = 0\<rparr>" "[]" "[]"]
  show ?thesis by (auto simp: wf_lbits_def)
qed

text \<open>
  An integer printed in decimal is read back by the three conversions from strings.
\<close>

theorem decimal_round_trip:
  assumes "gmp_text_laws T"
  shows "create_sail_int_of_sail_string T (string_of_int T k) = Some k \<and>
    convert_sail_int_of_sail_string T (dec_str T k) = Some k \<and>
    recreate_sail_int_of_sail_string T (dec_str T k) = Some k"
  using assms
  by (simp add: create_sail_int_of_sail_string_def convert_sail_int_of_sail_string_def
      recreate_sail_int_of_sail_string_def string_of_int_def dec_str_def gmp_text_laws.fmt_Zd_law
      gmp_text_laws.mpz_set_str_law parse_dec_of_int)

theorem decimal_round_trip_witness:
  "create_sail_int_of_sail_string gmp_text_ref (string_of_int gmp_text_ref (- 42)) = Some (- 42)"
  using decimal_round_trip [OF gmp_text_ref_laws, of "- 42"] by simp

text \<open>
  C36. String equality and prefix test decide what their names say and dropping characters drops
  them; but taking a nonempty prefix of a nonempty string always ends in undefined behaviour: the
  terminating zero is stored through a misplaced subscript.
\<close>

theorem string_operations:
  assumes "gmp_laws G" "0 \<le> k" "k < 2 ^ 64" "length s < 2 ^ 64"
  shows "(eq_string s t \<longleftrightarrow> s = t) \<and> (string_startswith s t \<longleftrightarrow> (\<exists>u. s = t @ u)) \<and>
    string_drop G s k = drop (nat k) s \<and>
    string_take G s k = (if k = 0 \<or> s = [] then Inr [] else Inl Undefined_behaviour)"
  using gmp_laws.string_drop_eq [OF assms] gmp_laws.string_take_eq [OF assms] eq_string_iff(1) [of s t]
    string_startswith_iff [of s t] by blast

theorem string_operations_witness:
  "string_take gmp_ref ''abc'' 2 = Inl Undefined_behaviour \<and> string_drop gmp_ref ''abc'' 2 = ''c''"
  using string_operations [OF gmp_ref_laws, of 2 "''abc''" "''ab''"] by simp

section \<open>Reals\<close>

lemma qv_of_int_iff:
  assumes "canonical q" "qv q = of_int m"
  shows "mpq_denref q = 1 \<and> mpq_numref q = m"
proof -
  have d: "0 < mpq_denref q" "coprime (mpq_numref q) (mpq_denref q)" using assms(1) by (auto simp: canonical_def)
  then have "mpq_numref q = m * mpq_denref q"
    using assms(2) by (simp add: qv_def Fract_of_int_eq [symmetric] eq_rat flip: of_int_mult)
  with d show ?thesis by (simp add: coprime_mult_left_iff)
qed

text \<open>
  C37. The square root returns for every number that is not negative: exactly for the square of
  an integer, and otherwise after finitely many steps of the Babylonian method, with a result that
  is not below the root and whose square is less than \<open>10 ^ - 60\<close> too big. For a negative number it
  aborts.
\<close>

theorem sqrt_terminates:
  assumes "gmpq_laws G Q" "canonical op"
  shows "if qv op < 0 then sqrt_real G Q op = Inl Gmp_abort
    else \<exists>r. sqrt_real G Q op = Inr r \<and> canonical r \<and> 0 \<le> qv r \<and> qv op \<le> qv r * qv r \<and>
      qv r * qv r < qv op + (1 / 10 ^ 30) * (1 / 10 ^ 30) \<and>
      (\<forall>k. qv op = of_int (k * k) \<longrightarrow> qv r * qv r = qv op)"
proof (cases "qv op < 0")
  case True
  with gmpq_laws.sqrt_real_negative [OF assms] show ?thesis by simp
next
  case nonneg: False
  have g: "gmp_laws G" using assms(1) by (simp add: gmpq_laws_def)
  have square: "mpq_denref op = 1 \<and> mpz_perfect_square_p G (mpq_numref op)" if "qv op = of_int (k * k)" for k
    using qv_of_int_iff [OF assms(2) that] gmp_laws.mpz_perfect_square_p_law [OF g] by auto
  show ?thesis
  proof (cases "mpq_denref op = 1 \<and> mpz_perfect_square_p G (mpq_numref op)")
    case True
    then obtain r where r: "sqrt_real G Q op = Inr r" "canonical r" "0 \<le> qv r" "qv r * qv r = qv op"
      using gmpq_laws.sqrt_real_exact [OF assms(1)] by blast
    have "(0::rat) < (1 / 10 ^ 30) * (1 / 10 ^ 30)" by simp
    then have "qv op < qv op + (1 / 10 ^ 30) * (1 / 10 ^ 30)" by linarith
    with r nonneg show ?thesis unfolding r(4) [symmetric] by auto
  next
    case False
    have "qv op \<noteq> of_int (0 * 0)" using square [of 0] False by blast
    then have "0 < qv op" using nonneg by simp
    from gmpq_laws.sqrt_real_general [OF assms this False] obtain r where
      "sqrt_real G Q op = Inr r" "sqrt_found (qv op) (1 / 10 ^ 30) r" by blast
    moreover have "qv op \<noteq> of_int (k * k)" for k using square [of k] False by blast
    ultimately show ?thesis using nonneg unfolding sqrt_found_def by auto
  qed
qed

theorem sqrt_terminates_witness:
  "\<exists>r. sqrt_real gmp_ref gmpq_ref (mpq_of 2 1) = Inr r \<and> qv r * qv r < 2 + (1 / 10 ^ 30) * (1 / 10 ^ 30)"
  using sqrt_terminates [OF gmpq_ref_laws canonical_int(1) [of 2]] canonical_int(2) [of 2] by auto

text \<open>
  C38. The power by repeated squaring is the power with an integer exponent, for every exponent
  whose absolute value fits an \<open>int64_t\<close>; a negative power of zero aborts.
\<close>

theorem real_power_correct:
  assumes "gmpq_laws G Q" "canonical b" "- (2 ^ 63) < e" "e < 2 ^ 63"
  shows "if qv b = 0 \<and> e < 0 then real_power G Q b e = Inl Gmp_abort
    else \<exists>r. real_power G Q b e = Inr r \<and> canonical r \<and> qv r = power_int (qv b) e"
  using gmpq_laws.real_power_eq [OF assms] gmpq_laws.real_power_zero [OF assms(1-3)] by auto

theorem real_power_correct_witness:
  "\<exists>r. real_power gmp_ref gmpq_ref (mpq_of 2 1) (- 3) = Inr r \<and> qv r = 1 / 8"
  using real_power_correct [OF gmpq_ref_laws canonical_int(1) [of 2], of "- 3"] canonical_int(2) [of 2]
  by (auto simp: power_int_def power_divide)

text \<open>
  Rounding up and down are ceiling and floor, the five comparisons compare values, the
  arithmetic computes them, and division by zero aborts.
\<close>

theorem real_operations:
  assumes "gmpq_laws G Q" "canonical a" "canonical b"
  shows "round_up G a = Inr \<lceil>qv a\<rceil> \<and> round_down G a = Inr \<lfloor>qv a\<rfloor> \<and>
    (eq_real Q a b \<longleftrightarrow> qv a = qv b) \<and> (lt_real Q a b \<longleftrightarrow> qv a < qv b) \<and> (gt_real Q a b \<longleftrightarrow> qv b < qv a) \<and>
    (lteq_real Q a b \<longleftrightarrow> qv a \<le> qv b) \<and> (gteq_real Q a b \<longleftrightarrow> qv b \<le> qv a) \<and>
    qv (add_real Q a b) = qv a + qv b \<and> qv (sub_real Q a b) = qv a - qv b \<and> qv (mult_real Q a b) = qv a * qv b \<and>
    (if qv b = 0 then div_real Q a b = Inl Gmp_abort else \<exists>r. div_real Q a b = Inr r \<and> qv r = qv a / qv b)"
  using gmpq_laws.rounding [OF assms(1,2)] gmpq_laws.comparisons [OF assms]
    gmpq_laws.mpq_add_law [OF assms] gmpq_laws.mpq_sub_law [OF assms] gmpq_laws.mpq_mul_law [OF assms]
    gmpq_laws.mpq_div_law [OF assms] gmpq_laws.mpq_div_zero [OF assms(1,3)]
  by (auto simp: add_real_def sub_real_def mult_real_def div_real_def)

theorem real_operations_witness:
  "round_up gmp_ref (mpq_of 7 2) = Inr 4 \<and> lt_real gmpq_ref (mpq_of 1 1) (mpq_of 7 2)"
proof -
  have "gcd (7::int) 2 = 1" by code_simp
  then have c: "canonical (mpq_of 7 2)" "qv (mpq_of 7 2) = 7 / 2"
    by (simp_all add: canonical_def mpq_of_def qv_def Fract_of_int_quotient coprime_iff_gcd_eq_1)
  have "\<lceil>7 / 2 :: rat\<rceil> = 4" by (rule ceiling_unique) simp_all
  then show ?thesis
    using real_operations [OF gmpq_ref_laws c(1) c(1), unfolded c(2)]
      real_operations [OF gmpq_ref_laws canonical_int(1) [of 1] c(1), unfolded c(2)] canonical_int(2) [of 1] by simp
qed

text \<open>
  C39. A string with a decimal fraction is read as its integer part plus its fraction, the fraction added
  with a positive sign also when the number is negative. That is so for strings of at most
  INT_MAX characters; for a longer one the int positions overflow and the behaviour is undefined.
\<close>

theorem decimal_fraction_parsed:
  fixes neg :: bool
  assumes "gmpq_laws G Q" "list_all is_digit ip" "ip \<noteq> []" "list_all is_digit fp" "fp \<noteq> []"
    and s: "s = (if neg then ''-'' else []) @ ip @ ''.'' @ fp"
  shows "if int (length s) \<le> int_max
    then \<exists>r. create_real_of_sail_string G Q s = Inr r \<and> convert_real_of_sail_string G Q s = Inr r \<and> canonical r \<and>
      qv r = (if neg then - of_nat (dec_value ip) else of_nat (dec_value ip)) + of_nat (dec_value fp) / 10 ^ length fp
    else create_real_of_sail_string G Q s = Inl Undefined_behaviour \<and>
      convert_real_of_sail_string G Q s = Inl Undefined_behaviour"
proof (cases "int (length s) \<le> int_max")
  case True
  from gmpq_laws.real_of_string [OF assms(1-5) True [unfolded s]] True show ?thesis
    unfolding s by (simp only: if_True)
next
  case False
  from gmpq_laws.real_of_long_string [OF assms(1-5) False [unfolded s]] False show ?thesis
    unfolding s by (simp only: if_False simp_thms)
qed

theorem decimal_fraction_parsed_witness:
  "\<exists>r. create_real_of_sail_string gmp_ref gmpq_ref ''-1.5'' = Inr r \<and> qv r = - 1 / 2"
proof -
  have d: "list_all is_digit ''1''" "list_all is_digit ''5''" "dec_value ''1'' = 1" "dec_value ''5'' = 5"
    by code_simp+
  from decimal_fraction_parsed [OF gmpq_ref_laws d(1) _ d(2) _ refl, of True] show ?thesis
    by (auto simp: d(3,4))
qed

section \<open>The calculator\<close>

text \<open>
  C40. The calculator prints the bottom of the stack of the machine without bounds, in decimal, as
  long as no more than 10 numbers are on the stack, the numbers and the sum of the stack fit an
  \<open>int\<close> and the number printed has at most 9 digits. A \<open>+\<close> adds up the whole stack.
\<close>

theorem calculator_prints_bottom:
  assumes "calc_fits expr ([], 0)" "fold calc_step expr ([], 0) = (x # rest, tally)" "x < 10 ^ 9"
  shows "rpn_evaluate expr out = Inr (out @ dec_of_int x @ [char_of (10::nat)])"
  by (rule rpn_evaluate_eq [OF assms])

theorem calculator_prints_bottom_witness:
  "rpn_evaluate ''1 12 21 + 100 +'' [] = Inr (''134'' @ [char_of (10::nat)])"
proof -
  have fits: "calc_fits ''1 12 21 + 100 +'' ([], 0)" by code_simp
  have sum: "fold calc_step ''1 12 21 + 100 +'' ([], 0) = ([134], 0)" by code_simp
  have dec: "dec_of_int 134 = ''134''"
    by (simp add: dec_of_int_def dec_of_nat_def digits.simps [of 10 134] digits.simps [of 10 13] digits.simps [of 10 1]) code_simp
  have "rpn_evaluate ''1 12 21 + 100 +'' [] = Inr ([] @ dec_of_int 134 @ [char_of (10::nat)])"
    by (rule calculator_prints_bottom [OF fits sum]) simp
  then show ?thesis unfolding dec append_Nil .
qed

end
