(* ===== verification/Sail_Store.thy ===== *)
theory Sail_Store
  imports Sail_Real Sail_Reverse
begin

text \<open>
  The memory behind the builtin types (\<open>lib/sail.h\<close>, \<open>SAIL_BUILTIN_TYPE\<close>): allocation,
  reinitialisation, deep copy and deallocation of integers, rationals, bitvectors and strings
  (\<open>CREATE\<close>, \<open>RECREATE\<close>, \<open>COPY\<close>, \<open>KILL\<close> in \<open>lib/sail.c\<close>) on an explicit heap. The value
  theories say what an object holds after a call; this one says where it lives, that nothing is used
  before it is created or after it is killed, and that no memory is lost.
\<close>

section \<open>The heap\<close>

text \<open>
  The heap is split by type. An \<open>mpz_t\<close> is the storage of an integer variable, a block that
  \<open>malloc\<close> delivered for a bitvector, one of the library's three static temporaries, or a local
  variable of a function of the library; it holds \<open>None\<close> before \<open>mpz_init\<close> and after
  \<open>mpz_clear\<close>. An \<open>lbits\<close> variable is a structure of a length and a pointer, a string variable a
  pointer to characters. Variables of different types are different objects even when they have the
  same number. \<open>h_leaks\<close> counts the numbers whose memory was lost: initialised again, or in a block
  that was freed, without \<open>mpz_clear\<close>. \<open>malloc\<close> and \<open>realloc\<close> never fail and never deliver an
  address twice, so every use of a freed block is found.
\<close>

type_synonym addr = nat
type_synonym var = nat

datatype loc = Var var | Heap addr | Tmp1 | Tmp2 | Tmp3 | Local1 | Local2

record heap =
  h_mpz :: "loc \<Rightarrow> int option"
  h_mpq :: "var \<Rightarrow> mpq option"
  h_len :: "var \<Rightarrow> u64 option"
  h_bits :: "var \<Rightarrow> addr option"
  h_str :: "var \<Rightarrow> addr option"
  h_chars :: "addr \<Rightarrow> char option list option"
  h_live :: "addr set"
  h_next :: addr
  h_leaks :: nat

type_synonym stmt = "heap \<Rightarrow> heap res"

text \<open>Statements one after the other, and a statement that uses a value read from the heap.\<close>

fun seq :: "stmt list \<Rightarrow> stmt" where
  "seq [] h = Inr h"
| "seq (s # ss) h = bind_res (s h) (seq ss)"

definition reading :: "(heap \<Rightarrow> 'a res) \<Rightarrow> ('a \<Rightarrow> stmt) \<Rightarrow> stmt" where
  "reading r s h = bind_res (r h) (\<lambda>x. s x h)"

definition assertion :: "bool \<Rightarrow> stmt" where
  "assertion b h = check b Assertion_failed (Inr h)"

definition require :: "bool \<Rightarrow> stmt" where
  "require b h = check b Undefined_behaviour (Inr h)"

section \<open>Memory functions\<close>

definition get_mpz :: "loc \<Rightarrow> heap \<Rightarrow> int res" where
  "get_mpz p h = of_option Undefined_behaviour (h_mpz h p)"

definition put_mpz :: "loc \<Rightarrow> int \<Rightarrow> stmt" where
  "put_mpz p v h = check (h_mpz h p \<noteq> None) Undefined_behaviour (Inr (h\<lparr>h_mpz := (h_mpz h)(p \<mapsto> v)\<rparr>))"

fun heap_address :: "loc \<Rightarrow> addr set" where
  "heap_address (Heap a) = {a}"
| "heap_address l = {}"

definition lose :: "bool \<Rightarrow> heap \<Rightarrow> heap" where
  "lose b h = (if b then h\<lparr>h_leaks := h_leaks h + 1\<rparr> else h)"

definition init_mpz :: "loc \<Rightarrow> int \<Rightarrow> stmt" where
  "init_mpz p v h =
     check (\<forall>a\<in>heap_address p. a \<in> h_live h) Undefined_behaviour
       (Inr (lose (h_mpz h p \<noteq> None) (h\<lparr>h_mpz := (h_mpz h)(p \<mapsto> v)\<rparr>)))"

definition clear_mpz :: "loc \<Rightarrow> stmt" where
  "clear_mpz p h = check (h_mpz h p \<noteq> None) Undefined_behaviour (Inr (h\<lparr>h_mpz := (h_mpz h)(p := None)\<rparr>))"

definition mpz1 :: "(int \<Rightarrow> int) \<Rightarrow> loc \<Rightarrow> loc \<Rightarrow> stmt" where
  "mpz1 f p a = reading (get_mpz a) (\<lambda>x. put_mpz p (f x))"

definition mpz2 :: "(int \<Rightarrow> int \<Rightarrow> int) \<Rightarrow> loc \<Rightarrow> loc \<Rightarrow> loc \<Rightarrow> stmt" where
  "mpz2 f p a b = reading (get_mpz a) (\<lambda>x. reading (get_mpz b) (\<lambda>y. put_mpz p (f x y)))"

definition get_mpq :: "var \<Rightarrow> heap \<Rightarrow> mpq res" where
  "get_mpq x h = of_option Undefined_behaviour (h_mpq h x)"

definition put_mpq :: "var \<Rightarrow> mpq \<Rightarrow> stmt" where
  "put_mpq x v h = check (h_mpq h x \<noteq> None) Undefined_behaviour (Inr (h\<lparr>h_mpq := (h_mpq h)(x \<mapsto> v)\<rparr>))"

definition init_mpq :: "var \<Rightarrow> mpq \<Rightarrow> stmt" where
  "init_mpq x v h = Inr (lose (h_mpq h x \<noteq> None) (h\<lparr>h_mpq := (h_mpq h)(x \<mapsto> v)\<rparr>))"

definition clear_mpq :: "var \<Rightarrow> stmt" where
  "clear_mpq x h = check (h_mpq h x \<noteq> None) Undefined_behaviour (Inr (h\<lparr>h_mpq := (h_mpq h)(x := None)\<rparr>))"

text \<open>
  \<open>malloc\<close> for one \<open>mpz_t\<close> and for characters, which have no value yet; \<open>free\<close> takes any block
  that is live.
\<close>

definition malloc :: "(addr \<Rightarrow> stmt) \<Rightarrow> stmt" where
  "malloc s h = s (h_next h) (h\<lparr>h_live := insert (h_next h) (h_live h), h_next := h_next h + 1\<rparr>)"

definition malloc_chars :: "nat \<Rightarrow> (addr \<Rightarrow> stmt) \<Rightarrow> stmt" where
  "malloc_chars n s = malloc (\<lambda>p h. s p (h\<lparr>h_chars := (h_chars h)(p \<mapsto> replicate n None)\<rparr>))"

definition free_block :: "addr \<Rightarrow> stmt" where
  "free_block p h =
     check (p \<in> h_live h) Undefined_behaviour
       (Inr (lose (h_mpz h (Heap p) \<noteq> None)
          (h\<lparr>h_mpz := (h_mpz h)(Heap p := None), h_chars := (h_chars h)(p := None), h_live := h_live h - {p}\<rparr>)))"

text \<open>The contents of a block of characters: a string up to its terminating zero.\<close>

definition nul :: char where
  "nul = char_of (0::nat)"

fun chars_text :: "char option list \<Rightarrow> string res" where
  "chars_text [] = Inl Undefined_behaviour"
| "chars_text (None # cs) = Inl Undefined_behaviour"
| "chars_text (Some c # cs) = (if c = nul then Inr [] else bind_res (chars_text cs) (\<lambda>s. Inr (c # s)))"

definition get_chars :: "addr \<Rightarrow> heap \<Rightarrow> char option list res" where
  "get_chars p h = of_option Undefined_behaviour (h_chars h p)"

definition get_string :: "addr \<Rightarrow> heap \<Rightarrow> string res" where
  "get_string p h = bind_res (get_chars p h) chars_text"

definition put_char :: "addr \<Rightarrow> nat \<Rightarrow> char \<Rightarrow> stmt" where
  "put_char p i c = reading (get_chars p) (\<lambda>cs h.
     check (i < length cs) Undefined_behaviour (Inr (h\<lparr>h_chars := (h_chars h)(p \<mapsto> cs[i := Some c])\<rparr>)))"

text \<open>\<open>realloc\<close> moves the block: the old one is freed.\<close>

definition realloc :: "addr \<Rightarrow> nat \<Rightarrow> (addr \<Rightarrow> stmt) \<Rightarrow> stmt" where
  "realloc p n s = reading (get_chars p) (\<lambda>old. malloc_chars n (\<lambda>q. seq
     [\<lambda>h. Inr (h\<lparr>h_chars := (h_chars h)(q \<mapsto> take n old @ replicate (n - length old) None)\<rparr>),
      free_block p,
      s q]))"

text \<open>\<open>strcpy\<close> of a string with its terminating zero to the start of a block.\<close>

definition put_string :: "addr \<Rightarrow> nat \<Rightarrow> string \<Rightarrow> stmt" where
  "put_string p i s = reading (get_chars p) (\<lambda>cs h.
     check (i + length s < length cs) Undefined_behaviour
       (Inr (h\<lparr>h_chars := (h_chars h)(p \<mapsto>
          take i cs @ map Some (s @ [nul]) @ drop (i + length s + 1) cs)\<rparr>)))"

definition strcpy :: "addr \<Rightarrow> addr \<Rightarrow> stmt" where
  "strcpy p q = reading (get_string q) (\<lambda>s. seq [require (p \<noteq> q), put_string p 0 s])"

definition strcat :: "addr \<Rightarrow> addr \<Rightarrow> stmt" where
  "strcat p q = reading (get_string p) (\<lambda>s. reading (get_string q) (\<lambda>t. seq
     [require (p \<noteq> q), put_string p (length s) t]))"

section \<open>The builtin types\<close>

subsection \<open>Integers\<close>

definition create_sail_int_at :: "gmp \<Rightarrow> var \<Rightarrow> stmt" where
  "create_sail_int_at G rop = init_mpz (Var rop) (mpz_init G)"

definition recreate_sail_int_at :: "gmp \<Rightarrow> var \<Rightarrow> stmt" where
  "recreate_sail_int_at G rop = put_mpz (Var rop) (mpz_set_ui G 0)"

definition copy_sail_int_at :: "gmp \<Rightarrow> var \<Rightarrow> var \<Rightarrow> stmt" where
  "copy_sail_int_at G rop op = mpz1 (mpz_set G) (Var rop) (Var op)"

definition kill_sail_int :: "var \<Rightarrow> stmt" where
  "kill_sail_int rop = clear_mpz (Var rop)"

subsection \<open>Rationals\<close>

definition create_real_at :: "var \<Rightarrow> stmt" where
  "create_real_at rop = init_mpq rop (mpq_of 0 1)"

definition recreate_real_at :: "var \<Rightarrow> stmt" where
  "recreate_real_at rop = put_mpq rop (mpq_of 0 1)"

definition copy_real_at :: "var \<Rightarrow> var \<Rightarrow> stmt" where
  "copy_real_at rop op = reading (get_mpq op) (\<lambda>v. put_mpq rop v)"

definition kill_real :: "var \<Rightarrow> stmt" where
  "kill_real rop = clear_mpq rop"

subsection \<open>Bitvectors\<close>

text \<open>
  The fields of \<open>*rop\<close>. An \<open>lbits\<close> operand is passed by value: its length and its pointer are read at the call.
\<close>

definition set_len :: "var \<Rightarrow> u64 \<Rightarrow> stmt" where
  "set_len x n h = Inr (h\<lparr>h_len := (h_len h)(x \<mapsto> n)\<rparr>)"

definition set_bits :: "var \<Rightarrow> addr \<Rightarrow> stmt" where
  "set_bits x p h = Inr (h\<lparr>h_bits := (h_bits h)(x \<mapsto> p)\<rparr>)"

definition len_of :: "var \<Rightarrow> heap \<Rightarrow> u64 res" where
  "len_of x h = of_option Undefined_behaviour (h_len h x)"

definition bits_of :: "var \<Rightarrow> heap \<Rightarrow> addr res" where
  "bits_of x h = of_option Undefined_behaviour (h_bits h x)"

definition on_bits :: "var \<Rightarrow> (loc \<Rightarrow> stmt) \<Rightarrow> stmt" where
  "on_bits x s = reading (bits_of x) (\<lambda>p. s (Heap p))"

record lbits_arg =
  a_len :: u64
  a_bits :: loc

definition pass :: "var \<Rightarrow> heap \<Rightarrow> lbits_arg res" where
  "pass x h = bind_res (len_of x h) (\<lambda>n. bind_res (bits_of x h) (\<lambda>p. Inr \<lparr>a_len = n, a_bits = Heap p\<rparr>))"

definition create_lbits_at :: "gmp \<Rightarrow> var \<Rightarrow> stmt" where
  "create_lbits_at G rop = seq
     [malloc (set_bits rop),
      set_len rop 0,
      on_bits rop (\<lambda>p. init_mpz p (mpz_init G))]"

definition recreate_lbits_at :: "gmp \<Rightarrow> var \<Rightarrow> stmt" where
  "recreate_lbits_at G rop = seq
     [set_len rop 0,
      on_bits rop (\<lambda>p. put_mpz p (mpz_set_ui G 0))]"

definition copy_lbits_at :: "gmp \<Rightarrow> var \<Rightarrow> lbits_arg \<Rightarrow> stmt" where
  "copy_lbits_at G rop op = seq
     [set_len rop (a_len op),
      on_bits rop (\<lambda>p. mpz1 (mpz_set G) p (a_bits op))]"

definition kill_lbits :: "var \<Rightarrow> stmt" where
  "kill_lbits rop = seq
     [on_bits rop clear_mpz,
      reading (bits_of rop) free_block]"

subsection \<open>Strings\<close>

definition set_str :: "var \<Rightarrow> addr \<Rightarrow> stmt" where
  "set_str x p h = Inr (h\<lparr>h_str := (h_str h)(x \<mapsto> p)\<rparr>)"

definition str_of :: "var \<Rightarrow> heap \<Rightarrow> addr res" where
  "str_of x h = of_option Undefined_behaviour (h_str h x)"

definition create_sail_string_at :: "var \<Rightarrow> stmt" where
  "create_sail_string_at str = malloc_chars 1 (\<lambda>istr. seq
     [put_char istr 0 nul,
      set_str str istr])"

definition recreate_sail_string_at :: "var \<Rightarrow> stmt" where
  "recreate_sail_string_at str = seq
     [reading (str_of str) free_block,
      malloc_chars 1 (\<lambda>istr. seq
        [put_char istr 0 nul,
         set_str str istr])]"

text \<open>The second string is passed by value: as the pointer the variable holds at the call.\<close>

definition copy_sail_string_at :: "var \<Rightarrow> addr \<Rightarrow> stmt" where
  "copy_sail_string_at str1 str2 = reading (get_string str2) (\<lambda>s.
     let n = length s
     in seq
       [reading (str_of str1) (\<lambda>p. realloc p (n + 1) (set_str str1)),
        reading (str_of str1) (\<lambda>p. strcpy p str2)])"

definition kill_sail_string :: "var \<Rightarrow> stmt" where
  "kill_sail_string str = reading (str_of str) free_block"

definition concat_str_at :: "var \<Rightarrow> addr \<Rightarrow> addr \<Rightarrow> stmt" where
  "concat_str_at stro str1 str2 =
     reading (get_string str1) (\<lambda>s. reading (get_string str2) (\<lambda>t. seq
       [reading (str_of stro) (\<lambda>p. realloc p (length s + length t + 1) (set_str stro)),
        reading (str_of stro) (\<lambda>p. put_char p 0 nul),
        reading (str_of stro) (\<lambda>p. strcat p str1),
        reading (str_of stro) (\<lambda>p. strcat p str2)]))"

section \<open>Values and invariant\<close>

text \<open>What the variables hold: the values of the objects that are live.\<close>

record store =
  s_ints :: "var \<Rightarrow> int option"
  s_reals :: "var \<Rightarrow> mpq option"
  s_lbits :: "var \<Rightarrow> lbits option"
  s_strings :: "var \<Rightarrow> string option"

definition lbits_at :: "heap \<Rightarrow> var \<Rightarrow> lbits option" where
  "lbits_at h x =
     (case (h_len h x, h_bits h x) of
        (Some n, Some p) \<Rightarrow> map_option (\<lambda>z. \<lparr>l_len = n, l_bits = z\<rparr>) (h_mpz h (Heap p))
      | _ \<Rightarrow> None)"

definition string_at :: "heap \<Rightarrow> var \<Rightarrow> string option" where
  "string_at h x =
     (case h_str h x of
        None \<Rightarrow> None
      | Some p \<Rightarrow> (case get_string p h of Inl e \<Rightarrow> None | Inr s \<Rightarrow> Some s))"

definition store_of :: "heap \<Rightarrow> store" where
  "store_of h = \<lparr>s_ints = (\<lambda>x. h_mpz h (Var x)), s_reals = h_mpq h, s_lbits = lbits_at h, s_strings = string_at h\<rparr>"

text \<open>
  The invariant: pointers, dangling ones included, are below the next address, and no two variables
  share one; a block with a value is live; every live block belongs to a live variable, so
  nothing is lost; the temporaries are initialised and the local variables are not.
\<close>

definition pointers_ok :: "heap \<Rightarrow> bool" where
  "pointers_ok h \<longleftrightarrow>
     (\<forall>x p. h_bits h x = Some p \<longrightarrow> p < h_next h) \<and> (\<forall>x p. h_str h x = Some p \<longrightarrow> p < h_next h) \<and>
     (\<forall>x y p. h_bits h x = Some p \<longrightarrow> h_bits h y = Some p \<longrightarrow> x = y) \<and>
     (\<forall>x y p. h_str h x = Some p \<longrightarrow> h_str h y = Some p \<longrightarrow> x = y) \<and>
     (\<forall>x y p. h_bits h x = Some p \<longrightarrow> h_str h y \<noteq> Some p)"

definition owned_bits :: "heap \<Rightarrow> addr set" where
  "owned_bits h = {p. \<exists>x. h_bits h x = Some p \<and> lbits_at h x \<noteq> None}"

definition owned_str :: "heap \<Rightarrow> addr set" where
  "owned_str h = {p. \<exists>x. h_str h x = Some p \<and> string_at h x \<noteq> None}"

definition blocks_ok :: "heap \<Rightarrow> bool" where
  "blocks_ok h \<longleftrightarrow> h_live h = owned_bits h \<union> owned_str h \<and>
     {p. h_mpz h (Heap p) \<noteq> None} \<subseteq> owned_bits h \<and> {p. h_chars h p \<noteq> None} \<subseteq> owned_str h"

definition temps_ok :: "heap \<Rightarrow> bool" where
  "temps_ok h \<longleftrightarrow> h_mpz h Tmp1 \<noteq> None \<and> h_mpz h Tmp2 \<noteq> None \<and> h_mpz h Tmp3 \<noteq> None \<and>
     h_mpz h Local1 = None \<and> h_mpz h Local2 = None"

definition wf_heap :: "heap \<Rightarrow> bool" where
  "wf_heap h \<longleftrightarrow> pointers_ok h \<and> blocks_ok h \<and> temps_ok h \<and> h_leaks h = 0"

text \<open>A statement does an update of the values, and keeps the invariant.\<close>

definition does :: "stmt \<Rightarrow> heap \<Rightarrow> (store \<Rightarrow> store) \<Rightarrow> bool" where
  "does s h f \<longleftrightarrow> (\<exists>h'. s h = Inr h' \<and> wf_heap h' \<and> store_of h' = f (store_of h))"

lemma store_of_simps [simp]:
  "s_ints (store_of h) x = h_mpz h (Var x)" "s_reals (store_of h) = h_mpq h"
  "s_lbits (store_of h) = lbits_at h" "s_strings (store_of h) = string_at h"
  by (simp_all add: store_of_def)

lemma string_at_cong: "h_chars h' = h_chars h \<Longrightarrow> h_str h' = h_str h \<Longrightarrow> string_at h' = string_at h"
  by (rule ext) (simp add: string_at_def get_string_def get_chars_def cong: option.case_cong)

lemma lbits_at_cong:
  "(\<And>p. h_mpz h' (Heap p) = h_mpz h (Heap p)) \<Longrightarrow> h_len h' = h_len h \<Longrightarrow> h_bits h' = h_bits h \<Longrightarrow> lbits_at h' = lbits_at h"
  by (rule ext) (simp add: lbits_at_def split: option.split)

section \<open>Integers and rationals\<close>

lemmas stmt_defs = lose_def reading_def assertion_def require_def get_mpz_def put_mpz_def init_mpz_def clear_mpz_def mpz1_def mpz2_def
  get_mpq_def put_mpq_def init_mpq_def clear_mpq_def

text \<open>A new value of an integer or rational variable, or none.\<close>

lemma update_int:
  assumes "wf_heap h"
  shows "wf_heap (h\<lparr>h_mpz := (h_mpz h)(Var x := v)\<rparr>)"
    and "store_of (h\<lparr>h_mpz := (h_mpz h)(Var x := v)\<rparr>) = store_of h\<lparr>s_ints := (s_ints (store_of h))(x := v)\<rparr>"
proof -
  have [simp]: "lbits_at (h\<lparr>h_mpz := (h_mpz h)(Var x := v)\<rparr>) = lbits_at h"
      "string_at (h\<lparr>h_mpz := (h_mpz h)(Var x := v)\<rparr>) = string_at h"
    by (rule lbits_at_cong string_at_cong; simp)+
  show "wf_heap (h\<lparr>h_mpz := (h_mpz h)(Var x := v)\<rparr>)"
    using assms by (simp add: wf_heap_def pointers_ok_def blocks_ok_def owned_bits_def owned_str_def temps_ok_def)
  show "store_of (h\<lparr>h_mpz := (h_mpz h)(Var x := v)\<rparr>) = store_of h\<lparr>s_ints := (s_ints (store_of h))(x := v)\<rparr>"
    by (auto simp: store_of_def fun_eq_iff)
qed

lemma update_real:
  assumes "wf_heap h"
  shows "wf_heap (h\<lparr>h_mpq := (h_mpq h)(x := v)\<rparr>)"
    and "store_of (h\<lparr>h_mpq := (h_mpq h)(x := v)\<rparr>) = store_of h\<lparr>s_reals := (s_reals (store_of h))(x := v)\<rparr>"
proof -
  have [simp]: "lbits_at (h\<lparr>h_mpq := (h_mpq h)(x := v)\<rparr>) = lbits_at h"
      "string_at (h\<lparr>h_mpq := (h_mpq h)(x := v)\<rparr>) = string_at h"
    by (rule lbits_at_cong string_at_cong; simp)+
  show "wf_heap (h\<lparr>h_mpq := (h_mpq h)(x := v)\<rparr>)"
    using assms by (simp add: wf_heap_def pointers_ok_def blocks_ok_def owned_bits_def owned_str_def temps_ok_def)
  show "store_of (h\<lparr>h_mpq := (h_mpq h)(x := v)\<rparr>) = store_of h\<lparr>s_reals := (s_reals (store_of h))(x := v)\<rparr>"
    by (simp add: store_of_def)
qed

section \<open>Bitvectors\<close>

lemma lbits_atE:
  assumes "lbits_at h x = Some v"
  obtains p where "h_bits h x = Some p" "h_len h x = Some (l_len v)" "h_mpz h (Heap p) = Some (l_bits v)"
  using assms by (auto simp: lbits_at_def split: option.splits)

lemma lbits_at_Some:
  "h_bits h x = Some p \<Longrightarrow> lbits_at h x = Some v \<longleftrightarrow> h_len h x = Some (l_len v) \<and> h_mpz h (Heap p) = Some (l_bits v)"
  by (cases v) (auto simp: lbits_at_def split: option.splits)

text \<open>
  A new value of a live bitvector: its length and the number behind its pointer. The temporaries may change as well.
\<close>

definition scratch_only :: "(loc \<Rightarrow> int option) \<Rightarrow> (loc \<Rightarrow> int option) \<Rightarrow> bool" where
  "scratch_only m m' \<longleftrightarrow> (\<forall>l. l \<notin> {Tmp1, Tmp2, Tmp3} \<longrightarrow> m' l = m l) \<and> (\<forall>l\<in>{Tmp1, Tmp2, Tmp3}. m' l \<noteq> None)"

lemma update_lbits:
  assumes h: "wf_heap h" "lbits_at h z = Some v0" "h_bits h z = Some p"
    and m: "scratch_only ((h_mpz h)(Heap p \<mapsto> l_bits v)) m"
    and h': "h' = h\<lparr>h_mpz := m, h_len := (h_len h)(z \<mapsto> l_len v)\<rparr>"
  shows "wf_heap h' \<and> store_of h' = store_of h\<lparr>s_lbits := (s_lbits (store_of h))(z \<mapsto> v)\<rparr>"
proof -
  have m': "m (Heap q) = (if q = p then Some (l_bits v) else h_mpz h (Heap q))" "m (Var x) = h_mpz h (Var x)"
      "m Local1 = h_mpz h Local1" "m Local2 = h_mpz h Local2" "m Tmp1 \<noteq> None" "m Tmp2 \<noteq> None" "m Tmp3 \<noteq> None" for q x
    using m by (auto simp: scratch_only_def)
  have inj: "h_bits h x = Some p \<Longrightarrow> x = z" for x
    using h(1,3) by (auto simp: wf_heap_def pointers_ok_def)
  have at: "lbits_at h' = (lbits_at h)(z \<mapsto> v)"
  proof
    fix x
    show "lbits_at h' x = ((lbits_at h)(z \<mapsto> v)) x"
    proof (cases "x = z")
      case False
      then have "h_bits h x \<noteq> Some p" using inj by blast
      then show ?thesis using False m'(1) by (simp add: h' lbits_at_def split: option.split)
    qed (simp add: h' h(3) m'(1) lbits_at_def)
  qed
  have str: "string_at h' = string_at h"
    by (rule string_at_cong) (simp_all add: h')
  have "owned_bits h' = owned_bits h" "owned_str h' = owned_str h" "p \<in> owned_bits h"
    using h(2,3) by (auto simp: owned_bits_def owned_str_def at str) (auto simp: h', (metis option.inject option.distinct(1))+)
  then have "blocks_ok h'"
    using h(1) m'(1) by (auto simp: wf_heap_def blocks_ok_def h')
  then have "wf_heap h'"
    using h(1) m' by (simp add: wf_heap_def pointers_ok_def temps_ok_def h')
  with at str m'(2) show ?thesis by (simp add: store_of_def h' fun_eq_iff)
qed

lemma alloc_lbits:
  assumes h: "wf_heap h" "lbits_at h z = None"
    and h': "h' = h\<lparr>h_mpz := (h_mpz h)(Heap (h_next h) \<mapsto> l_bits v), h_len := (h_len h)(z \<mapsto> l_len v),
      h_bits := (h_bits h)(z \<mapsto> h_next h), h_live := insert (h_next h) (h_live h), h_next := Suc (h_next h)\<rparr>"
  shows "wf_heap h' \<and> store_of h' = store_of h\<lparr>s_lbits := (s_lbits (store_of h))(z \<mapsto> v)\<rparr>"
proof -
  have po: "pointers_ok h" "blocks_ok h" using h(1) by (simp_all add: wf_heap_def)
  have str: "string_at h' = string_at h" by (rule string_at_cong) (simp_all add: h')
  have at: "lbits_at h' = (lbits_at h)(z \<mapsto> v)"
  proof
    fix x
    show "lbits_at h' x = ((lbits_at h)(z \<mapsto> v)) x"
    proof (cases "x = z")
      case False
      have "h_bits h x \<noteq> Some (h_next h)" using po(1) by (auto simp: pointers_ok_def)
      then show ?thesis using False by (simp add: h' lbits_at_def split: option.split)
    qed (simp add: h' lbits_at_def)
  qed
  have "owned_bits h' = insert (h_next h) (owned_bits h)" "owned_str h' = owned_str h"
    using h(2) by (auto simp: owned_bits_def owned_str_def at str) (auto simp: h', (metis option.inject option.distinct(1))+)
  moreover have "{q. h_mpz h' (Heap q) \<noteq> None} = insert (h_next h) {q. h_mpz h (Heap q) \<noteq> None}" by (auto simp: h')
  ultimately have "blocks_ok h'" using po(2) unfolding blocks_ok_def by (auto simp: h')
  moreover have "pointers_ok h'"
    using po(1) by (auto simp: pointers_ok_def h' less_Suc_eq)
  ultimately have "wf_heap h'"
    using h(1) by (simp add: wf_heap_def temps_ok_def h')
  with at str show ?thesis by (simp add: store_of_def h' fun_eq_iff)
qed

lemma free_lbits:
  assumes h: "wf_heap h" "lbits_at h z \<noteq> None" "h_bits h z = Some p"
    and h': "h' = h\<lparr>h_mpz := (h_mpz h)(Heap p := None), h_chars := (h_chars h)(p := None), h_live := h_live h - {p}\<rparr>"
  shows "wf_heap h' \<and> store_of h' = store_of h\<lparr>s_lbits := (s_lbits (store_of h))(z := None)\<rparr>"
proof -
  have po: "pointers_ok h" "blocks_ok h" using h(1) by (simp_all add: wf_heap_def)
  have "p \<notin> owned_str h" using po(1) h(3) by (auto simp: pointers_ok_def owned_str_def)
  then have "h_chars h p = None" using po(2) by (auto simp: blocks_ok_def)
  then have [simp]: "(h_chars h)(p := None) = h_chars h" by auto
  have str: "string_at h' = string_at h" by (rule string_at_cong) (simp_all add: h')
  have other: "h_bits h x \<noteq> Some p" if "x \<noteq> z" for x
    using po(1) h(3) that by (auto simp: pointers_ok_def)
  have at: "lbits_at h' = (lbits_at h)(z := None)"
  proof
    fix x
    show "lbits_at h' x = ((lbits_at h)(z := None)) x"
    proof (cases "x = z")
      case False
      with other show ?thesis by (simp add: h' lbits_at_def split: option.split)
    qed (simp add: h' h(3) lbits_at_def split: option.split)
  qed
  have "owned_bits h' = owned_bits h - {p}" "owned_str h' = owned_str h"
    using h(2,3) other by (auto simp: owned_bits_def owned_str_def at str) (auto simp: h', (metis option.inject option.distinct(1))+)
  with \<open>p \<notin> owned_str h\<close> have "blocks_ok h'" using po(2) unfolding blocks_ok_def by (auto simp: h')
  moreover have "pointers_ok h'" using po(1) by (simp add: pointers_ok_def h')
  ultimately have "wf_heap h'"
    using h(1) by (simp add: wf_heap_def temps_ok_def h')
  with at str show ?thesis by (simp add: store_of_def h' fun_eq_iff)
qed

section \<open>Strings\<close>

lemma chars_text_Some: "nul \<notin> set s \<Longrightarrow> chars_text (map Some s @ Some nul # cs) = Inr s"
  by (induction s) auto

lemma chars_text_Inr:
  "chars_text cs = Inr s \<Longrightarrow> nul \<notin> set s"
  by (induction cs arbitrary: s rule: chars_text.induct) (auto simp: bind_res_Inr_iff split: if_splits)

lemma string_atE:
  assumes "string_at h x = Some s"
  obtains p cs where "h_str h x = Some p" "h_chars h p = Some cs" "chars_text cs = Inr s" "nul \<notin> set s"
  using assms chars_text_Inr
  by (fastforce simp: string_at_def get_string_def get_chars_def of_option_def bind_res_Inr_iff split: option.splits sum.splits)

text \<open>A string variable gets a new block, and its old one is freed when it is live.\<close>

lemma new_string:
  assumes h: "wf_heap h" "nul \<notin> set s" "D = (if string_at h z = None then {} else {p. h_str h z = Some p})"
    and c: "c (h_next h) = Some (map Some s @ Some nul # cs)" "\<And>q. q \<noteq> h_next h \<Longrightarrow> c q = (if q \<in> D then None else h_chars h q)"
    and h': "h' = h\<lparr>h_chars := c, h_str := (h_str h)(z \<mapsto> h_next h),
      h_live := insert (h_next h) (h_live h - D), h_next := Suc (h_next h)\<rparr>"
  shows "wf_heap h' \<and> store_of h' = store_of h\<lparr>s_strings := (s_strings (store_of h))(z \<mapsto> s)\<rparr>"
proof -
  have po: "pointers_ok h" "blocks_ok h" using h(1) by (simp_all add: wf_heap_def)
  have at: "lbits_at h' = lbits_at h" by (rule lbits_at_cong) (simp_all add: h')
  have other: "h_str h x \<noteq> Some (h_next h)" "h_str h x = Some q \<Longrightarrow> x \<noteq> z \<Longrightarrow> q \<notin> D" for x q
    using po(1) h(3) by (auto simp: pointers_ok_def split: if_splits)
  have str: "string_at h' = (string_at h)(z \<mapsto> s)"
  proof
    fix x
    show "string_at h' x = ((string_at h)(z \<mapsto> s)) x"
    proof (cases "x = z")
      case True
      then show ?thesis using c(1) chars_text_Some [OF h(2), of cs] by (simp add: h' string_at_def get_string_def get_chars_def)
    next
      case False
      have "get_chars q h' = get_chars q h" if "h_str h x = Some q" for q
        using other(1) [of x] other(2) [OF that False] that c(2) by (auto simp: h' get_chars_def)
      then show ?thesis using False by (simp add: h' string_at_def get_string_def split: option.split)
    qed
  qed
  have "owned_bits h' = owned_bits h" by (simp add: owned_bits_def at) (simp add: h')
  moreover have "owned_str h' = insert (h_next h) (owned_str h - D)"
    using h(3) other by (auto simp: owned_str_def str split: if_splits) (auto simp: h', (metis option.inject option.distinct(1))+)
  moreover have "D \<inter> owned_bits h = {}"
    using po(1) h(3) by (auto simp: pointers_ok_def owned_bits_def split: if_splits)
  moreover have cq: "q = h_next h \<or> (\<exists>y. h_chars h q = Some y) \<and> q \<notin> D" if "c q = Some y" for q y
    using c(2) [of q] that by (cases "q = h_next h") (auto split: if_splits dest: sym)
  ultimately have "blocks_ok h'" using po(2) unfolding blocks_ok_def by (auto simp: h' dest: cq)
  moreover have "pointers_ok h'" using po(1) by (auto simp: pointers_ok_def h' less_Suc_eq)
  ultimately have "wf_heap h'"
    using h(1) by (simp add: wf_heap_def temps_ok_def h')
  with at str show ?thesis by (simp add: store_of_def h' fun_eq_iff)
qed

text \<open>A string variable loses its block.\<close>

lemma free_string:
  assumes h: "wf_heap h" "string_at h z \<noteq> None" "h_str h z = Some p"
    and h': "h' = h\<lparr>h_mpz := (h_mpz h)(Heap p := None), h_chars := (h_chars h)(p := None), h_live := h_live h - {p}\<rparr>"
  shows "wf_heap h' \<and> h_mpz h (Heap p) = None \<and> p \<in> h_live h \<and>
    store_of h' = store_of h\<lparr>s_strings := (s_strings (store_of h))(z := None)\<rparr>"
proof -
  have po: "pointers_ok h" "blocks_ok h" using h(1) by (simp_all add: wf_heap_def)
  have o: "p \<notin> owned_bits h" "p \<in> owned_str h"
    using po(1) h by (auto simp: pointers_ok_def owned_bits_def owned_str_def)
  then have z: "h_mpz h (Heap p) = None" "p \<in> h_live h" using po(2) by (auto simp: blocks_ok_def)
  then have [simp]: "(h_mpz h)(Heap p := None) = h_mpz h" by auto
  have at: "lbits_at h' = lbits_at h" by (rule lbits_at_cong) (simp_all add: h')
  have other: "h_str h x \<noteq> Some p" if "x \<noteq> z" for x
    using po(1) h(3) that by (auto simp: pointers_ok_def)
  have str: "string_at h' = (string_at h)(z := None)"
  proof
    fix x
    show "string_at h' x = ((string_at h)(z := None)) x"
    proof (cases "x = z")
      case False
      with other have "get_string q h' = get_string q h" if "h_str h x = Some q" for q
        using that by (auto simp: h' get_string_def get_chars_def)
      then show ?thesis using False by (simp add: h' string_at_def split: option.split)
    qed (simp add: h' h(3) string_at_def get_string_def get_chars_def)
  qed
  have "owned_bits h' = owned_bits h" by (simp add: owned_bits_def at) (simp add: h')
  moreover have "owned_str h' = owned_str h - {p}"
    using h(2,3) other by (auto simp: owned_str_def str) (auto simp: h', (metis option.inject option.distinct(1))+)
  ultimately have "blocks_ok h'" using po(2) o unfolding blocks_ok_def by (auto simp: h')
  moreover have "pointers_ok h'" using po(1) by (simp add: pointers_ok_def h')
  ultimately have "wf_heap h'"
    using h(1) by (simp add: wf_heap_def temps_ok_def h')
  with at str z show ?thesis by (simp add: store_of_def h' fun_eq_iff)
qed

section \<open>The interface of a builtin type\<close>

text \<open>
  What the generated code relies on (\<open>SAIL_BUILTIN_TYPE\<close>): a variable is created before it is used,
  holding a default value; it is reset, or overwritten with the value of another one, which
  keeps its own; it is killed once; and a variable that is not live must not be used.
\<close>

locale builtin_type =
  fixes create recreate kill :: "var \<Rightarrow> stmt" and copy :: "var \<Rightarrow> var \<Rightarrow> stmt"
    and get :: "store \<Rightarrow> var \<Rightarrow> 'v option" and put :: "var \<Rightarrow> 'v option \<Rightarrow> store \<Rightarrow> store"
    and initial :: 'v and copies :: "var \<Rightarrow> var \<Rightarrow> bool"
  assumes get_put: "get (put x a s) = (get s)(x := a)"
    and put_put: "put x a (put x b s) = put x a s"
    and put_get: "put x (get s x) s = s"
    and put_swap: "x \<noteq> y \<Longrightarrow> put x a (put y b s) = put y b (put x a s)"
    and create_does: "wf_heap h \<Longrightarrow> get (store_of h) x = None \<Longrightarrow> does (create x) h (put x (Some initial))"
    and recreate_does: "wf_heap h \<Longrightarrow> get (store_of h) x = Some v \<Longrightarrow> does (recreate x) h (put x (Some initial))"
    and copy_does: "wf_heap h \<Longrightarrow> get (store_of h) x = Some v \<Longrightarrow> get (store_of h) y = Some w \<Longrightarrow> copies x y \<Longrightarrow>
      does (copy x y) h (put x (Some w))"
    and kill_does: "wf_heap h \<Longrightarrow> get (store_of h) x = Some v \<Longrightarrow> does (kill x) h (put x None)"
    and recreate_dead: "wf_heap h \<Longrightarrow> get (store_of h) x = None \<Longrightarrow> recreate x h = Inl Undefined_behaviour"
    and kill_dead: "wf_heap h \<Longrightarrow> get (store_of h) x = None \<Longrightarrow> kill x h = Inl Undefined_behaviour"
    and copy_dead: "wf_heap h \<Longrightarrow> get (store_of h) y = None \<or> get (store_of h) x = None \<Longrightarrow> copy x y h = Inl Undefined_behaviour"

lemma doesI: "s h = Inr h' \<Longrightarrow> wf_heap h' \<and> store_of h' = f (store_of h) \<Longrightarrow> does s h f"
  by (auto simp: does_def)

subsection \<open>Integers and rationals\<close>

lemmas int_defs = create_sail_int_at_def recreate_sail_int_at_def copy_sail_int_at_def kill_sail_int_def
lemmas real_defs = create_real_at_def recreate_real_at_def copy_real_at_def kill_real_def

sublocale gmp_laws \<subseteq> ints: builtin_type "create_sail_int_at G" "recreate_sail_int_at G" kill_sail_int "copy_sail_int_at G"
  s_ints "\<lambda>x v s. s\<lparr>s_ints := (s_ints s)(x := v)\<rparr>" "0 :: int" "\<lambda>x y. True"
  by unfold_locales
    (auto simp: does_def int_defs stmt_defs update_int of_option_def check_def fun_upd_twist split: option.splits)

interpretation reals: builtin_type create_real_at recreate_real_at kill_real copy_real_at
  s_reals "\<lambda>x v s. s\<lparr>s_reals := (s_reals s)(x := v)\<rparr>" "mpq_of 0 1" "\<lambda>x y. True"
  by unfold_locales
    (auto simp: does_def real_defs stmt_defs update_real of_option_def check_def fun_upd_twist split: option.splits)

subsection \<open>Bitvectors\<close>

lemma dead_bits:
  assumes "wf_heap h" "lbits_at h x = None" "h_bits h x = Some p"
  shows "h_mpz h (Heap p) = None"
proof (rule ccontr)
  assume "h_mpz h (Heap p) \<noteq> None"
  then obtain y where "h_bits h y = Some p" "lbits_at h y \<noteq> None"
    using assms(1) unfolding wf_heap_def blocks_ok_def owned_bits_def by blast
  moreover from this(1) have "y = x" using assms(1,3) by (auto simp: wf_heap_def pointers_ok_def)
  ultimately show False using assms(2) by simp
qed

lemma live_bits:
  assumes "wf_heap h" "lbits_at h x = Some v" "h_bits h x = Some p"
  shows "p \<in> h_live h" "h_len h x = Some (l_len v)" "h_mpz h (Heap p) = Some (l_bits v)"
  using assms by (auto simp: wf_heap_def blocks_ok_def owned_bits_def elim: lbits_atE)

lemma fresh_mpz: "wf_heap h \<Longrightarrow> h_mpz h (Heap (h_next h)) = None"
  unfolding wf_heap_def blocks_ok_def owned_bits_def pointers_ok_def by blast

lemmas field_defs = set_len_def set_bits_def len_of_def bits_of_def on_bits_def pass_def malloc_def free_block_def
lemmas lbits_defs = create_lbits_at_def recreate_lbits_at_def copy_lbits_at_def kill_lbits_def field_defs

lemma scratch_onlyI: "temps_ok h \<Longrightarrow> scratch_only ((h_mpz h)(Heap p \<mapsto> v)) ((h_mpz h)(Heap p \<mapsto> v))"
  by (auto simp: scratch_only_def temps_ok_def)

context gmp_laws
begin

lemma create_lbits_does:
  assumes "wf_heap h" "lbits_at h x = None"
  shows "does (create_lbits_at G x) h (\<lambda>s. s\<lparr>s_lbits := (s_lbits s)(x \<mapsto> \<lparr>l_len = 0, l_bits = 0\<rparr>)\<rparr>)"
  using alloc_lbits [OF assms refl, of "\<lparr>l_len = 0, l_bits = 0\<rparr>"] fresh_mpz [OF assms(1)]
  by (intro doesI) (auto simp: lbits_defs stmt_defs)

text \<open>The two fields of a live bitvector are overwritten.\<close>

lemma assign_lbits:
  assumes "wf_heap h" "lbits_at h x = Some v" "h_bits h x = Some p"
  shows "wf_heap (h\<lparr>h_len := (h_len h)(x \<mapsto> n), h_mpz := (h_mpz h)(Heap p \<mapsto> z)\<rparr>) \<and>
    store_of (h\<lparr>h_len := (h_len h)(x \<mapsto> n), h_mpz := (h_mpz h)(Heap p \<mapsto> z)\<rparr>) =
      store_of h\<lparr>s_lbits := (s_lbits (store_of h))(x \<mapsto> \<lparr>l_len = n, l_bits = z\<rparr>)\<rparr>"
  by (rule update_lbits [OF assms, where v = "\<lparr>l_len = n, l_bits = z\<rparr>" and m = "(h_mpz h)(Heap p \<mapsto> z)"])
    (use assms(1) in \<open>simp_all add: scratch_onlyI wf_heap_def\<close>)

lemma recreate_lbits_does:
  assumes "wf_heap h" "lbits_at h x = Some v"
  shows "does (recreate_lbits_at G x) h (\<lambda>s. s\<lparr>s_lbits := (s_lbits s)(x \<mapsto> \<lparr>l_len = 0, l_bits = 0\<rparr>)\<rparr>)"
proof -
  obtain p where p: "h_bits h x = Some p" using assms(2) by (rule lbits_atE)
  show ?thesis
    using assign_lbits [OF assms p, where n = 0 and z = 0] live_bits [OF assms p] p
    by (intro doesI) (auto simp: lbits_defs stmt_defs)
qed

lemma copy_lbits_does:
  assumes "wf_heap h" "lbits_at h x = Some v" "lbits_at h y = Some w"
  shows "does (reading (pass y) (copy_lbits_at G x)) h (\<lambda>s. s\<lparr>s_lbits := (s_lbits s)(x \<mapsto> w)\<rparr>)"
proof -
  obtain p where p: "h_bits h x = Some p" using assms(2) by (rule lbits_atE)
  obtain q where q: "h_bits h y = Some q" using assms(3) by (rule lbits_atE)
  show ?thesis
    using assign_lbits [OF assms(1,2) p, where n = "l_len w" and z = "l_bits w"] live_bits [OF assms(1,2) p]
      live_bits [OF assms(1,3) q] p q
    by (cases w) (auto simp: does_def lbits_defs stmt_defs)
qed

lemma lbits_dead:
  assumes "wf_heap h" "lbits_at h x = None"
  shows "recreate_lbits_at G x h = Inl Undefined_behaviour" "kill_lbits x h = Inl Undefined_behaviour"
    "reading (pass x) (copy_lbits_at G y) h = Inl Undefined_behaviour"
    "reading (pass y) (copy_lbits_at G x) h = Inl Undefined_behaviour"
  using dead_bits [OF assms]
  by (cases "h_bits h x"; cases "h_len h x"; cases "h_bits h y"; cases "h_len h y";
    auto simp: lbits_defs stmt_defs of_option_def bind_res_def split: option.splits)+

end

lemma kill_lbits_does:
  assumes "wf_heap h" "lbits_at h x = Some v"
  shows "does (kill_lbits x) h (\<lambda>s. s\<lparr>s_lbits := (s_lbits s)(x := None)\<rparr>)"
proof -
  obtain p where p: "h_bits h x = Some p" using assms(2) by (rule lbits_atE)
  show ?thesis
    using free_lbits [OF assms(1) _ p refl] live_bits [OF assms p] p assms(2)
    by (intro doesI) (auto simp: lbits_defs stmt_defs)
qed

sublocale gmp_laws \<subseteq> bitvectors: builtin_type "create_lbits_at G" "recreate_lbits_at G" kill_lbits
  "\<lambda>x y. reading (pass y) (copy_lbits_at G x)" s_lbits "\<lambda>x v s. s\<lparr>s_lbits := (s_lbits s)(x := v)\<rparr>"
  "\<lparr>l_len = 0, l_bits = 0\<rparr>" "\<lambda>x y. True"
  by unfold_locales
    (auto simp: create_lbits_does recreate_lbits_does copy_lbits_does kill_lbits_does lbits_dead fun_upd_twist)

subsection \<open>Strings\<close>

lemma dead_string:
  assumes "wf_heap h" "string_at h x = None" "h_str h x = Some p"
  shows "p \<notin> h_live h" "h_chars h p = None"
proof -
  have "y = x" if "h_str h y = Some p" for y using assms(1,3) that by (auto simp: wf_heap_def pointers_ok_def)
  moreover have "h_bits h y \<noteq> Some p" for y using assms(1,3) by (auto simp: wf_heap_def pointers_ok_def)
  ultimately have "p \<notin> owned_bits h \<union> owned_str h"
    using assms(2) by (auto simp: owned_bits_def owned_str_def)
  then show "p \<notin> h_live h" "h_chars h p = None"
    using assms(1) by (auto simp: wf_heap_def blocks_ok_def)
qed

lemmas string_defs = create_sail_string_at_def recreate_sail_string_at_def kill_sail_string_def copy_sail_string_at_def
  set_str_def str_of_def malloc_def malloc_chars_def free_block_def put_char_def get_chars_def realloc_def strcpy_def
  put_string_def get_string_def

lemma create_string_does:
  assumes "wf_heap h" "string_at h x = None"
  shows "does (create_sail_string_at x) h (\<lambda>s. s\<lparr>s_strings := (s_strings s)(x \<mapsto> [])\<rparr>)"
proof (rule doesI)
  let ?h' = "h\<lparr>h_chars := (h_chars h)(h_next h \<mapsto> [Some nul]), h_str := (h_str h)(x \<mapsto> h_next h),
    h_live := insert (h_next h) (h_live h), h_next := Suc (h_next h)\<rparr>"
  show "create_sail_string_at x h = Inr ?h'"
    by (simp add: string_defs stmt_defs)
  show "wf_heap ?h' \<and> store_of ?h' = store_of h\<lparr>s_strings := (s_strings (store_of h))(x \<mapsto> [])\<rparr>"
    by (rule new_string [where D = "{}" and cs = "[]"]) (use assms in simp_all)
qed

text \<open>A live string variable: its block, and what remains of the heap when the block is freed.\<close>

lemma live_string:
  assumes "wf_heap h" "string_at h x = Some s"
  obtains p cs where "h_str h x = Some p" "h_chars h p = Some cs" "chars_text cs = Inr s" "nul \<notin> set s"
    "h_mpz h (Heap p) = None" "p \<in> h_live h" "p < h_next h"
proof -
  obtain p cs where p: "h_str h x = Some p" "h_chars h p = Some cs" "chars_text cs = Inr s" "nul \<notin> set s"
    using assms(2) by (rule string_atE)
  have "wf_heap h \<and> h_mpz h (Heap p) = None \<and> p \<in> h_live h"
    using free_string [OF assms(1) _ p(1) refl] assms by simp
  moreover have "p < h_next h" using assms(1) p(1) by (auto simp: wf_heap_def pointers_ok_def)
  ultimately show ?thesis using that p by blast
qed

lemma recreate_string_does:
  assumes "wf_heap h" "string_at h x = Some s"
  shows "does (recreate_sail_string_at x) h (\<lambda>s. s\<lparr>s_strings := (s_strings s)(x \<mapsto> [])\<rparr>)"
proof -
  obtain p where p: "h_str h x = Some p" "h_mpz h (Heap p) = None" "p \<in> h_live h" "p < h_next h"
    using live_string [OF assms] by blast
  have [simp]: "(h_mpz h)(Heap p := None) = h_mpz h" using p by auto
  let ?h' = "h\<lparr>h_chars := (h_chars h)(p := None, h_next h \<mapsto> [Some nul]), h_str := (h_str h)(x \<mapsto> h_next h),
    h_live := insert (h_next h) (h_live h - {p}), h_next := Suc (h_next h)\<rparr>"
  show ?thesis
  proof (rule doesI)
    show "recreate_sail_string_at x h = Inr ?h'"
      using p by (simp add: string_defs stmt_defs)
    show "wf_heap ?h' \<and> store_of ?h' = store_of h\<lparr>s_strings := (s_strings (store_of h))(x \<mapsto> [])\<rparr>"
      by (rule new_string [where D = "{p}" and cs = "[]"]) (use assms p in auto)
  qed
qed

lemma copy_string_does:
  assumes "wf_heap h" "string_at h x = Some v" "string_at h y = Some w" "x \<noteq> y"
  shows "does (reading (str_of y) (copy_sail_string_at x)) h (\<lambda>s. s\<lparr>s_strings := (s_strings s)(x \<mapsto> w)\<rparr>)"
proof -
  obtain p cs where p: "h_str h x = Some p" "h_chars h p = Some cs" "h_mpz h (Heap p) = None" "p \<in> h_live h" "p < h_next h"
    using live_string [OF assms(1,2)] by blast
  obtain q ds where q: "h_str h y = Some q" "h_chars h q = Some ds" "chars_text ds = Inr w" "nul \<notin> set w" "q < h_next h"
    using live_string [OF assms(1,3)] by blast
  have "p \<noteq> q" using assms(1,4) p(1) q(1) by (auto simp: wf_heap_def pointers_ok_def)
  have [simp]: "(h_mpz h)(Heap p := None) = h_mpz h" using p by auto
  let ?h' = "h\<lparr>h_chars := (h_chars h)(p := None, h_next h \<mapsto> map Some w @ [Some nul]), h_str := (h_str h)(x \<mapsto> h_next h),
    h_live := insert (h_next h) (h_live h - {p}), h_next := Suc (h_next h)\<rparr>"
  show ?thesis
  proof (rule doesI)
    have "length (take (Suc (length w)) cs @ replicate (Suc (length w) - length cs) None) = Suc (length w)" by simp
    then show "reading (str_of y) (copy_sail_string_at x) h = Inr ?h'"
      using p q \<open>p \<noteq> q\<close> by (simp add: string_defs stmt_defs Let_def fun_upd_twist insert_Diff_if)
    show "wf_heap ?h' \<and> store_of ?h' = store_of h\<lparr>s_strings := (s_strings (store_of h))(x \<mapsto> w)\<rparr>"
      by (rule new_string [where D = "{p}" and cs = "[]"]) (use assms p q in auto)
  qed
qed

lemma kill_string_does:
  assumes "wf_heap h" "string_at h x = Some s"
  shows "does (kill_sail_string x) h (\<lambda>s. s\<lparr>s_strings := (s_strings s)(x := None)\<rparr>)"
proof -
  obtain p where p: "h_str h x = Some p" using live_string [OF assms] by blast
  show ?thesis
    using free_string [OF assms(1) _ p refl] p assms(2)
    by (intro doesI) (auto simp: string_defs stmt_defs)
qed

lemma string_dead:
  assumes "wf_heap h" "string_at h x = None"
  shows "recreate_sail_string_at x h = Inl Undefined_behaviour" "kill_sail_string x h = Inl Undefined_behaviour"
    "reading (str_of x) (copy_sail_string_at y) h = Inl Undefined_behaviour"
  using dead_string [OF assms] by (cases "h_str h x"; simp add: string_defs stmt_defs)+

lemma copy_string_dead:
  assumes "wf_heap h" "string_at h x = None"
  shows "reading (str_of y) (copy_sail_string_at x) h = Inl Undefined_behaviour"
proof (cases "h_str h y")
  case (Some q)
  show ?thesis
  proof (cases "get_string q h")
    case (Inr s)
    then show ?thesis using Some dead_string [OF assms]
      by (cases "h_str h x") (simp_all add: string_defs stmt_defs Let_def)
  next
    case (Inl e)
    moreover have "e = Undefined_behaviour" if "chars_text cs = Inl e" for cs e
      using that by (induction cs arbitrary: e rule: chars_text.induct) (auto simp: bind_res_def split: sum.splits if_splits)
    ultimately show ?thesis using Some
      by (cases "h_chars h q") (auto simp: string_defs stmt_defs)
  qed
qed (simp add: string_defs stmt_defs)

text \<open>The copy of a string onto itself reads the block that \<open>realloc\<close> has freed.\<close>

lemma self_copy:
  assumes "wf_heap h" "string_at h x = Some s"
  shows "reading (str_of x) (copy_sail_string_at x) h = Inl Undefined_behaviour"
proof -
  obtain p cs where p: "h_str h x = Some p" "h_chars h p = Some cs" "chars_text cs = Inr s" "h_mpz h (Heap p) = None" "p \<in> h_live h" "p < h_next h"
    using live_string [OF assms] by blast
  then show ?thesis by (simp add: string_defs stmt_defs Let_def)
qed

interpretation strings: builtin_type create_sail_string_at recreate_sail_string_at kill_sail_string
  "\<lambda>x y. reading (str_of y) (copy_sail_string_at x)" s_strings "\<lambda>x v s. s\<lparr>s_strings := (s_strings s)(x := v)\<rparr>"
  "[]" "\<lambda>x y. x \<noteq> y"
  by unfold_locales
    (auto simp: create_string_does recreate_string_does copy_string_does kill_string_does string_dead copy_string_dead fun_upd_twist)

end
