(* ===== verification/Sail_Alias.thy ===== *)
theory Sail_Alias
  imports Sail_Store
begin

text \<open>
  The bitvector functions of \<open>lib/sail.c\<close> on the heap of \<open>Sail_Store\<close>, statement by statement:
  \<open>rop\<close> is a pointer to the variable of the result, and an operand of type \<open>lbits\<close> is the length and
  the pointer its variable held at the call. The value theories assume that the result is a
  different variable from the operands; here it may be the same one. The lemmas show for which
  functions that makes no difference, and what the others compute then. An operand of type
  \<open>sail_int\<close> is read only and never the number of a bitvector; its value is passed.
\<close>

section \<open>The functions\<close>

definition set_to :: "gmp \<Rightarrow> var \<Rightarrow> loc \<Rightarrow> stmt" where
  "set_to G rop a = on_bits rop (\<lambda>p. mpz1 (mpz_set G) p a)"

definition normalize_lbits_at :: "gmp \<Rightarrow> var \<Rightarrow> stmt" where
  "normalize_lbits_at G rop = seq
     [put_mpz Tmp1 (mpz_set_ui G 1),
      reading (len_of rop) (\<lambda>n. mpz1 (\<lambda>t. mpz_mul_2exp G t n) Tmp1 Tmp1),
      mpz1 (\<lambda>t. mpz_sub_ui G t 1) Tmp1 Tmp1,
      on_bits rop (\<lambda>p. mpz2 (mpz_and G) p p Tmp1)]"

definition append_64_at :: "gmp \<Rightarrow> var \<Rightarrow> lbits_arg \<Rightarrow> fbits \<Rightarrow> stmt" where
  "append_64_at G rop op chunk = seq
     [reading (len_of rop) (\<lambda>n. set_len rop (n + 64)),
      on_bits rop (\<lambda>p. mpz1 (\<lambda>z. mpz_mul_2exp G z 64) p (a_bits op)),
      on_bits rop (\<lambda>p. mpz1 (\<lambda>z. mpz_add_ui G z chunk) p p)]"

definition add_bits_at :: "gmp \<Rightarrow> var \<Rightarrow> lbits_arg \<Rightarrow> lbits_arg \<Rightarrow> stmt" where
  "add_bits_at G rop op1 op2 = seq
     [set_len rop (a_len op1),
      on_bits rop (\<lambda>p. mpz2 (mpz_add G) p (a_bits op1) (a_bits op2)),
      normalize_lbits_at G rop]"

definition sub_bits_at :: "gmp \<Rightarrow> var \<Rightarrow> lbits_arg \<Rightarrow> lbits_arg \<Rightarrow> stmt" where
  "sub_bits_at G rop op1 op2 = seq
     [assertion (a_len op1 = a_len op2),
      set_len rop (a_len op1),
      on_bits rop (\<lambda>p. mpz2 (mpz_sub G) p (a_bits op1) (a_bits op2)),
      normalize_lbits_at G rop]"

definition add_bits_int_at :: "gmp \<Rightarrow> var \<Rightarrow> lbits_arg \<Rightarrow> int \<Rightarrow> stmt" where
  "add_bits_int_at G rop op1 op2 = seq
     [set_len rop (a_len op1),
      on_bits rop (\<lambda>p. mpz1 (\<lambda>z. mpz_add G z op2) p (a_bits op1)),
      normalize_lbits_at G rop]"

definition sub_bits_int_at :: "gmp \<Rightarrow> var \<Rightarrow> lbits_arg \<Rightarrow> int \<Rightarrow> stmt" where
  "sub_bits_int_at G rop op1 op2 = seq
     [set_len rop (a_len op1),
      on_bits rop (\<lambda>p. mpz1 (\<lambda>z. mpz_sub G z op2) p (a_bits op1)),
      normalize_lbits_at G rop]"

definition and_bits_at :: "gmp \<Rightarrow> var \<Rightarrow> lbits_arg \<Rightarrow> lbits_arg \<Rightarrow> stmt" where
  "and_bits_at G rop op1 op2 = seq
     [assertion (a_len op1 = a_len op2),
      set_len rop (a_len op1),
      on_bits rop (\<lambda>p. mpz2 (mpz_and G) p (a_bits op1) (a_bits op2))]"

definition or_bits_at :: "gmp \<Rightarrow> var \<Rightarrow> lbits_arg \<Rightarrow> lbits_arg \<Rightarrow> stmt" where
  "or_bits_at G rop op1 op2 = seq
     [assertion (a_len op1 = a_len op2),
      set_len rop (a_len op1),
      on_bits rop (\<lambda>p. mpz2 (mpz_ior G) p (a_bits op1) (a_bits op2))]"

definition xor_bits_at :: "gmp \<Rightarrow> var \<Rightarrow> lbits_arg \<Rightarrow> lbits_arg \<Rightarrow> stmt" where
  "xor_bits_at G rop op1 op2 = seq
     [assertion (a_len op1 = a_len op2),
      set_len rop (a_len op1),
      on_bits rop (\<lambda>p. mpz2 (mpz_xor G) p (a_bits op1) (a_bits op2))]"

definition not_bits_at :: "gmp \<Rightarrow> var \<Rightarrow> lbits_arg \<Rightarrow> stmt" where
  "not_bits_at G rop op = seq
     [set_len rop (a_len op),
      set_to G rop (a_bits op),
      for_up_res 0 (unat (a_len op)) (\<lambda>i. on_bits rop (\<lambda>p. mpz1 (\<lambda>z. mpz_combit G z (of_nat i)) p p))]"

text \<open>\<open>sail_signed\<close> uses the first temporary, and \<open>mults_vec\<close> calls it on two local integers.\<close>

definition sail_signed_at :: "gmp \<Rightarrow> loc \<Rightarrow> lbits_arg \<Rightarrow> stmt" where
  "sail_signed_at G rop op =
     (if a_len op = 0 then put_mpz rop (mpz_set_ui G 0)
      else let sign_bit = a_len op - 1
           in seq
             [mpz1 (mpz_set G) rop (a_bits op),
              reading (get_mpz (a_bits op)) (\<lambda>z.
                if mpz_tstbit G z sign_bit
                then seq
                  [put_mpz Tmp1 (mpz_set_ui G 1),
                   mpz1 (\<lambda>t. mpz_mul_2exp G t sign_bit) Tmp1 Tmp1,
                   mpz1 (\<lambda>z. mpz_combit G z sign_bit) rop rop,
                   mpz2 (mpz_sub G) rop rop Tmp1]
                else seq [])])"

definition mults_vec_at :: "gmp \<Rightarrow> var \<Rightarrow> lbits_arg \<Rightarrow> lbits_arg \<Rightarrow> stmt" where
  "mults_vec_at G rop op1 op2 = seq
     [init_mpz Local1 (mpz_init G),
      init_mpz Local2 (mpz_init G),
      sail_signed_at G Local1 op1,
      sail_signed_at G Local2 op2,
      set_len rop (a_len op1 * 2),
      on_bits rop (\<lambda>p. mpz2 (mpz_mul G) p Local1 Local2),
      normalize_lbits_at G rop,
      clear_mpz Local1,
      clear_mpz Local2]"

definition mult_vec_at :: "gmp \<Rightarrow> var \<Rightarrow> lbits_arg \<Rightarrow> lbits_arg \<Rightarrow> stmt" where
  "mult_vec_at G rop op1 op2 = seq
     [set_len rop (a_len op1 * 2),
      on_bits rop (\<lambda>p. mpz2 (mpz_mul G) p (a_bits op1) (a_bits op2)),
      normalize_lbits_at G rop]"

definition zeros_at :: "gmp \<Rightarrow> var \<Rightarrow> int \<Rightarrow> stmt" where
  "zeros_at G rop op = seq
     [set_len rop (mpz_get_ui G op),
      on_bits rop (\<lambda>p. put_mpz p (mpz_set_ui G 0))]"

definition zero_extend_at :: "gmp \<Rightarrow> var \<Rightarrow> lbits_arg \<Rightarrow> int \<Rightarrow> stmt" where
  "zero_extend_at G rop op n = seq
     [assertion (a_len op \<le> mpz_get_ui G n),
      set_len rop (mpz_get_ui G n),
      set_to G rop (a_bits op)]"

text \<open>The two loops that may not end.\<close>

partial_function (option) sign_fill_at :: "gmp \<Rightarrow> u64 \<Rightarrow> u64 \<Rightarrow> var \<Rightarrow> heap \<Rightarrow> heap res option" where
  "sign_fill_at G i op_len rop h =
     (if op_len \<le> i then
        (case on_bits rop (\<lambda>p. mpz1 (\<lambda>z. mpz_setbit G z i) p p) h of
           Inl e \<Rightarrow> Some (Inl e)
         | Inr h \<Rightarrow> sign_fill_at G (i - 1) op_len rop h)
      else Some (Inr h))"

declare sign_fill_at.simps [code]

definition loop :: "(heap \<Rightarrow> heap res option) \<Rightarrow> stmt" where
  "loop f h = (case f h of None \<Rightarrow> Inl No_return | Some r \<Rightarrow> r)"

definition sign_extend_at :: "gmp \<Rightarrow> var \<Rightarrow> lbits_arg \<Rightarrow> int \<Rightarrow> stmt" where
  "sign_extend_at G rop op n = seq
     [assertion (a_len op \<le> mpz_get_ui G n),
      set_len rop (mpz_get_ui G n),
      reading (get_mpz (a_bits op)) (\<lambda>z.
        if mpz_tstbit G z (a_len op - 1)
        then seq
          [set_to G rop (a_bits op),
           reading (len_of rop) (\<lambda>n. loop (sign_fill_at G (n - 1) (a_len op) rop))]
        else set_to G rop (a_bits op))]"

definition vector_subrange_lbits_at :: "gmp \<Rightarrow> var \<Rightarrow> lbits_arg \<Rightarrow> int \<Rightarrow> int \<Rightarrow> stmt" where
  "vector_subrange_lbits_at G rop op n_mpz m_mpz =
     (let n = mpz_get_ui G n_mpz; m = mpz_get_ui G m_mpz
      in seq
        [set_len rop (n - (m - 1)),
         on_bits rop (\<lambda>p. mpz1 (\<lambda>z. mpz_fdiv_q_2exp G z m) p (a_bits op)),
         normalize_lbits_at G rop])"

definition sail_truncate_at :: "gmp \<Rightarrow> var \<Rightarrow> lbits_arg \<Rightarrow> int \<Rightarrow> stmt" where
  "sail_truncate_at G rop op n = seq
     [assertion (a_len op \<ge> mpz_get_ui G n),
      set_len rop (mpz_get_ui G n),
      set_to G rop (a_bits op),
      normalize_lbits_at G rop]"

definition sail_truncateLSB_at :: "gmp \<Rightarrow> var \<Rightarrow> lbits_arg \<Rightarrow> int \<Rightarrow> stmt" where
  "sail_truncateLSB_at G rop op n =
     (let rlen = mpz_get_ui G n
      in seq
        [assertion (a_len op \<ge> rlen),
         set_len rop rlen,
         on_bits rop (\<lambda>p. mpz1 (\<lambda>z. mpz_fdiv_q_2exp G z (a_len op - rlen)) p (a_bits op)),
         normalize_lbits_at G rop])"

definition append_at :: "gmp \<Rightarrow> var \<Rightarrow> lbits_arg \<Rightarrow> lbits_arg \<Rightarrow> stmt" where
  "append_at G rop op1 op2 = seq
     [set_len rop (a_len op1 + a_len op2),
      on_bits rop (\<lambda>p. mpz1 (\<lambda>z. mpz_mul_2exp G z (a_len op2)) p (a_bits op1)),
      on_bits rop (\<lambda>p. mpz2 (mpz_ior G) p p (a_bits op2))]"

definition replicate_bits_at :: "gmp \<Rightarrow> var \<Rightarrow> lbits_arg \<Rightarrow> int \<Rightarrow> stmt" where
  "replicate_bits_at G rop op1 op2 =
     (let op2_ui = mpz_get_ui G op2
      in seq
        [set_len rop (a_len op1 * op2_ui),
         on_bits rop (\<lambda>p. put_mpz p (mpz_set_ui G 0)),
         require (uint op2_ui \<le> int_max),
         for_up_res 0 (unat op2_ui) (\<lambda>i. seq
           [on_bits rop (\<lambda>p. mpz1 (\<lambda>z. mpz_mul_2exp G z (a_len op1)) p p),
            on_bits rop (\<lambda>p. mpz2 (mpz_ior G) p p (a_bits op1))])])"

text \<open>The loops that copy bits and that replace bits.\<close>

definition copy_bits_at :: "gmp \<Rightarrow> loc \<Rightarrow> u64 \<Rightarrow> u64 \<Rightarrow> var \<Rightarrow> stmt" where
  "copy_bits_at G src start n rop = for_up_res 0 (unat n) (\<lambda>i.
     reading (get_mpz src) (\<lambda>s.
       if mpz_tstbit G s (of_nat i + start) then on_bits rop (\<lambda>p. mpz1 (\<lambda>z. mpz_setbit G z (of_nat i)) p p) else seq []))"

definition paste_bits_at :: "gmp \<Rightarrow> loc \<Rightarrow> u64 \<Rightarrow> u64 \<Rightarrow> var \<Rightarrow> stmt" where
  "paste_bits_at G src start n rop = for_up_res 0 (unat n) (\<lambda>i.
     reading (get_mpz src) (\<lambda>s.
       if mpz_tstbit G s (of_nat i)
       then on_bits rop (\<lambda>p. mpz1 (\<lambda>z. mpz_setbit G z (of_nat i + start)) p p)
       else on_bits rop (\<lambda>p. mpz1 (\<lambda>z. mpz_clrbit G z (of_nat i + start)) p p)))"

definition vector_update_subrange_lbits_at :: "gmp \<Rightarrow> var \<Rightarrow> lbits_arg \<Rightarrow> int \<Rightarrow> int \<Rightarrow> lbits_arg \<Rightarrow> stmt" where
  "vector_update_subrange_lbits_at G rop op n_mpz m_mpz src =
     (let n = mpz_get_ui G n_mpz; m = mpz_get_ui G m_mpz
      in seq
        [set_to G rop (a_bits op),
         set_len rop (a_len op),
         paste_bits_at G (a_bits src) m (n - (m - 1)) rop])"

definition slice_at :: "gmp \<Rightarrow> var \<Rightarrow> lbits_arg \<Rightarrow> int \<Rightarrow> int \<Rightarrow> stmt" where
  "slice_at G rop op start_mpz len_mpz =
     (let start = mpz_get_ui G start_mpz; n = mpz_get_ui G len_mpz
      in seq
        [assertion (start + n \<le> a_len op),
         on_bits rop (\<lambda>p. put_mpz p (mpz_set_ui G 0)),
         set_len rop n,
         copy_bits_at G (a_bits op) start n rop])"

definition set_slice_at :: "gmp \<Rightarrow> var \<Rightarrow> int \<Rightarrow> int \<Rightarrow> lbits_arg \<Rightarrow> int \<Rightarrow> lbits_arg \<Rightarrow> stmt" where
  "set_slice_at G rop len_mpz slen_mpz op start_mpz src =
     (let start = mpz_get_ui G start_mpz
      in seq
        [set_to G rop (a_bits op),
         set_len rop (a_len op),
         paste_bits_at G (a_bits src) start (a_len src) rop])"

definition shift_bits_left_at :: "gmp \<Rightarrow> var \<Rightarrow> lbits_arg \<Rightarrow> lbits_arg \<Rightarrow> stmt" where
  "shift_bits_left_at G rop op1 op2 = seq
     [set_len rop (a_len op1),
      on_bits rop (\<lambda>p. mpz2 (\<lambda>z k. mpz_mul_2exp G z (mpz_get_ui G k)) p (a_bits op1) (a_bits op2)),
      normalize_lbits_at G rop]"

definition shift_bits_right_at :: "gmp \<Rightarrow> var \<Rightarrow> lbits_arg \<Rightarrow> lbits_arg \<Rightarrow> stmt" where
  "shift_bits_right_at G rop op1 op2 = seq
     [set_len rop (a_len op1),
      on_bits rop (\<lambda>p. mpz2 (\<lambda>z k. mpz_tdiv_q_2exp G z (mpz_get_ui G k)) p (a_bits op1) (a_bits op2))]"

text \<open>The loop that sets the sign bits, on a counter that goes down.\<close>

fun arith_fill_at :: "gmp \<Rightarrow> u64 \<Rightarrow> var \<Rightarrow> nat \<Rightarrow> stmt" where
  "arith_fill_at G sign_bit rop 0 h = Inr h"
| "arith_fill_at G sign_bit rop (Suc k) h =
     bind_res (on_bits rop (\<lambda>p. mpz1 (\<lambda>z. mpz_setbit G z (sign_bit - of_nat (Suc k) + 1)) p p) h)
       (arith_fill_at G sign_bit rop k)"

definition shift_bits_right_arith_at :: "gmp \<Rightarrow> var \<Rightarrow> lbits_arg \<Rightarrow> lbits_arg \<Rightarrow> stmt" where
  "shift_bits_right_arith_at G rop op1 op2 = seq
     [set_len rop (a_len op1),
      reading (get_mpz (a_bits op2)) (\<lambda>k.
        let shift_amt = mpz_get_ui G k; sign_bit = a_len op1 - 1
        in seq
          [on_bits rop (\<lambda>p. mpz1 (\<lambda>z. mpz_fdiv_q_2exp G z shift_amt) p (a_bits op1)),
           reading (get_mpz (a_bits op1)) (\<lambda>z.
             if mpz_tstbit G z sign_bit then arith_fill_at G sign_bit rop (unat shift_amt) else seq [])])]"

definition shiftl_at :: "gmp \<Rightarrow> var \<Rightarrow> lbits_arg \<Rightarrow> int \<Rightarrow> stmt" where
  "shiftl_at G rop op1 op2 = seq
     [set_len rop (a_len op1),
      on_bits rop (\<lambda>p. mpz1 (\<lambda>z. mpz_mul_2exp G z (mpz_get_ui G op2)) p (a_bits op1)),
      normalize_lbits_at G rop]"

definition shiftr_at :: "gmp \<Rightarrow> var \<Rightarrow> lbits_arg \<Rightarrow> int \<Rightarrow> stmt" where
  "shiftr_at G rop op1 op2 = seq
     [set_len rop (a_len op1),
      on_bits rop (\<lambda>p. mpz1 (\<lambda>z. mpz_tdiv_q_2exp G z (mpz_get_ui G op2)) p (a_bits op1))]"

partial_function (option) reverse_bytes_at :: "gmp \<Rightarrow> lbits_arg \<Rightarrow> u64 \<Rightarrow> var \<Rightarrow> heap \<Rightarrow> heap res option" where
  "reverse_bytes_at G op byte rop h =
     (if byte < a_len op then
        (case seq
           [mpz1 (\<lambda>z. mpz_tdiv_q_2exp G z byte) Tmp2 (a_bits op),
            mpz2 (mpz_and G) Tmp2 Tmp2 Tmp1,
            on_bits rop (\<lambda>p. mpz1 (\<lambda>z. mpz_mul_2exp G z 8) p p),
            on_bits rop (\<lambda>p. mpz2 (mpz_ior G) p p Tmp2)] h of
           Inl e \<Rightarrow> Some (Inl e)
         | Inr h \<Rightarrow> reverse_bytes_at G op (byte + 8) rop h)
      else Some (Inr h))"

declare reverse_bytes_at.simps [code]

definition reverse_at_length :: "gmp \<Rightarrow> var \<Rightarrow> lbits_arg \<Rightarrow> u64 \<Rightarrow> stmt" where
  "reverse_at_length G rop op n =
     (if n = 64 then on_bits rop (\<lambda>p. mpz1 (\<lambda>z. let x = mpz_get_ui G z in mpz_set_ui G (swap8 (swap16 (swap32 x)))) p (a_bits op))
      else if n = 32 then on_bits rop (\<lambda>p. mpz1 (\<lambda>z. let x = mpz_get_ui G z in mpz_set_ui G (swap8 (swap16 x))) p (a_bits op))
      else if n = 16 then on_bits rop (\<lambda>p. mpz1 (\<lambda>z. let x = mpz_get_ui G z in mpz_set_ui G (swap8 x)) p (a_bits op))
      else if n = 8 then set_to G rop (a_bits op)
      else seq
        [put_mpz Tmp1 (mpz_set_ui G 0xff),
         on_bits rop (\<lambda>p. put_mpz p (mpz_set_ui G 0)),
         loop (reverse_bytes_at G op 0 rop)])"

definition reverse_endianness_at :: "gmp \<Rightarrow> var \<Rightarrow> lbits_arg \<Rightarrow> stmt" where
  "reverse_endianness_at G rop op = seq
     [set_len rop (a_len op),
      reading (len_of rop) (reverse_at_length G rop op)]"

section \<open>Statements that build a result\<close>

text \<open>
  \<open>result h0 z p n v\<close>: the heap is \<open>h0\<close>, except that the variable \<open>z\<close>, whose number is behind the pointer
  \<open>p\<close>, has the length \<open>n\<close> and the number \<open>v\<close>, and that the temporaries may hold anything.
\<close>

definition result :: "heap \<Rightarrow> var \<Rightarrow> addr \<Rightarrow> u64 \<Rightarrow> int \<Rightarrow> heap \<Rightarrow> bool" where
  "result h0 z p n v h \<longleftrightarrow>
     (\<exists>m. h = h0\<lparr>h_len := (h_len h0)(z \<mapsto> n), h_mpz := m\<rparr> \<and> scratch_only ((h_mpz h0)(Heap p \<mapsto> v)) m)"

definition leaves :: "(heap \<Rightarrow> bool) \<Rightarrow> stmt \<Rightarrow> (heap \<Rightarrow> bool) \<Rightarrow> bool" where
  "leaves P s Q \<longleftrightarrow> (\<forall>h. P h \<longrightarrow> (\<exists>h'. s h = Inr h' \<and> Q h'))"

text \<open>An operand of a call: the value of a variable of the start heap and its pointer.\<close>

definition arg :: "lbits \<Rightarrow> addr \<Rightarrow> lbits_arg" where
  "arg a q = \<lparr>a_len = l_len a, a_bits = Heap q\<rparr>"

lemma arg_simps [simp]: "a_len (arg a q) = l_len a" "a_bits (arg a q) = Heap q"
  by (simp_all add: arg_def)

lemma leaves_seq:
  "leaves P (seq []) P"
  "leaves P s Q \<Longrightarrow> leaves Q (seq ss) R \<Longrightarrow> leaves P (seq (s # ss)) R"
  unfolding leaves_def by (auto simp: bind_res_Inr_iff)

lemma leaves_assertion: "b \<Longrightarrow> leaves P (assertion b) P"
  by (simp add: leaves_def assertion_def)

lemma leaves_require: "b \<Longrightarrow> leaves P (require b) P"
  by (simp add: leaves_def require_def)

lemma result_fields:
  assumes "result h0 z p n v h" "h_bits h0 z = Some p"
  shows "h_bits h z = Some p" "h_len h z = Some n" "h_mpz h (Heap p) = Some v"
    "q \<noteq> p \<Longrightarrow> h_mpz h (Heap q) = h_mpz h0 (Heap q)"
  using assms by (auto simp: result_def scratch_only_def)

lemma result_put:
  "result h0 z p n v h \<Longrightarrow> result h0 z p n w (h\<lparr>h_mpz := (h_mpz h)(Heap p \<mapsto> w)\<rparr>)"
  by (auto simp: result_def scratch_only_def intro!: exI [of _ "(h_mpz h)(Heap p \<mapsto> w)"])

text \<open>The number at \<open>q\<close> while the result is built.\<close>

definition seen :: "heap \<Rightarrow> addr \<Rightarrow> int \<Rightarrow> addr \<Rightarrow> int \<Rightarrow> bool" where
  "seen h0 p v q w \<longleftrightarrow> (if q = p then w = v else h_mpz h0 (Heap q) = Some w)"

lemma result_seen:
  "result h0 z p n v h \<Longrightarrow> h_bits h0 z = Some p \<Longrightarrow> seen h0 p v q w \<Longrightarrow> h_mpz h (Heap q) = Some w"
  using result_fields [of h0 z p n v h] by (cases "q = p") (auto simp: seen_def)

lemma seen_own: "seen h0 p v p v"
  by (simp add: seen_def)

text \<open>The steps. \<open>h_bits h0 z = Some p\<close> holds throughout.\<close>

lemma leaves_set_len: "leaves (result h0 z p n v) (set_len z n') (result h0 z p n' v)"
  by (auto simp: leaves_def set_len_def result_def) (rule exI, rule conjI [rotated], assumption, simp)

lemma leaves_put:
  "h_bits h0 z = Some p \<Longrightarrow> leaves (result h0 z p n v) (on_bits z (\<lambda>p. put_mpz p w)) (result h0 z p n w)"
  unfolding leaves_def using result_fields [of h0 z p n v] result_put [of h0 z p n v]
  by (auto simp: on_bits_def bits_of_def stmt_defs)

lemma leaves_mpz1:
  "h_bits h0 z = Some p \<Longrightarrow> seen h0 p v q w \<Longrightarrow>
   leaves (result h0 z p n v) (on_bits z (\<lambda>p. mpz1 f p (Heap q))) (result h0 z p n (f w))"
  unfolding leaves_def using result_fields [of h0 z p n v] result_put [of h0 z p n v] result_seen [of h0 z p n v]
  by (auto simp: on_bits_def bits_of_def stmt_defs)

lemma leaves_mpz2:
  "h_bits h0 z = Some p \<Longrightarrow> seen h0 p v a x \<Longrightarrow> seen h0 p v b y \<Longrightarrow>
   leaves (result h0 z p n v) (on_bits z (\<lambda>p. mpz2 f p (Heap a) (Heap b))) (result h0 z p n (f x y))"
  unfolding leaves_def using result_fields [of h0 z p n v] result_put [of h0 z p n v] result_seen [of h0 z p n v]
  by (auto simp: on_bits_def bits_of_def stmt_defs)

lemma leaves_own1:
  "h_bits h0 z = Some p \<Longrightarrow>
   leaves (result h0 z p n v) (on_bits z (\<lambda>p. mpz1 f p p)) (result h0 z p n (f v))"
  unfolding leaves_def using result_fields [of h0 z p n v] result_put [of h0 z p n v]
  by (auto simp: on_bits_def bits_of_def stmt_defs)

lemma leaves_own2:
  "h_bits h0 z = Some p \<Longrightarrow> seen h0 p v b y \<Longrightarrow>
   leaves (result h0 z p n v) (on_bits z (\<lambda>p. mpz2 f p p (Heap b))) (result h0 z p n (f v y))"
  unfolding leaves_def using result_fields [of h0 z p n v] result_put [of h0 z p n v] result_seen [of h0 z p n v]
  by (auto simp: on_bits_def bits_of_def stmt_defs)

lemma leaves_reading:
  "h_bits h0 z = Some p \<Longrightarrow> seen h0 p v b y \<Longrightarrow> leaves (result h0 z p n v) (s y) Q \<Longrightarrow>
   leaves (result h0 z p n v) (reading (get_mpz (Heap b)) s) Q"
  "h_bits h0 z = Some p \<Longrightarrow> leaves (result h0 z p n v) (t n) Q \<Longrightarrow>
   leaves (result h0 z p n v) (reading (len_of z) t) Q"
  unfolding leaves_def using result_fields [of h0 z p n v] result_seen [of h0 z p n v]
  by (auto simp: reading_def get_mpz_def len_of_def)

lemma result_tmp:
  "result h0 z p n v h \<Longrightarrow> t \<in> {Tmp1, Tmp2, Tmp3} \<Longrightarrow> result h0 z p n v (h\<lparr>h_mpz := (h_mpz h)(t \<mapsto> w)\<rparr>)"
  "result h0 z p n v h \<Longrightarrow> t \<in> {Tmp1, Tmp2, Tmp3} \<Longrightarrow> \<exists>w. h_mpz h t = Some w"
  by (auto simp: result_def scratch_only_def intro!: exI [of _ "(h_mpz h)(t \<mapsto> w)"])

lemma leaves_normalize:
  assumes "h_bits h0 z = Some p"
  shows "leaves (result h0 z p n v) (normalize_lbits_at G z) (result h0 z p n (l_bits (normalize_lbits G \<lparr>l_len = n, l_bits = v\<rparr>)))"
  unfolding leaves_def
proof (intro allI impI)
  fix h assume h: "result h0 z p n v h"
  let ?t = "mpz_sub_ui G (mpz_mul_2exp G (mpz_set_ui G 1) n) 1"
  have "result h0 z p n v (h\<lparr>h_mpz := (h_mpz h)(Tmp1 \<mapsto> ?t)\<rparr>)" using result_tmp(1) [OF h] by simp
  from result_put [OF this, of "mpz_and G v ?t"] show "\<exists>h'. normalize_lbits_at G z h = Inr h' \<and>
      result h0 z p n (l_bits (normalize_lbits G \<lparr>l_len = n, l_bits = v\<rparr>)) h'"
    using result_fields [OF h assms] result_tmp(2) [OF h, of Tmp1]
    by (auto simp: normalize_lbits_at_def normalize_lbits_def on_bits_def bits_of_def len_of_def stmt_defs Let_def)
qed

lemma leaves_loop_gen:
  assumes "\<And>i v. leaves (R v) (body i) (R (f i v))"
  shows "leaves (R v) (for_up_res 0 k body) (R (for_up 0 k f v))"
proof -
  have "leaves (R v) (for_up_res i k body) (R (for_up i k f v))" if "i \<le> k" for i
    using that
  proof (induction "k - i" arbitrary: i v)
    case 0
    then show ?case by (simp add: leaves_def)
  next
    case (Suc d)
    then have "i < k" "Suc i \<le> k" "d = k - Suc i" by simp_all
    from Suc.hyps(1) [OF this(3,2), of "f i v"] assms [of v i] show ?case
      unfolding leaves_def by (fastforce simp: for_up_res_step [OF \<open>i < k\<close>] for_up_step [OF \<open>i < k\<close>])
  qed
  from this [of 0] show ?thesis by simp
qed

lemma leaves_loop:
  assumes "\<And>i v. leaves (result h0 z p n v) (body i) (result h0 z p n (f i v))"
  shows "leaves (result h0 z p n v) (for_up_res 0 k body) (result h0 z p n (for_up 0 k f v))"
  using leaves_loop_gen [of "result h0 z p n", OF assms] .

text \<open>From the steps of a function to what it does to the values.\<close>

lemma result_start:
  "wf_heap h \<Longrightarrow> lbits_at h z = Some r \<Longrightarrow> h_bits h z = Some p \<Longrightarrow> result h z p (l_len r) (l_bits r) h"
  unfolding result_def using live_bits [of h z r p]
  by (intro exI [of _ "h_mpz h"]) (auto simp: scratch_only_def wf_heap_def temps_ok_def fun_upd_idem)

lemma leaves_does:
  assumes h: "wf_heap h" "lbits_at h z = Some r" "h_bits h z = Some p"
    and s: "leaves (result h z p (l_len r) (l_bits r)) s (result h z p (l_len v) (l_bits v))"
  shows "does s h (\<lambda>st. st\<lparr>s_lbits := (s_lbits st)(z \<mapsto> v)\<rparr>)"
proof -
  obtain h' where h': "s h = Inr h'" "result h z p (l_len v) (l_bits v) h'"
    using s result_start [OF h] by (auto simp: leaves_def)
  then obtain m where m: "h' = h\<lparr>h_len := (h_len h)(z \<mapsto> l_len v), h_mpz := m\<rparr>" "scratch_only ((h_mpz h)(Heap p \<mapsto> l_bits v)) m"
    by (auto simp: result_def)
  have "h' = h\<lparr>h_mpz := m, h_len := (h_len h)(z \<mapsto> l_len v)\<rparr>" using m(1) by simp
  from update_lbits [OF h m(2) this] h'(1) show ?thesis by (auto intro: doesI)
qed



section \<open>Calls\<close>

text \<open>The functions with one and with two bitvector operands, by their names.\<close>

datatype un_op =
    Not_bits | Add_bits_int int | Sub_bits_int int | Zero_extend int | Sign_extend int | Truncate int | TruncateLSB int
  | Subrange int int | Slice int int | Replicate int | Shiftl int | Shiftr int | Reverse_endianness

datatype bin_op =
    Add_bits | Sub_bits | And_bits | Or_bits | Xor_bits | Mult_vec | Mults_vec | Append
  | Update_subrange int int | Set_slice int int int | Shift_left | Shift_right | Shift_right_arith

fun un_at :: "gmp \<Rightarrow> un_op \<Rightarrow> var \<Rightarrow> lbits_arg \<Rightarrow> stmt" where
  "un_at G Not_bits z a = not_bits_at G z a"
| "un_at G (Add_bits_int k) z a = add_bits_int_at G z a k"
| "un_at G (Sub_bits_int k) z a = sub_bits_int_at G z a k"
| "un_at G (Zero_extend n) z a = zero_extend_at G z a n"
| "un_at G (Sign_extend n) z a = sign_extend_at G z a n"
| "un_at G (Truncate n) z a = sail_truncate_at G z a n"
| "un_at G (TruncateLSB n) z a = sail_truncateLSB_at G z a n"
| "un_at G (Subrange n m) z a = vector_subrange_lbits_at G z a n m"
| "un_at G (Slice s n) z a = slice_at G z a s n"
| "un_at G (Replicate n) z a = replicate_bits_at G z a n"
| "un_at G (Shiftl n) z a = shiftl_at G z a n"
| "un_at G (Shiftr n) z a = shiftr_at G z a n"
| "un_at G Reverse_endianness z a = reverse_endianness_at G z a"

fun un_val :: "gmp \<Rightarrow> un_op \<Rightarrow> lbits \<Rightarrow> lbits res" where
  "un_val G Not_bits a = Inr (not_bits G a)"
| "un_val G (Add_bits_int k) a = Inr (add_bits_int G a k)"
| "un_val G (Sub_bits_int k) a = Inr (sub_bits_int G a k)"
| "un_val G (Zero_extend n) a = zero_extend G a n"
| "un_val G (Sign_extend n) a = sign_extend G a n"
| "un_val G (Truncate n) a = sail_truncate G a n"
| "un_val G (TruncateLSB n) a = sail_truncateLSB G a n"
| "un_val G (Subrange n m) a = Inr (vector_subrange_lbits G a n m)"
| "un_val G (Slice s n) a = slice G a s n"
| "un_val G (Replicate n) a = replicate_bits G a n"
| "un_val G (Shiftl n) a = Inr (shiftl G a n)"
| "un_val G (Shiftr n) a = Inr (shiftr G a n)"
| "un_val G Reverse_endianness a = reverse_endianness G a"

fun bin_at :: "gmp \<Rightarrow> bin_op \<Rightarrow> var \<Rightarrow> lbits_arg \<Rightarrow> lbits_arg \<Rightarrow> stmt" where
  "bin_at G Add_bits z a b = add_bits_at G z a b"
| "bin_at G Sub_bits z a b = sub_bits_at G z a b"
| "bin_at G And_bits z a b = and_bits_at G z a b"
| "bin_at G Or_bits z a b = or_bits_at G z a b"
| "bin_at G Xor_bits z a b = xor_bits_at G z a b"
| "bin_at G Mult_vec z a b = mult_vec_at G z a b"
| "bin_at G Mults_vec z a b = mults_vec_at G z a b"
| "bin_at G Append z a b = append_at G z a b"
| "bin_at G (Update_subrange n m) z a b = vector_update_subrange_lbits_at G z a n m b"
| "bin_at G (Set_slice n k s) z a b = set_slice_at G z n k a s b"
| "bin_at G Shift_left z a b = shift_bits_left_at G z a b"
| "bin_at G Shift_right z a b = shift_bits_right_at G z a b"
| "bin_at G Shift_right_arith z a b = shift_bits_right_arith_at G z a b"

fun bin_val :: "gmp \<Rightarrow> bin_op \<Rightarrow> lbits \<Rightarrow> lbits \<Rightarrow> lbits res" where
  "bin_val G Add_bits a b = Inr (add_bits G a b)"
| "bin_val G Sub_bits a b = sub_bits G a b"
| "bin_val G And_bits a b = and_bits G a b"
| "bin_val G Or_bits a b = or_bits G a b"
| "bin_val G Xor_bits a b = xor_bits G a b"
| "bin_val G Mult_vec a b = Inr (mult_vec G a b)"
| "bin_val G Mults_vec a b = Inr (mults_vec G a b)"
| "bin_val G Append a b = Inr (append G a b)"
| "bin_val G (Update_subrange n m) a b = Inr (vector_update_subrange_lbits G a n m b)"
| "bin_val G (Set_slice n k s) a b = Inr (set_slice G n k a s b)"
| "bin_val G Shift_left a b = Inr (shift_bits_left G a b)"
| "bin_val G Shift_right a b = Inr (shift_bits_right G a b)"
| "bin_val G Shift_right_arith a b = Inr (shift_bits_right_arith G a b)"

text \<open>When the result may be an operand.\<close>

fun un_alias :: "un_op \<Rightarrow> bool" where
  "un_alias (Slice s n) = False"
| "un_alias (Replicate n) = False"
| "un_alias Reverse_endianness = False"
| "un_alias op = True"

fun bin_alias :: "bin_op \<Rightarrow> bool \<times> bool" where
  "bin_alias Append = (True, False)"
| "bin_alias (Update_subrange n m) = (True, False)"
| "bin_alias (Set_slice n k s) = (True, False)"
| "bin_alias Shift_right_arith = (False, True)"
| "bin_alias op = (True, True)"

section \<open>What the calls compute\<close>

lemma l_len_normalize [simp]: "l_len (normalize_lbits G v) = l_len v"
  by (simp add: normalize_lbits_def Let_def)

lemma seen_start:
  assumes "wf_heap h" "lbits_at h z = Some r" "h_bits h z = Some p" "lbits_at h x = Some a" "h_bits h x = Some q"
  shows "seen h p (l_bits r) q (l_bits a)" "x \<noteq> z \<Longrightarrow> seen h p v q (l_bits a)"
proof -
  have "x = z" if "q = p" using assms(1,3,5) that by (auto simp: wf_heap_def pointers_ok_def)
  then show "seen h p (l_bits r) q (l_bits a)" "x \<noteq> z \<Longrightarrow> seen h p v q (l_bits a)"
    using live_bits(3) [OF assms(1,4,5)] assms(2,4) by (auto simp: seen_def)
qed

lemma leaves_if:
  "leaves P s (result h z p n v) \<Longrightarrow> leaves P t (result h z p n w) \<Longrightarrow>
   leaves P (if b then s else t) (result h z p n (if b then v else w))"
  by simp

lemmas build = TrueI leaves_if leaves_seq leaves_assertion leaves_require leaves_set_len leaves_put leaves_mpz1 leaves_mpz2 leaves_own1 leaves_own2
  leaves_normalize leaves_reading leaves_loop

lemmas un_defs = not_bits_at_def add_bits_int_at_def sub_bits_int_at_def zero_extend_at_def sail_truncate_at_def
  sail_truncateLSB_at_def vector_subrange_lbits_at_def slice_at_def replicate_bits_at_def shiftl_at_def shiftr_at_def
  set_to_def copy_bits_at_def not_bits_def add_bits_int_def sub_bits_int_def zero_extend_def sail_truncate_def
  sail_truncateLSB_def vector_subrange_lbits_def slice_def replicate_bits_def shiftl_def shiftr_def copy_bits_def Let_def

lemmas bin_defs = add_bits_at_def sub_bits_at_def and_bits_at_def or_bits_at_def xor_bits_at_def mult_vec_at_def
  append_at_def vector_update_subrange_lbits_at_def set_slice_at_def shift_bits_left_at_def shift_bits_right_at_def
  set_to_def paste_bits_at_def add_bits_def sub_bits_def and_bits_def or_bits_def xor_bits_def mult_vec_def append_def
  vector_update_subrange_lbits_def set_slice_def shift_bits_left_def shift_bits_right_def paste_bits_def Let_def

text \<open>Functions that read their operands before they write the result.\<close>

lemma un_leaves:
  assumes "h_bits h z = Some p" "seen h p (l_bits r) q (l_bits a)"
    and "un_val G op a = Inr v" "un_alias op" "\<forall>n. op \<noteq> Sign_extend n"
  shows "leaves (result h z p (l_len r) (l_bits r)) (un_at G op z (arg a q)) (result h z p (l_len v) (l_bits v))"
  using assms(3-5) by (cases op; simp) (auto simp: un_defs, (rule build assms(1,2))+)

lemma bin_leaves:
  assumes "h_bits h z = Some p" "seen h p (l_bits r) q (l_bits a)" "seen h p (l_bits r) q' (l_bits b)"
    and "bin_val G op a b = Inr v" "bin_alias op = (True, True)" "op \<noteq> Mults_vec"
  shows "leaves (result h z p (l_len r) (l_bits r)) (bin_at G op z (arg a q) (arg b q')) (result h z p (l_len v) (l_bits v))"
  using assms(4-6) by (cases op; simp) (auto simp: bin_defs, (rule build assms(1-3))+)

text \<open>
  The functions that need the result to be another variable than an operand. The condition is that the
  operand is still seen when the result has changed.
\<close>

lemma un_leaves_apart:
  assumes "h_bits h z = Some p" "\<And>v. seen h p v q (l_bits a)"
    and "un_val G op a = Inr v" "\<not> un_alias op" "op \<noteq> Reverse_endianness"
  shows "leaves (result h z p (l_len r) (l_bits r)) (un_at G op z (arg a q)) (result h z p (l_len v) (l_bits v))"
  using assms(3-5) by (cases op; simp) (auto simp: un_defs, (rule build assms(1,2))+)

lemma bin_leaves_apart:
  assumes "h_bits h z = Some p" "seen h p (l_bits r) q (l_bits a)" "\<And>v. seen h p v q' (l_bits b)"
    and "bin_val G op a b = Inr v" "bin_alias op = (True, False)"
  shows "leaves (result h z p (l_len r) (l_bits r)) (bin_at G op z (arg a q) (arg b q')) (result h z p (l_len v) (l_bits v))"
  using assms(4,5) by (cases op; simp) (auto simp: bin_defs, (rule build assms(1-3))+)

lemma arith_fill_leaves:
  assumes "h_bits h z = Some p"
  shows "leaves (result h z p n v) (arith_fill_at G s z k)
    (result h z p n (for_down k (\<lambda>k z. mpz_setbit G z (s - of_nat k + 1)) v))"
proof (induction k arbitrary: v)
  case (Suc k)
  from leaves_own1 [OF assms, of n v "\<lambda>z. mpz_setbit G z (s - of_nat (Suc k) + 1)"] Suc [of "mpz_setbit G v (s - of_nat (Suc k) + 1)"]
  show ?case by (fastforce simp: leaves_def)
qed (simp add: leaves_def)

lemma arith_leaves:
  assumes "h_bits h z = Some p" "\<And>v. seen h p v q (l_bits a)" "seen h p (l_bits r) q' (l_bits b)"
    and "v = shift_bits_right_arith G a b"
  shows "leaves (result h z p (l_len r) (l_bits r)) (shift_bits_right_arith_at G z (arg a q) (arg b q')) (result h z p (l_len v) (l_bits v))"
  unfolding shift_bits_right_arith_at_def shift_bits_right_arith_def assms(4) Let_def
  by (simp only: arg_simps lbits.select_convs) (rule build arith_fill_leaves assms(1-3))+

text \<open>The loops that may not end do the same on the heap as on the value.\<close>

lemma sign_fill_at_Some:
  assumes "h_bits h0 z = Some p" "sign_fill G i n v = Some w" "result h0 z p k v h"
  shows "\<exists>h'. sign_fill_at G i n z h = Some (Inr h') \<and> result h0 z p k w h'"
  using assms(2,3)
proof (induction arbitrary: h rule: sign_fill.raw_induct [rotated, consumes 1, case_names step])
  case (step f G i n v w)
  obtain h1 where h1: "on_bits z (\<lambda>p. mpz1 (\<lambda>z. mpz_setbit G z i) p p) h = Inr h1" "result h0 z p k (mpz_setbit G v i) h1"
    using leaves_own1 [OF assms(1), of k v "\<lambda>z. mpz_setbit G z i"] step(3) by (auto simp: leaves_def)
  show ?case
  proof (cases "n \<le> i")
    case True
    with step(2) have "f G (i - 1) n (mpz_setbit G v i) = Some w" by simp
    from step(1) [OF this h1(2)] show ?thesis using True h1(1) by (subst sign_fill_at.simps) simp
  next
    case False
    with step(2,3) show ?thesis by (subst sign_fill_at.simps) simp
  qed
qed

lemma sign_fill_at_None:
  assumes "h_bits h0 z = Some p" "sign_fill_at G i n z h = Some r" "result h0 z p k v h"
  shows "\<exists>w. sign_fill G i n v = Some w"
  using assms(2,3,1)
proof (induction arbitrary: v rule: sign_fill_at.raw_induct [rotated, consumes 1, case_names step])
  case (step f G i n z h r)
  obtain h1 where h1: "on_bits z (\<lambda>p. mpz1 (\<lambda>z. mpz_setbit G z i) p p) h = Inr h1" "result h0 z p k (mpz_setbit G v i) h1"
    using leaves_own1 [OF step(4), of k v "\<lambda>z. mpz_setbit G z i"] step(3) by (auto simp: leaves_def)
  show ?case
  proof (cases "n \<le> i")
    case True
    with step(2) h1(1) have "f G (i - 1) n z h1 = Some r" by simp
    from step(1) [OF this h1(2) step(4)] show ?thesis using True by (subst sign_fill.simps) simp
  next
    case False
    then show ?thesis by (subst sign_fill.simps) simp
  qed
qed

lemma loop_leaves:
  assumes "\<And>h. result h0 z p k v h \<Longrightarrow> \<exists>h'. f h = Some (Inr h') \<and> result h0 z p k w h'"
  shows "leaves (result h0 z p k v) (loop f) (result h0 z p k w)"
  using assms by (fastforce simp: leaves_def loop_def)

lemma leaves_read_if:
  "h_bits h0 z = Some p \<Longrightarrow> seen h0 p v b y \<Longrightarrow> (c y \<Longrightarrow> leaves (result h0 z p n v) s Q) \<Longrightarrow>
   (\<not> c y \<Longrightarrow> leaves (result h0 z p n v) t Q) \<Longrightarrow>
   leaves (result h0 z p n v) (reading (get_mpz (Heap b)) (\<lambda>y. if c y then s else t)) Q"
  by (erule (1) leaves_reading(1)) simp

lemma leaves_set_to:
  "h_bits h0 z = Some p \<Longrightarrow> seen h0 p v q w \<Longrightarrow> leaves (result h0 z p n v) (set_to G z (Heap q)) (result h0 z p n (mpz_set G w))"
  unfolding set_to_def by (rule leaves_mpz1)

lemma sign_extend_leaves:
  assumes p: "h_bits h z = Some p" and s: "seen h p (l_bits r) q (l_bits a)" and v: "sign_extend G a n = Inr v"
  shows "leaves (result h z p (l_len r) (l_bits r)) (sign_extend_at G z (arg a q) n) (result h z p (l_len v) (l_bits v))"
proof -
  have len: "l_len a \<le> mpz_get_ui G n" "l_len v = mpz_get_ui G n"
    using v by (auto simp: sign_extend_def Let_def bind_res_Inr_iff split: if_splits)
  have fill: "leaves (result h z p (mpz_get_ui G n) (mpz_set G (l_bits a)))
      (loop (sign_fill_at G (mpz_get_ui G n - 1) (l_len a) z)) (result h z p (mpz_get_ui G n) (l_bits v))"
    if "mpz_tstbit G (l_bits a) (l_len a - 1)"
  proof (rule loop_leaves)
    have "sign_fill G (mpz_get_ui G n - 1) (l_len a) (mpz_set G (l_bits a)) = Some (l_bits v)"
      using v that by (auto simp: sign_extend_def Let_def of_option_def bind_res_Inr_iff split: option.splits)
    then show "\<exists>h''. sign_fill_at G (mpz_get_ui G n - 1) (l_len a) z h' = Some (Inr h'') \<and> result h z p (mpz_get_ui G n) (l_bits v) h''"
      if "result h z p (mpz_get_ui G n) (mpz_set G (l_bits a)) h'" for h' 
      using sign_fill_at_Some [OF p _ that] by blast
  qed
  have keep: "leaves (result h z p (mpz_get_ui G n) (l_bits r)) (set_to G z (Heap q)) (result h z p (mpz_get_ui G n) (l_bits v))"
    if "\<not> mpz_tstbit G (l_bits a) (l_len a - 1)"
    using v that leaves_set_to [OF p s, of _ G] by (auto simp: sign_extend_def Let_def)
  show ?thesis
    unfolding sign_extend_at_def arg_simps len(2)
    by (erule fill keep | rule leaves_seq leaves_assertion len(1) leaves_set_len leaves_read_if p s leaves_set_to leaves_reading(2))+
qed

subsection \<open>Signed multiplication\<close>

text \<open>A step on any of the integers outside of the bitvectors.\<close>

lemma sail_signed_at_eq:
  assumes "h_mpz h (Heap q) = Some (l_bits a)" "h_mpz h l \<noteq> None" "h_mpz h Tmp1 \<noteq> None" "l \<noteq> Tmp1" "l \<noteq> Heap q"
  shows "\<exists>t. sail_signed_at G l (arg a q) h = Inr (h\<lparr>h_mpz := (h_mpz h)(Tmp1 \<mapsto> t, l \<mapsto> sail_signed G a)\<rparr>)"
proof (cases "l_len a \<noteq> 0 \<and> mpz_tstbit G (l_bits a) (l_len a - 1)")
  case True
  with assms show ?thesis
    by (intro exI [of _ "mpz_mul_2exp G (mpz_set_ui G 1) (l_len a - 1)"])
      (auto simp: sail_signed_at_def sail_signed_def stmt_defs Let_def fun_upd_twist)
next
  case False
  obtain t where "h_mpz h Tmp1 = Some t" using assms(3) by blast
  then have "(h_mpz h)(Tmp1 \<mapsto> t) = h_mpz h" by auto
  with assms False show ?thesis
    by (intro exI [of _ t]) (auto simp: sail_signed_at_def sail_signed_def stmt_defs Let_def)
qed

lemma normalize_at_eq:
  assumes "h_bits h z = Some p" "h_len h z = Some n" "h_mpz h (Heap p) = Some v" "h_mpz h Tmp1 \<noteq> None"
  shows "\<exists>t. normalize_lbits_at G z h = Inr (h\<lparr>h_mpz := (h_mpz h)(Tmp1 \<mapsto> t,
    Heap p \<mapsto> l_bits (normalize_lbits G \<lparr>l_len = n, l_bits = v\<rparr>))\<rparr>)"
  using assms
  by (intro exI [of _ "mpz_sub_ui G (mpz_mul_2exp G (mpz_set_ui G 1) n) 1"])
    (auto simp: normalize_lbits_at_def normalize_lbits_def on_bits_def bits_of_def len_of_def stmt_defs Let_def)

lemma mults_leaves:
  assumes p: "h_bits h z = Some p" and s: "seen h p (l_bits r) q (l_bits a)" "seen h p (l_bits r) q' (l_bits b)"
    and l: "h_mpz h Local1 = None" "h_mpz h Local2 = None"
  shows "leaves (result h z p (l_len r) (l_bits r)) (mults_vec_at G z (arg a q) (arg b q'))
    (result h z p (l_len (mults_vec G a b)) (l_bits (mults_vec G a b)))"
  unfolding leaves_def
proof (intro allI impI)
  fix h1 assume r: "result h z p (l_len r) (l_bits r) h1"
  then obtain m where h1: "h1 = h\<lparr>h_len := (h_len h)(z \<mapsto> l_len r), h_mpz := m\<rparr>"
    and m: "scratch_only ((h_mpz h)(Heap p \<mapsto> l_bits r)) m" by (auto simp: result_def)
  have q: "m (Heap q) = Some (l_bits a)" "m (Heap q') = Some (l_bits b)" "m (Heap p) = Some (l_bits r)"
    using result_seen [OF r p s(1)] result_seen [OF r p s(2)] result_fields(3) [OF r p] by (simp_all add: h1)
  have k: "m Local1 = None" "m Local2 = None" "m Tmp1 \<noteq> None"
    using m l by (auto simp: scratch_only_def)
  let ?m1 = "m(Local1 \<mapsto> mpz_init G, Local2 \<mapsto> mpz_init G)"
  obtain t where t: "sail_signed_at G Local1 (arg a q) (h1\<lparr>h_mpz := ?m1\<rparr>) =
      Inr (h1\<lparr>h_mpz := ?m1(Tmp1 \<mapsto> t, Local1 \<mapsto> sail_signed G a)\<rparr>)"
    using sail_signed_at_eq [of "h1\<lparr>h_mpz := ?m1\<rparr>" q a Local1 G] q k by auto
  let ?m2 = "?m1(Tmp1 \<mapsto> t, Local1 \<mapsto> sail_signed G a)"
  obtain t' where t': "sail_signed_at G Local2 (arg b q') (h1\<lparr>h_mpz := ?m2\<rparr>) =
      Inr (h1\<lparr>h_mpz := ?m2(Tmp1 \<mapsto> t', Local2 \<mapsto> sail_signed G b)\<rparr>)"
    using sail_signed_at_eq [of "h1\<lparr>h_mpz := ?m2\<rparr>" q' b Local2 G] q k by auto
  let ?m3 = "?m2(Tmp1 \<mapsto> t', Local2 \<mapsto> sail_signed G b, Heap p \<mapsto> mpz_mul G (sail_signed G a) (sail_signed G b))"
  let ?h3 = "h1\<lparr>h_len := (h_len h1)(z \<mapsto> l_len a * 2), h_mpz := ?m3\<rparr>"
  obtain t2 where t2: "normalize_lbits_at G z ?h3 = Inr (?h3\<lparr>h_mpz := ?m3(Tmp1 \<mapsto> t2, Heap p \<mapsto> l_bits (mults_vec G a b))\<rparr>)"
    using normalize_at_eq [of ?h3 z p "l_len a * 2" "mpz_mul G (sail_signed G a) (sail_signed G b)" G] p
    by (auto simp: h1 mults_vec_def)
  let ?m4 = "?m3(Tmp1 \<mapsto> t2, Heap p \<mapsto> l_bits (mults_vec G a b), Local1 := None, Local2 := None)"
  have "mults_vec_at G z (arg a q) (arg b q') h1 = Inr (?h3\<lparr>h_mpz := ?m4\<rparr>)"
    using k q t t' t2 p
    by (simp add: mults_vec_at_def init_mpz_def lose_def clear_mpz_def set_len_def on_bits_def bits_of_def reading_def mpz2_def
        get_mpz_def put_mpz_def h1)
  moreover have "result h z p (l_len (mults_vec G a b)) (l_bits (mults_vec G a b)) (?h3\<lparr>h_mpz := ?m4\<rparr>)"
    unfolding result_def by (intro exI [of _ ?m4]) (use m l in \<open>auto simp: h1 mults_vec_def scratch_only_def\<close>)
  ultimately show "\<exists>h'. mults_vec_at G z (arg a q) (arg b q') h1 = Inr h' \<and>
      result h z p (l_len (mults_vec G a b)) (l_bits (mults_vec G a b)) h'" by blast
qed

subsection \<open>Byte reversal\<close>

lemma reverse_step:
  assumes r: "result h0 z p k v h" "h_bits h0 z = Some p" and m: "h_mpz h Tmp1 = Some mk" "h_mpz h (Heap q) = Some s"
  shows "\<exists>h'. seq
     [mpz1 (\<lambda>z. mpz_tdiv_q_2exp G z byte) Tmp2 (Heap q),
      mpz2 (mpz_and G) Tmp2 Tmp2 Tmp1,
      on_bits z (\<lambda>p. mpz1 (\<lambda>z. mpz_mul_2exp G z 8) p p),
      on_bits z (\<lambda>p. mpz2 (mpz_ior G) p p Tmp2)] h = Inr h' \<and>
    result h0 z p k (mpz_ior G (mpz_mul_2exp G v 8) (mpz_and G (mpz_tdiv_q_2exp G s byte) mk)) h' \<and> h_mpz h' Tmp1 = Some mk"
proof -
  let ?t = "mpz_and G (mpz_tdiv_q_2exp G s byte) mk"
  let ?v = "mpz_ior G (mpz_mul_2exp G v 8) ?t"
  obtain t where "h_mpz h Tmp2 = Some t" using result_tmp(2) [OF r(1)] by blast
  moreover have "result h0 z p k ?v (h\<lparr>h_mpz := (h_mpz h)(Tmp2 \<mapsto> ?t, Heap p \<mapsto> ?v)\<rparr>)"
    using result_put [OF result_tmp(1) [OF r(1), of Tmp2 ?t], of ?v] by simp
  ultimately show ?thesis
    using result_fields [OF r] m by (simp add: on_bits_def bits_of_def stmt_defs fun_upd_twist)
qed

lemma reverse_bytes_at_Some:
  assumes "h_bits h0 z = Some p" "\<And>v. seen h0 p v q (l_bits a)"
    and "reverse_bytes G src n mk byte v = Some w" "src = l_bits a" "n = l_len a" "result h0 z p k v h" "h_mpz h Tmp1 = Some mk"
  shows "\<exists>h'. reverse_bytes_at G (arg a q) byte z h = Some (Inr h') \<and> result h0 z p k w h'"
  using assms(3-7)
proof (induction arbitrary: h rule: reverse_bytes.raw_induct [rotated, consumes 1, case_names step])
  case (step f G src n mk byte v w)
  have "h_mpz h (Heap q) = Some (l_bits a)" by (rule result_seen [OF step(5) assms(1,2)])
  from reverse_step [OF step(5) assms(1) step(6) this, of G byte] obtain h1 where h1: "seq
     [mpz1 (\<lambda>z. mpz_tdiv_q_2exp G z byte) Tmp2 (Heap q),
      mpz2 (mpz_and G) Tmp2 Tmp2 Tmp1,
      on_bits z (\<lambda>p. mpz1 (\<lambda>z. mpz_mul_2exp G z 8) p p),
      on_bits z (\<lambda>p. mpz2 (mpz_ior G) p p Tmp2)] h = Inr h1"
    "result h0 z p k (mpz_ior G (mpz_mul_2exp G v 8) (mpz_and G (mpz_tdiv_q_2exp G (l_bits a) byte) mk)) h1" "h_mpz h1 Tmp1 = Some mk"
    by blast
  show ?case
  proof (cases "byte < n")
    case True
    with step(2) have "f G src n mk (byte + 8) (mpz_ior G (mpz_mul_2exp G v 8) (mpz_and G (mpz_tdiv_q_2exp G src byte) mk)) = Some w"
      by (simp add: Let_def)
    from step(1) [OF this step(3,4)] h1(2,3) True show ?thesis using h1(1) step(3,4) by (subst reverse_bytes_at.simps) simp
  next
    case False
    with step(2,4,5) show ?thesis by (subst reverse_bytes_at.simps) simp
  qed
qed

text \<open>The general case: the mask and the accumulator are set, then the loop runs.\<close>

lemma reverse_loop_leaves:
  assumes p: "h_bits h z = Some p"
    and l: "\<And>h1. result h z p n (mpz_set_ui G 0) h1 \<Longrightarrow> h_mpz h1 Tmp1 = Some (mpz_set_ui G 0xff) \<Longrightarrow>
      \<exists>h2. f h1 = Some (Inr h2) \<and> result h z p n w h2"
  shows "leaves (result h z p n v)
    (seq [put_mpz Tmp1 (mpz_set_ui G 0xff), on_bits z (\<lambda>p. put_mpz p (mpz_set_ui G 0)), loop f]) (result h z p n w)"
  unfolding leaves_def
proof (intro allI impI)
  fix h1 assume r: "result h z p n v h1"
  let ?h2 = "h1\<lparr>h_mpz := (h_mpz h1)(Tmp1 \<mapsto> mpz_set_ui G 0xff, Heap p \<mapsto> mpz_set_ui G 0)\<rparr>"
  have "result h z p n (mpz_set_ui G 0) ?h2"
    using result_put [OF result_tmp(1) [OF r, of Tmp1 "mpz_set_ui G 0xff"], of "mpz_set_ui G 0"] by simp
  with l [of ?h2] obtain h3 where "f ?h2 = Some (Inr h3)" "result h z p n w h3" by auto
  then show "\<exists>h'. seq [put_mpz Tmp1 (mpz_set_ui G 0xff), on_bits z (\<lambda>p. put_mpz p (mpz_set_ui G 0)), loop f] h1 = Inr h' \<and>
      result h z p n w h'"
    using result_fields [OF r p] result_tmp(2) [OF r, of Tmp1]
    by (auto simp: on_bits_def bits_of_def stmt_defs loop_def)
qed

lemma reverse_endianness_leaves:
  assumes "h_bits h z = Some p" "leaves (result h z p (a_len op) v) (reverse_at_length G z op (a_len op)) (result h z p (a_len op) w)"
  shows "leaves (result h z p n v) (reverse_endianness_at G z op) (result h z p (a_len op) w)"
  unfolding reverse_endianness_at_def by (rule leaves_seq leaves_set_len leaves_reading(2) assms)+

lemma reverse_fixed_leaves:
  assumes p: "h_bits h z = Some p" and s: "seen h p u q (l_bits a)" and v: "reverse_endianness G a = Inr v"
    and n: "l_len a \<in> {64, 32, 16, 8}"
  shows "leaves (result h z p (l_len a) u) (reverse_at_length G z (arg a q) (l_len a)) (result h z p (l_len a) (l_bits v))"
  using n v by (auto simp: reverse_at_length_def reverse_endianness_def Let_def) (rule leaves_mpz1 leaves_set_to p s)+

lemma reverse_leaves:
  assumes p: "h_bits h z = Some p" and s: "\<And>v. seen h p v q (l_bits a)" and v: "reverse_endianness G a = Inr v"
  shows "leaves (result h z p (l_len r) (l_bits r)) (reverse_endianness_at G z (arg a q)) (result h z p (l_len v) (l_bits v))"
proof -
  have n: "l_len v = l_len a" using v by (auto simp: reverse_endianness_def Let_def bind_res_Inr_iff split: if_splits)
  have "leaves (result h z p (l_len a) (l_bits r)) (reverse_at_length G z (arg a q) (l_len a)) (result h z p (l_len a) (l_bits v))"
  proof (cases "l_len a \<in> {64, 32, 16, 8}")
    case True
    with p s v show ?thesis by (rule reverse_fixed_leaves)
  next
    case False
    with v have w: "reverse_bytes G (l_bits a) (l_len a) (mpz_set_ui G 0xff) 0 (mpz_set_ui G 0) = Some (l_bits v)"
      by (auto simp: reverse_endianness_def of_option_def bind_res_Inr_iff split: option.splits)
    have "leaves (result h z p (l_len a) (l_bits r))
        (seq [put_mpz Tmp1 (mpz_set_ui G 0xff), on_bits z (\<lambda>p. put_mpz p (mpz_set_ui G 0)), loop (reverse_bytes_at G (arg a q) 0 z)])
        (result h z p (l_len a) (l_bits v))"
      using reverse_bytes_at_Some [OF p s w refl refl] by (intro reverse_loop_leaves p) blast
    with False show ?thesis by (simp add: reverse_at_length_def)
  qed
  then show ?thesis using reverse_endianness_leaves [OF p, of "arg a q"] n by simp
qed

section \<open>Calls that fail\<close>

definition fails :: "(heap \<Rightarrow> bool) \<Rightarrow> stmt \<Rightarrow> fault \<Rightarrow> bool" where
  "fails P s e \<longleftrightarrow> (\<forall>h. P h \<longrightarrow> s h = Inl e)"

lemma fails_seq:
  "fails P s e \<Longrightarrow> fails P (seq (s # ss)) e"
  "leaves P s Q \<Longrightarrow> fails Q (seq ss) e \<Longrightarrow> fails P (seq (s # ss)) e"
  unfolding fails_def leaves_def by (simp, metis bind_res_simps(2) seq.simps(2))

lemma fails_stmt:
  "\<not> b \<Longrightarrow> fails P (assertion b) Assertion_failed" "\<not> b \<Longrightarrow> fails P (require b) Undefined_behaviour"
  by (simp_all add: fails_def assertion_def require_def)

lemma fails_reading:
  "h_bits h0 z = Some p \<Longrightarrow> seen h0 p v b y \<Longrightarrow> fails (result h0 z p n v) (s y) e \<Longrightarrow>
   fails (result h0 z p n v) (reading (get_mpz (Heap b)) s) e"
  "h_bits h0 z = Some p \<Longrightarrow> fails (result h0 z p n v) (t n) e \<Longrightarrow> fails (result h0 z p n v) (reading (len_of z) t) e"
  unfolding fails_def using result_fields [of h0 z p n v] result_seen [of h0 z p n v]
  by (auto simp: reading_def get_mpz_def len_of_def)

lemma fails_loop: "(\<And>h. P h \<Longrightarrow> f h = None) \<Longrightarrow> fails P (loop f) No_return"
  by (simp add: fails_def loop_def)

lemma reverse_bytes_at_None:
  assumes "h_bits h0 z = Some p" "\<And>v. seen h0 p v q (l_bits a)"
    and "reverse_bytes_at G op byte z' h = Some r" "op = arg a q" "z' = z" "result h0 z p k v h" "h_mpz h Tmp1 = Some mk"
  shows "\<exists>w. reverse_bytes G (l_bits a) (l_len a) mk byte v = Some w"
  using assms(3-7)
proof (induction arbitrary: v rule: reverse_bytes_at.raw_induct [rotated, consumes 1, case_names step])
  case (step f G op byte z' h r)
  have "h_mpz h (Heap q) = Some (l_bits a)" by (rule result_seen [OF step(5) assms(1,2)])
  from reverse_step [OF step(5) assms(1) step(6) this, of G byte] obtain h1 where h1: "seq
     [mpz1 (\<lambda>z. mpz_tdiv_q_2exp G z byte) Tmp2 (Heap q),
      mpz2 (mpz_and G) Tmp2 Tmp2 Tmp1,
      on_bits z (\<lambda>p. mpz1 (\<lambda>z. mpz_mul_2exp G z 8) p p),
      on_bits z (\<lambda>p. mpz2 (mpz_ior G) p p Tmp2)] h = Inr h1"
    "result h0 z p k (mpz_ior G (mpz_mul_2exp G v 8) (mpz_and G (mpz_tdiv_q_2exp G (l_bits a) byte) mk)) h1" "h_mpz h1 Tmp1 = Some mk"
    by blast
  show ?case
  proof (cases "byte < l_len a")
    case True
    with step(2,3,4) h1(1) have "f G op (byte + 8) z' h1 = Some r" by simp
    from step(1) [OF this step(3,4) h1(2,3)] True show ?thesis by (subst reverse_bytes.simps) (simp add: Let_def)
  next
    case False
    then show ?thesis by (subst reverse_bytes.simps) simp
  qed
qed

lemma sign_extend_fails:
  assumes p: "h_bits h z = Some p" and s: "seen h p (l_bits r) q (l_bits a)" and v: "sign_extend G a n = Inl e"
  shows "fails (result h z p (l_len r) (l_bits r)) (sign_extend_at G z (arg a q) n) e"
proof (cases "l_len a \<le> mpz_get_ui G n")
  case True
  with v have e: "e = No_return" "mpz_tstbit G (l_bits a) (l_len a - 1)"
      "sign_fill G (mpz_get_ui G n - 1) (l_len a) (mpz_set G (l_bits a)) = None"
    by (auto simp: sign_extend_def Let_def of_option_def bind_res_def split: option.splits if_splits)
  have "fails (result h z p (mpz_get_ui G n) (mpz_set G (l_bits a))) (loop (sign_fill_at G (mpz_get_ui G n - 1) (l_len a) z)) e"
    unfolding e(1) using sign_fill_at_None [OF p] e(3) by (intro fails_loop) (metis not_None_eq)
  then have "fails (result h z p (mpz_get_ui G n) (l_bits r)) (seq
      [set_to G z (Heap q), reading (len_of z) (\<lambda>n. loop (sign_fill_at G (n - 1) (l_len a) z))]) e"
    by (intro fails_seq(2) [OF leaves_set_to [OF p s]] fails_seq(1) fails_reading(2) [OF p])
  with e(2) True show ?thesis
    unfolding sign_extend_at_def arg_simps
    by (intro fails_seq(2) [OF leaves_assertion] fails_seq(2) [OF leaves_set_len] fails_seq(1) fails_reading(1) [OF p s]) simp_all
next
  case False
  with v show ?thesis
    unfolding sign_extend_at_def sign_extend_def by (simp add: fails_seq(1) fails_stmt)
qed

lemma reverse_fails:
  assumes p: "h_bits h z = Some p" and s: "\<And>v. seen h p v q (l_bits a)" and v: "reverse_endianness G a = Inl e"
  shows "fails (result h z p (l_len r) (l_bits r)) (reverse_endianness_at G z (arg a q)) e"
proof -
  have n: "l_len a \<notin> {64, 32, 16, 8}" and e: "e = No_return"
      "reverse_bytes G (l_bits a) (l_len a) (mpz_set_ui G 0xff) 0 (mpz_set_ui G 0) = None"
    using v by (auto simp: reverse_endianness_def Let_def of_option_def bind_res_def split: if_splits option.splits)
  have that: "\<exists>h'. seq [put_mpz Tmp1 (mpz_set_ui G 0xff), on_bits z (\<lambda>p. put_mpz p (mpz_set_ui G 0))] h1 = Inr h' \<and>
      reverse_bytes_at G (arg a q) 0 z h' = None" if r1: "result h z p (l_len a) (l_bits r) h1" for h1
  proof -
    let ?h2 = "h1\<lparr>h_mpz := (h_mpz h1)(Tmp1 \<mapsto> mpz_set_ui G 0xff, Heap p \<mapsto> mpz_set_ui G 0)\<rparr>"
    have r2: "result h z p (l_len a) (mpz_set_ui G 0) ?h2"
      using result_put [OF result_tmp(1) [OF r1, of Tmp1 "mpz_set_ui G 0xff"], of "mpz_set_ui G 0"] by simp
    have "reverse_bytes_at G (arg a q) 0 z ?h2 = None"
    proof (cases "reverse_bytes_at G (arg a q) 0 z ?h2")
      case (Some y)
      from reverse_bytes_at_None [OF p s this refl refl r2, of "mpz_set_ui G 0xff"] e(2) show ?thesis by simp
    qed
    then show ?thesis
      using result_fields [OF r1 p] result_tmp(2) [OF r1, of Tmp1] by (auto simp: on_bits_def bits_of_def stmt_defs)
  qed
  have "fails (result h z p (l_len a) (l_bits r)) (reverse_at_length G z (arg a q) (l_len a)) e"
    unfolding fails_def e(1)
  proof (intro allI impI)
    fix h1 assume "result h z p (l_len a) (l_bits r) h1"
    from that [OF this] obtain h' where "seq [put_mpz Tmp1 (mpz_set_ui G 0xff), on_bits z (\<lambda>p. put_mpz p (mpz_set_ui G 0))] h1 = Inr h'"
        "reverse_bytes_at G (arg a q) 0 z h' = None" by blast
    then show "reverse_at_length G z (arg a q) (l_len a) h1 = Inl No_return"
      using n by (auto simp: reverse_at_length_def loop_def bind_res_Inr_iff)
  qed
  then show ?thesis
    unfolding reverse_endianness_at_def arg_simps
    by (intro fails_seq(2) [OF leaves_set_len] fails_seq(1) fails_reading(2) [OF p])
qed

lemma un_fails:
  assumes p: "h_bits h z = Some p" and s: "seen h p (l_bits r) q (l_bits a)" "op = Reverse_endianness \<Longrightarrow> \<forall>v. seen h p v q (l_bits a)"
    and v: "un_val G op a = Inl e"
  shows "fails (result h z p (l_len r) (l_bits r)) (un_at G op z (arg a q)) e"
proof (cases op)
  case (Replicate k)
  with v show ?thesis
    by (auto simp: replicate_bits_at_def replicate_bits_def Let_def check_def split: if_splits)
      (rule fails_seq(2) [OF leaves_set_len] fails_seq(2) [OF leaves_put] p fails_seq(1) fails_stmt | simp)+
next
  case Reverse_endianness
  with s(2) v show ?thesis using reverse_fails [OF p, of q a G e] by simp
qed (use v p s sign_extend_fails in \<open>auto simp: un_defs check_def fails_seq(1) fails_stmt split: if_splits\<close>)

lemma bin_fails:
  assumes v: "bin_val G op a b = Inl e"
  shows "fails P (bin_at G op z (arg a q) (arg b q')) e"
  using v by (cases op) (auto simp: bin_defs check_def fails_seq(1) fails_stmt split: if_splits)

section \<open>The calls on variables\<close>

text \<open>
  When a call computes the value function: the result is another variable than the operands, or one that the
  function allows.
\<close>

definition un_apart :: "un_op \<Rightarrow> var \<Rightarrow> var \<Rightarrow> lbits \<Rightarrow> bool" where
  "un_apart op z x a \<longleftrightarrow> un_alias op \<or> x \<noteq> z \<or> (op = Reverse_endianness \<and> l_len a \<in> {64, 32, 16, 8})"

definition bin_apart :: "bin_op \<Rightarrow> var \<Rightarrow> var \<Rightarrow> var \<Rightarrow> bool" where
  "bin_apart op z x y \<longleftrightarrow> (fst (bin_alias op) \<or> x \<noteq> z) \<and> (snd (bin_alias op) \<or> y \<noteq> z)"

definition un_call :: "gmp \<Rightarrow> un_op \<Rightarrow> var \<Rightarrow> var \<Rightarrow> stmt" where
  "un_call G op z x = reading (pass x) (un_at G op z)"

definition bin_call :: "gmp \<Rightarrow> bin_op \<Rightarrow> var \<Rightarrow> var \<Rightarrow> var \<Rightarrow> stmt" where
  "bin_call G op z x y = reading (pass x) (\<lambda>a. reading (pass y) (bin_at G op z a))"

lemma pass_eq:
  assumes "wf_heap h" "lbits_at h x = Some a" "h_bits h x = Some q"
  shows "pass x h = Inr (arg a q)"
  using live_bits [OF assms] assms(3) by (simp add: pass_def len_of_def bits_of_def arg_def)

lemma un_does:
  assumes h: "wf_heap h" "lbits_at h z = Some r" "lbits_at h x = Some a"
    and c: "un_apart op z x a" "un_val G op a = Inr v"
  shows "does (un_call G op z x) h (\<lambda>s. s\<lparr>s_lbits := (s_lbits s)(z \<mapsto> v)\<rparr>)"
proof -
  obtain p where p: "h_bits h z = Some p" using h(2) by (rule lbits_atE)
  obtain q where q: "h_bits h x = Some q" using h(3) by (rule lbits_atE)
  note s = seen_start [OF h(1,2) p h(3) q]
  have "leaves (result h z p (l_len r) (l_bits r)) (un_at G op z (arg a q)) (result h z p (l_len v) (l_bits v))"
  proof (cases "un_alias op")
    case True
    show ?thesis
    proof (cases op)
      case (Sign_extend n)
      with c(2) sign_extend_leaves [OF p s(1)] show ?thesis by simp
    qed (use un_leaves [OF p s(1) c(2) True] in \<open>simp_all\<close>)
  next
    case False
    consider "x \<noteq> z" "op \<noteq> Reverse_endianness" | "x \<noteq> z" "op = Reverse_endianness"
      | "op = Reverse_endianness" "l_len a \<in> {64, 32, 16, 8}"
      using False c(1) by (auto simp: un_apart_def)
    then show ?thesis
    proof cases
      case 1
      then show ?thesis using un_leaves_apart [OF p s(2) c(2) False] by simp
    next
      case 2
      then show ?thesis using reverse_leaves [OF p s(2)] c(2) by simp
    next
      case 3
      moreover from 3 have "l_len v = l_len a" using c(2) by (auto simp: reverse_endianness_def Let_def)
      ultimately show ?thesis
        using reverse_endianness_leaves [OF p, of "arg a q"] reverse_fixed_leaves [OF p s(1) _ 3(2)] c(2) by simp
    qed
  qed
  from leaves_does [OF h(1,2) p this] pass_eq [OF h(1,3) q] show ?thesis by (simp add: does_def un_call_def reading_def)
qed

lemma bin_does:
  assumes h: "wf_heap h" "lbits_at h z = Some r" "lbits_at h x = Some a" "lbits_at h y = Some b"
    and c: "bin_apart op z x y" "bin_val G op a b = Inr v"
  shows "does (bin_call G op z x y) h (\<lambda>s. s\<lparr>s_lbits := (s_lbits s)(z \<mapsto> v)\<rparr>)"
proof -
  obtain p where p: "h_bits h z = Some p" using h(2) by (rule lbits_atE)
  obtain q where q: "h_bits h x = Some q" using h(3) by (rule lbits_atE)
  obtain q' where q': "h_bits h y = Some q'" using h(4) by (rule lbits_atE)
  note s = seen_start [OF h(1,2) p h(3) q] and s' = seen_start [OF h(1,2) p h(4) q']
  have "leaves (result h z p (l_len r) (l_bits r)) (bin_at G op z (arg a q) (arg b q')) (result h z p (l_len v) (l_bits v))"
  proof -
    consider "op = Mults_vec" | "op \<noteq> Mults_vec" "bin_alias op = (True, True)" | "y \<noteq> z" "bin_alias op = (True, False)"
      | "x \<noteq> z" "op = Shift_right_arith"
      using c(1) by (cases op) (auto simp: bin_apart_def)
    then show ?thesis
    proof cases
      case 1
      have "h_mpz h Local1 = None" "h_mpz h Local2 = None" using h(1) by (simp_all add: wf_heap_def temps_ok_def)
      from mults_leaves [OF p s(1) s'(1) this] 1 c(2) show ?thesis by auto
    next
      case 2
      then show ?thesis using bin_leaves [OF p s(1) s'(1) c(2)] by simp
    next
      case 3
      then show ?thesis using bin_leaves_apart [OF p s(1) s'(2) c(2)] by simp
    next
      case 4
      then show ?thesis using arith_leaves [OF p s(2) s'(1) refl, where G = G] c(2) by auto
    qed
  qed
  from leaves_does [OF h(1,2) p this] pass_eq [OF h(1,3) q] pass_eq [OF h(1,4) q']
  show ?thesis by (simp add: does_def bin_call_def reading_def)
qed

lemma un_call_fails:
  assumes h: "wf_heap h" "lbits_at h z = Some r" "lbits_at h x = Some a"
    and c: "un_apart op z x a" "un_val G op a = Inl e"
  shows "un_call G op z x h = Inl e"
proof -
  obtain p where p: "h_bits h z = Some p" using h(2) by (rule lbits_atE)
  obtain q where q: "h_bits h x = Some q" using h(3) by (rule lbits_atE)
  note s = seen_start [OF h(1,2) p h(3) q]
  have "\<forall>v. seen h p v q (l_bits a)" if "op = Reverse_endianness"
    using that c s(2) by (auto simp: un_apart_def reverse_endianness_def Let_def split: if_splits)
  from un_fails [OF p s(1) this c(2)] result_start [OF h(1,2) p] pass_eq [OF h(1,3) q]
  show ?thesis by (simp add: un_call_def reading_def fails_def)
qed

lemma bin_call_fails:
  assumes h: "wf_heap h" "lbits_at h x = Some a" "lbits_at h y = Some b" and c: "bin_val G op a b = Inl e"
  shows "bin_call G op z x y h = Inl e"
proof -
  obtain q where q: "h_bits h x = Some q" using h(2) by (rule lbits_atE)
  obtain q' where q': "h_bits h y = Some q'" using h(3) by (rule lbits_atE)
  from bin_fails [OF c, of "\<lambda>h. True"] pass_eq [OF h(1,2) q] pass_eq [OF h(1,3) q']
  show ?thesis by (simp add: bin_call_def reading_def fails_def)
qed

end
