(* ===== verification/Sail_Numbers.thy ===== *)
theory Sail_Numbers
  imports Sail_Alias
begin

text \<open>
  The integer functions of \<open>lib/sail.c\<close> on the heap of \<open>Sail_Store\<close>, the functions between integers and
  bitvectors, and those that make both from machine words. An integer operand is a pointer to the variable;
  the result may be an operand of any of them.
\<close>

section \<open>The functions\<close>

definition mpz2_abort :: "(int \<Rightarrow> int \<Rightarrow> int option) \<Rightarrow> loc \<Rightarrow> loc \<Rightarrow> loc \<Rightarrow> stmt" where
  "mpz2_abort f p a b = reading (get_mpz a) (\<lambda>x. reading (get_mpz b) (\<lambda>y.
     reading (\<lambda>h. of_option Gmp_abort (f x y)) (put_mpz p)))"

definition add_int_at :: "gmp \<Rightarrow> loc \<Rightarrow> loc \<Rightarrow> loc \<Rightarrow> stmt" where
  "add_int_at G rop op1 op2 = mpz2 (mpz_add G) rop op1 op2"

definition sub_int_at :: "gmp \<Rightarrow> loc \<Rightarrow> loc \<Rightarrow> loc \<Rightarrow> stmt" where
  "sub_int_at G rop op1 op2 = mpz2 (mpz_sub G) rop op1 op2"

definition sub_nat_at :: "gmp \<Rightarrow> loc \<Rightarrow> loc \<Rightarrow> loc \<Rightarrow> stmt" where
  "sub_nat_at G rop op1 op2 = seq
     [mpz2 (mpz_sub G) rop op1 op2,
      reading (get_mpz rop) (\<lambda>z.
        if (word_of_int (mpz_cmp_ui G z 0) :: u64) < 0 then put_mpz rop (mpz_set_ui G 0) else seq [])]"

definition mult_int_at :: "gmp \<Rightarrow> loc \<Rightarrow> loc \<Rightarrow> loc \<Rightarrow> stmt" where
  "mult_int_at G rop op1 op2 = mpz2 (mpz_mul G) rop op1 op2"

definition tdiv_int_at :: "gmp \<Rightarrow> loc \<Rightarrow> loc \<Rightarrow> loc \<Rightarrow> stmt" where
  "tdiv_int_at G rop op1 op2 = mpz2_abort (mpz_tdiv_q G) rop op1 op2"

definition tmod_int_at :: "gmp \<Rightarrow> loc \<Rightarrow> loc \<Rightarrow> loc \<Rightarrow> stmt" where
  "tmod_int_at G rop op1 op2 = mpz2_abort (mpz_tdiv_r G) rop op1 op2"

definition fdiv_int_at :: "gmp \<Rightarrow> loc \<Rightarrow> loc \<Rightarrow> loc \<Rightarrow> stmt" where
  "fdiv_int_at G rop op1 op2 = mpz2_abort (mpz_fdiv_q G) rop op1 op2"

definition fmod_int_at :: "gmp \<Rightarrow> loc \<Rightarrow> loc \<Rightarrow> loc \<Rightarrow> stmt" where
  "fmod_int_at G rop op1 op2 = mpz2_abort (mpz_fdiv_r G) rop op1 op2"

definition max_int_at :: "gmp \<Rightarrow> loc \<Rightarrow> loc \<Rightarrow> loc \<Rightarrow> stmt" where
  "max_int_at G rop op1 op2 = reading (get_mpz op1) (\<lambda>x. reading (get_mpz op2) (\<lambda>y.
     if lt G x y then mpz1 (mpz_set G) rop op2 else mpz1 (mpz_set G) rop op1))"

definition min_int_at :: "gmp \<Rightarrow> loc \<Rightarrow> loc \<Rightarrow> loc \<Rightarrow> stmt" where
  "min_int_at G rop op1 op2 = reading (get_mpz op1) (\<lambda>x. reading (get_mpz op2) (\<lambda>y.
     if gt G x y then mpz1 (mpz_set G) rop op2 else mpz1 (mpz_set G) rop op1))"

definition shl_int_at :: "gmp \<Rightarrow> loc \<Rightarrow> loc \<Rightarrow> loc \<Rightarrow> stmt" where
  "shl_int_at G rop op1 op2 = mpz2 (\<lambda>x y. mpz_mul_2exp G x (mpz_get_ui G y)) rop op1 op2"

definition shr_int_at :: "gmp \<Rightarrow> loc \<Rightarrow> loc \<Rightarrow> loc \<Rightarrow> stmt" where
  "shr_int_at G rop op1 op2 = mpz2 (\<lambda>x y. mpz_fdiv_q_2exp G x (mpz_get_ui G y)) rop op1 op2"

definition undefined_range_at :: "gmp \<Rightarrow> loc \<Rightarrow> loc \<Rightarrow> loc \<Rightarrow> stmt" where
  "undefined_range_at G rop l u = mpz1 (mpz_set G) rop l"

definition neg_int_at :: "gmp \<Rightarrow> loc \<Rightarrow> loc \<Rightarrow> stmt" where
  "neg_int_at G rop op = mpz1 (mpz_neg G) rop op"

definition abs_int_at :: "gmp \<Rightarrow> loc \<Rightarrow> loc \<Rightarrow> stmt" where
  "abs_int_at G rop op = mpz1 (mpz_abs G) rop op"

definition pow_int_at :: "gmp \<Rightarrow> loc \<Rightarrow> loc \<Rightarrow> loc \<Rightarrow> stmt" where
  "pow_int_at G rop op1 op2 = reading (get_mpz op2) (\<lambda>y.
     let n = mpz_get_ui G y in mpz1 (\<lambda>x. mpz_pow_ui G x n) rop op1)"

text \<open>\<open>pow2\<close> has a local integer, its base.\<close>

definition pow2_at :: "gmp \<Rightarrow> loc \<Rightarrow> loc \<Rightarrow> stmt" where
  "pow2_at G rop ex = reading (get_mpz ex) (\<lambda>x.
     let exp_ui = mpz_get_ui G x
     in seq
       [init_mpz Local1 (mpz_set_ui G 2),
        mpz1 (\<lambda>b. mpz_pow_ui G b exp_ui) rop Local1,
        clear_mpz Local1])"

definition length_lbits_at :: "gmp \<Rightarrow> loc \<Rightarrow> lbits_arg \<Rightarrow> stmt" where
  "length_lbits_at G rop op = put_mpz rop (mpz_set_ui G (a_len op))"

definition sail_unsigned_at :: "gmp \<Rightarrow> loc \<Rightarrow> lbits_arg \<Rightarrow> stmt" where
  "sail_unsigned_at G rop op = mpz1 (mpz_set G) rop (a_bits op)"

definition get_slice_int_at :: "gmp \<Rightarrow> var \<Rightarrow> int \<Rightarrow> loc \<Rightarrow> int \<Rightarrow> stmt" where
  "get_slice_int_at G rop len_mpz n start_mpz =
     (let start = mpz_get_ui G start_mpz; k = mpz_get_ui G len_mpz
      in seq
        [on_bits rop (\<lambda>p. put_mpz p (mpz_set_ui G 0)),
         set_len rop k,
         copy_bits_at G n start k rop])"

definition set_slice_int_at :: "gmp \<Rightarrow> loc \<Rightarrow> int \<Rightarrow> loc \<Rightarrow> int \<Rightarrow> lbits_arg \<Rightarrow> stmt" where
  "set_slice_int_at G rop len_mpz n start_mpz src =
     (let start = mpz_get_ui G start_mpz
      in seq
        [mpz1 (mpz_set G) rop n,
         for_up_res 0 (unat (a_len src)) (\<lambda>i. reading (get_mpz (a_bits src)) (\<lambda>s.
           if mpz_tstbit G s (of_nat i)
           then mpz1 (\<lambda>z. mpz_setbit G z (of_nat i + start)) rop rop
           else mpz1 (\<lambda>z. mpz_clrbit G z (of_nat i + start)) rop rop))])"

section \<open>Numbers and bitvectors from machine words\<close>

definition create_sail_int_of_mach_int_at :: "gmp \<Rightarrow> var \<Rightarrow> i64 \<Rightarrow> stmt" where
  "create_sail_int_of_mach_int_at G rop op = init_mpz (Var rop) (mpz_set_si G op)"

definition recreate_sail_int_of_mach_int_at :: "gmp \<Rightarrow> var \<Rightarrow> i64 \<Rightarrow> stmt" where
  "recreate_sail_int_of_mach_int_at G rop op = put_mpz (Var rop) (mpz_set_si G op)"

definition convert_sail_int_of_mach_int_at :: "gmp \<Rightarrow> var \<Rightarrow> i64 \<Rightarrow> stmt" where
  "convert_sail_int_of_mach_int_at G rop op = put_mpz (Var rop) (mpz_set_si G op)"

definition create_lbits_of_fbits_at :: "gmp \<Rightarrow> var \<Rightarrow> fbits \<Rightarrow> u64 \<Rightarrow> bool \<Rightarrow> stmt" where
  "create_lbits_of_fbits_at G rop op n direction = seq
     [malloc (set_bits rop),
      set_len rop n,
      on_bits rop (\<lambda>p. init_mpz p (mpz_set_ui G op))]"

definition recreate_lbits_of_fbits_at :: "gmp \<Rightarrow> var \<Rightarrow> fbits \<Rightarrow> u64 \<Rightarrow> bool \<Rightarrow> stmt" where
  "recreate_lbits_of_fbits_at G rop op n direction = seq
     [set_len rop n,
      on_bits rop (\<lambda>p. put_mpz p (mpz_set_ui G op))]"

definition create_lbits_of_sbits_at :: "gmp \<Rightarrow> var \<Rightarrow> sbits \<Rightarrow> bool \<Rightarrow> stmt" where
  "create_lbits_of_sbits_at G rop op direction = seq
     [malloc (set_bits rop),
      set_len rop (s_len op),
      on_bits rop (\<lambda>p. init_mpz p (mpz_set_ui G (s_bits op)))]"

definition recreate_lbits_of_sbits_at :: "gmp \<Rightarrow> var \<Rightarrow> sbits \<Rightarrow> bool \<Rightarrow> stmt" where
  "recreate_lbits_of_sbits_at G rop op direction = seq
     [set_len rop (s_len op),
      on_bits rop (\<lambda>p. put_mpz p (mpz_set_ui G (s_bits op)))]"

definition convert_lbits_of_fbits_at :: "gmp \<Rightarrow> var \<Rightarrow> fbits \<Rightarrow> u64 \<Rightarrow> bool \<Rightarrow> stmt" where
  "convert_lbits_of_fbits_at G rop op n direction = seq
     [set_len rop n,
      on_bits rop (\<lambda>p. put_mpz p (mpz_set_ui G (op AND safe_rshift uint64_max (64 - n))))]"

definition convert_lbits_of_sbits_at :: "gmp \<Rightarrow> var \<Rightarrow> sbits \<Rightarrow> bool \<Rightarrow> stmt" where
  "convert_lbits_of_sbits_at G rop op direction = seq
     [set_len rop (s_len op),
      on_bits rop (\<lambda>p. put_mpz p (mpz_set_ui G (s_bits op AND safe_rshift uint64_max (64 - s_len op))))]"

definition undefined_lbits_at :: "gmp \<Rightarrow> var \<Rightarrow> int \<Rightarrow> fbits \<Rightarrow> stmt" where
  "undefined_lbits_at G rop n b = zeros_at G rop n"

section \<open>Calls\<close>

datatype int_un = Neg_int | Abs_int | Pow2

datatype int_bin =
    Add_int | Sub_int | Sub_nat | Mult_int | Tdiv_int | Tmod_int | Fdiv_int | Fmod_int | Max_int | Min_int
  | Shl_int | Shr_int | Pow_int | Undefined_range

text \<open>A machine word with its length, given as a fixed-width or a small bitvector, and \<open>zeros\<close>.\<close>

datatype new_lbits = Of_fbits fbits u64 | Of_sbits sbits

datatype set_lbits =
    Recreate_of new_lbits | Convert_of new_lbits | Zeros int | Undefined_lbits int fbits

datatype bits_to_int = Length_lbits | Sail_unsigned | Sail_signed

fun int_un_at :: "gmp \<Rightarrow> int_un \<Rightarrow> loc \<Rightarrow> loc \<Rightarrow> stmt" where
  "int_un_at G Neg_int z a = neg_int_at G z a"
| "int_un_at G Abs_int z a = abs_int_at G z a"
| "int_un_at G Pow2 z a = pow2_at G z a"

fun int_un_val :: "gmp \<Rightarrow> int_un \<Rightarrow> int \<Rightarrow> int" where
  "int_un_val G Neg_int a = neg_int G a"
| "int_un_val G Abs_int a = abs_int G a"
| "int_un_val G Pow2 a = pow2 G a"

fun int_bin_at :: "gmp \<Rightarrow> int_bin \<Rightarrow> loc \<Rightarrow> loc \<Rightarrow> loc \<Rightarrow> stmt" where
  "int_bin_at G Add_int z a b = add_int_at G z a b"
| "int_bin_at G Sub_int z a b = sub_int_at G z a b"
| "int_bin_at G Sub_nat z a b = sub_nat_at G z a b"
| "int_bin_at G Mult_int z a b = mult_int_at G z a b"
| "int_bin_at G Tdiv_int z a b = tdiv_int_at G z a b"
| "int_bin_at G Tmod_int z a b = tmod_int_at G z a b"
| "int_bin_at G Fdiv_int z a b = fdiv_int_at G z a b"
| "int_bin_at G Fmod_int z a b = fmod_int_at G z a b"
| "int_bin_at G Max_int z a b = max_int_at G z a b"
| "int_bin_at G Min_int z a b = min_int_at G z a b"
| "int_bin_at G Shl_int z a b = shl_int_at G z a b"
| "int_bin_at G Shr_int z a b = shr_int_at G z a b"
| "int_bin_at G Pow_int z a b = pow_int_at G z a b"
| "int_bin_at G Undefined_range z a b = undefined_range_at G z a b"

fun int_bin_val :: "gmp \<Rightarrow> int_bin \<Rightarrow> int \<Rightarrow> int \<Rightarrow> int res" where
  "int_bin_val G Add_int a b = Inr (add_int G a b)"
| "int_bin_val G Sub_int a b = Inr (sub_int G a b)"
| "int_bin_val G Sub_nat a b = Inr (sub_nat G a b)"
| "int_bin_val G Mult_int a b = Inr (mult_int G a b)"
| "int_bin_val G Tdiv_int a b = tdiv_int G a b"
| "int_bin_val G Tmod_int a b = tmod_int G a b"
| "int_bin_val G Fdiv_int a b = fdiv_int G a b"
| "int_bin_val G Fmod_int a b = fmod_int G a b"
| "int_bin_val G Max_int a b = Inr (max_int G a b)"
| "int_bin_val G Min_int a b = Inr (min_int G a b)"
| "int_bin_val G Shl_int a b = Inr (shl_int G a b)"
| "int_bin_val G Shr_int a b = Inr (shr_int G a b)"
| "int_bin_val G Pow_int a b = Inr (pow_int G a b)"
| "int_bin_val G Undefined_range a b = Inr (undefined_range G a b)"

fun bits_to_int_at :: "gmp \<Rightarrow> bits_to_int \<Rightarrow> loc \<Rightarrow> lbits_arg \<Rightarrow> stmt" where
  "bits_to_int_at G Length_lbits z a = length_lbits_at G z a"
| "bits_to_int_at G Sail_unsigned z a = sail_unsigned_at G z a"
| "bits_to_int_at G Sail_signed z a = sail_signed_at G z a"

fun bits_to_int_val :: "gmp \<Rightarrow> bits_to_int \<Rightarrow> lbits \<Rightarrow> int" where
  "bits_to_int_val G Length_lbits a = length_lbits G a"
| "bits_to_int_val G Sail_unsigned a = sail_unsigned G a"
| "bits_to_int_val G Sail_signed a = sail_signed G a"

fun new_lbits_at :: "gmp \<Rightarrow> new_lbits \<Rightarrow> var \<Rightarrow> stmt" where
  "new_lbits_at G (Of_fbits op n) z = create_lbits_of_fbits_at G z op n True"
| "new_lbits_at G (Of_sbits op) z = create_lbits_of_sbits_at G z op True"

fun new_lbits_val :: "gmp \<Rightarrow> new_lbits \<Rightarrow> lbits" where
  "new_lbits_val G (Of_fbits op n) = create_lbits_of_fbits G op n True"
| "new_lbits_val G (Of_sbits op) = create_lbits_of_sbits G op True"

fun set_lbits_at :: "gmp \<Rightarrow> set_lbits \<Rightarrow> var \<Rightarrow> stmt" where
  "set_lbits_at G (Recreate_of (Of_fbits op n)) z = recreate_lbits_of_fbits_at G z op n True"
| "set_lbits_at G (Recreate_of (Of_sbits op)) z = recreate_lbits_of_sbits_at G z op True"
| "set_lbits_at G (Convert_of (Of_fbits op n)) z = convert_lbits_of_fbits_at G z op n True"
| "set_lbits_at G (Convert_of (Of_sbits op)) z = convert_lbits_of_sbits_at G z op True"
| "set_lbits_at G (Zeros n) z = zeros_at G z n"
| "set_lbits_at G (Undefined_lbits n b) z = undefined_lbits_at G z n b"

fun set_lbits_val :: "gmp \<Rightarrow> set_lbits \<Rightarrow> lbits" where
  "set_lbits_val G (Recreate_of (Of_fbits op n)) = recreate_lbits_of_fbits G op n True"
| "set_lbits_val G (Recreate_of (Of_sbits op)) = recreate_lbits_of_sbits G op True"
| "set_lbits_val G (Convert_of (Of_fbits op n)) = convert_lbits_of_fbits G op n True"
| "set_lbits_val G (Convert_of (Of_sbits op)) = convert_lbits_of_sbits G op True"
| "set_lbits_val G (Zeros n) = zeros G n"
| "set_lbits_val G (Undefined_lbits n b) = undefined_lbits G n b"

section \<open>What the calls do\<close>

text \<open>\<open>int_result h0 z v\<close>: the heap is \<open>h0\<close>, except that the integer \<open>z\<close> is \<open>v\<close> and for the temporaries.\<close>

definition int_result :: "heap \<Rightarrow> var \<Rightarrow> int \<Rightarrow> heap \<Rightarrow> bool" where
  "int_result h0 z v h \<longleftrightarrow> (\<exists>m. h = h0\<lparr>h_mpz := m\<rparr> \<and> scratch_only ((h_mpz h0)(Var z \<mapsto> v)) m)"

lemma int_result_start: "wf_heap h \<Longrightarrow> h_mpz h (Var z) = Some v \<Longrightarrow> int_result h z v h"
  unfolding int_result_def by (intro exI [of _ "h_mpz h"]) (auto simp: scratch_only_def wf_heap_def temps_ok_def)

lemma int_result_fields:
  assumes "int_result h0 z v h"
  shows "h_mpz h (Var z) = Some v" "x \<noteq> z \<Longrightarrow> h_mpz h (Var x) = h_mpz h0 (Var x)" "h_mpz h (Heap q) = h_mpz h0 (Heap q)"
    "h_mpz h Local1 = h_mpz h0 Local1" "h_mpz h Tmp1 \<noteq> None"
  using assms by (auto simp: int_result_def scratch_only_def)

lemma int_result_put: "int_result h0 z v h \<Longrightarrow> int_result h0 z w (h\<lparr>h_mpz := (h_mpz h)(Var z \<mapsto> w)\<rparr>)"
  by (auto simp: int_result_def scratch_only_def intro!: exI [of _ "(h_mpz h)(Var z \<mapsto> w)"])

lemma leaves_int_put: "leaves (int_result h0 z v) (put_mpz (Var z) w) (int_result h0 z w)"
  unfolding leaves_def using int_result_fields(1) int_result_put by (fastforce simp: put_mpz_def)

lemma leaves_int_own: "leaves (int_result h0 z v) (mpz1 f (Var z) (Var z)) (int_result h0 z (f v))"
  unfolding leaves_def using int_result_fields(1) int_result_put by (fastforce simp: stmt_defs)

lemma int_leaves_does:
  assumes h: "wf_heap h" "h_mpz h (Var z) = Some v" and s: "leaves (int_result h z v) s (int_result h z w)"
  shows "does s h (\<lambda>st. st\<lparr>s_ints := (s_ints st)(z \<mapsto> w)\<rparr>)"
proof -
  obtain m where m: "s h = Inr (h\<lparr>h_mpz := m\<rparr>)" "scratch_only ((h_mpz h)(Var z \<mapsto> w)) m"
    using s int_result_start [OF h] by (auto simp: leaves_def int_result_def)
  let ?h = "h\<lparr>h_mpz := m\<rparr>"
  have k: "m (Heap q) = h_mpz h (Heap q)" "m (Var x) = (if x = z then Some w else h_mpz h (Var x))" for q x
    using m(2) by (auto simp: scratch_only_def)
  have at: "lbits_at ?h = lbits_at h" "string_at ?h = string_at h"
    by (rule lbits_at_cong string_at_cong; simp add: k)+
  moreover have "owned_bits ?h = owned_bits h" "owned_str ?h = owned_str h"
    using at by (simp_all add: owned_bits_def owned_str_def)
  moreover have "temps_ok ?h" using m(2) h(1) by (auto simp: scratch_only_def wf_heap_def temps_ok_def)
  ultimately have "wf_heap ?h" using h(1) k by (simp add: wf_heap_def pointers_ok_def blocks_ok_def)
  with m(1) at k(2) show ?thesis by (auto simp: does_def store_of_def fun_eq_iff)
qed

text \<open>Functions that write their result once.\<close>

lemma int_put_does:
  assumes "wf_heap h" "h_mpz h (Var z) \<noteq> None" "c h = put_mpz (Var z) w h"
  shows "does c h (\<lambda>st. st\<lparr>s_ints := (s_ints st)(z \<mapsto> w)\<rparr>)"
proof -
  obtain v where v: "h_mpz h (Var z) = Some v" using assms(2) by blast
  from int_leaves_does [OF assms(1) v leaves_int_put] assms(3) show ?thesis by (simp add: does_def)
qed

lemma pow2_does:
  assumes "wf_heap h" "h_mpz h (Var z) \<noteq> None" "h_mpz h (Var x) = Some a"
  shows "does (pow2_at G (Var z) (Var x)) h (\<lambda>st. st\<lparr>s_ints := (s_ints st)(z \<mapsto> pow2 G a)\<rparr>)"
proof (rule int_put_does [OF assms(1,2)])
  have "h_mpz h Local1 = None" using assms(1) by (simp add: wf_heap_def temps_ok_def)
  then have "(h_mpz h)(Var z \<mapsto> w, Local1 := None) = (h_mpz h)(Var z \<mapsto> w)" for w by auto
  with \<open>h_mpz h Local1 = None\<close> assms(2,3) show "pow2_at G (Var z) (Var x) h = put_mpz (Var z) (pow2 G a) h"
    by (simp add: pow2_at_def pow2_def stmt_defs Let_def fun_upd_twist)
qed

lemma int_un_does:
  assumes "wf_heap h" "h_mpz h (Var z) \<noteq> None" "h_mpz h (Var x) = Some a"
  shows "does (int_un_at G op (Var z) (Var x)) h (\<lambda>st. st\<lparr>s_ints := (s_ints st)(z \<mapsto> int_un_val G op a)\<rparr>)"
proof (cases op)
  case Pow2
  with pow2_does [OF assms] show ?thesis by simp
qed (use assms(3) in \<open>auto intro!: int_put_does [OF assms(1,2)]
    simp: neg_int_at_def abs_int_at_def neg_int_def abs_int_def mpz1_def reading_def get_mpz_def\<close>)

lemma sub_nat_does:
  assumes "wf_heap h" "h_mpz h (Var z) \<noteq> None" "h_mpz h (Var x) = Some a" "h_mpz h (Var y) = Some b"
  shows "sub_nat_at G (Var z) (Var x) (Var y) h = put_mpz (Var z) (sub_nat G a b) h"
  using assms(2-4) by (auto simp: sub_nat_at_def sub_nat_def stmt_defs Let_def)

lemmas int_bin_defs = add_int_at_def sub_int_at_def mult_int_at_def tdiv_int_at_def tmod_int_at_def fdiv_int_at_def fmod_int_at_def
  max_int_at_def min_int_at_def shl_int_at_def shr_int_at_def pow_int_at_def undefined_range_at_def
  add_int_def sub_int_def mult_int_def tdiv_int_def tmod_int_def fdiv_int_def fmod_int_def max_int_def min_int_def
  shl_int_def shr_int_def pow_int_def undefined_range_def

lemma int_bin_eq:
  assumes "wf_heap h" "h_mpz h (Var z) \<noteq> None" "h_mpz h (Var x) = Some a" "h_mpz h (Var y) = Some b"
  shows "int_bin_at G op (Var z) (Var x) (Var y) h = bind_res (int_bin_val G op a b) (\<lambda>w. put_mpz (Var z) w h)"
  using sub_nat_does [OF assms] assms(3,4)
  by (cases op) (simp_all add: int_bin_defs mpz2_abort_def mpz1_def mpz2_def reading_def get_mpz_def Let_def)

lemma bits_to_int_does:
  assumes "wf_heap h" "h_mpz h (Var z) \<noteq> None" "lbits_at h x = Some a"
  shows "does (reading (pass x) (bits_to_int_at G f (Var z))) h (\<lambda>st. st\<lparr>s_ints := (s_ints st)(z \<mapsto> bits_to_int_val G f a)\<rparr>)"
proof -
  obtain q where q: "h_bits h x = Some q" using assms(3) by (rule lbits_atE)
  note p = pass_eq [OF assms(1,3) q] and b = live_bits(3) [OF assms(1,3) q]
  show ?thesis
  proof (cases f)
    case Sail_signed
    obtain v where v: "h_mpz h (Var z) = Some v" using assms(2) by blast
    have "leaves (int_result h z v) (sail_signed_at G (Var z) (arg a q)) (int_result h z (sail_signed G a))"
      unfolding leaves_def
    proof (intro allI impI)
      fix h1 assume r: "int_result h z v h1"
      then obtain t where t: "sail_signed_at G (Var z) (arg a q) h1 = Inr (h1\<lparr>h_mpz := (h_mpz h1)(Tmp1 \<mapsto> t, Var z \<mapsto> sail_signed G a)\<rparr>)"
        using sail_signed_at_eq [of h1 q a "Var z" G] int_result_fields [OF r] b by auto
      moreover have "int_result h z (sail_signed G a) (h1\<lparr>h_mpz := (h_mpz h1)(Tmp1 \<mapsto> t, Var z \<mapsto> sail_signed G a)\<rparr>)"
        using r by (auto simp: int_result_def scratch_only_def intro!: exI [of _ "(h_mpz h1)(Tmp1 \<mapsto> t, Var z \<mapsto> sail_signed G a)"])
      ultimately show "\<exists>h'. sail_signed_at G (Var z) (arg a q) h1 = Inr h' \<and> int_result h z (sail_signed G a) h'" by blast
    qed
    from int_leaves_does [OF assms(1) v this] Sail_signed p show ?thesis by (simp add: does_def reading_def)
  qed (use p b in \<open>auto intro!: int_put_does [OF assms(1,2)]
      simp: length_lbits_at_def sail_unsigned_at_def length_lbits_def sail_unsigned_def mpz1_def reading_def get_mpz_def\<close>)
qed

lemma get_slice_int_does:
  assumes "wf_heap h" "lbits_at h z = Some r" "h_mpz h (Var x) = Some n"
  shows "does (get_slice_int_at G z k (Var x) s) h (\<lambda>st. st\<lparr>s_lbits := (s_lbits st)(z \<mapsto> get_slice_int G k n s)\<rparr>)"
proof -
  obtain p where p: "h_bits h z = Some p" using assms(2) by (rule lbits_atE)
  have v: "h_mpz h1 (Var x) = Some n" if "result h z p l v h1" for l v h1
    using that assms(3) by (auto simp: result_def scratch_only_def)
  have var: "leaves (result h z p l v) (reading (get_mpz (Var x)) c) Q" if "leaves (result h z p l v) (c n) Q" for l v c Q
    using that unfolding leaves_def by (auto simp: reading_def get_mpz_def v)
  have "leaves (result h z p (l_len r) (l_bits r)) (get_slice_int_at G z k (Var x) s)
      (result h z p (l_len (get_slice_int G k n s)) (l_bits (get_slice_int G k n s)))"
    unfolding get_slice_int_at_def get_slice_int_def copy_bits_at_def copy_bits_def Let_def lbits.select_convs
    by (rule var build p)+
  from leaves_does [OF assms(1,2) p this] show ?thesis .
qed

lemma set_slice_int_does:
  assumes "wf_heap h" "h_mpz h (Var z) \<noteq> None" "h_mpz h (Var x) = Some n" "lbits_at h y = Some b"
  shows "does (reading (pass y) (set_slice_int_at G (Var z) k (Var x) s)) h
    (\<lambda>st. st\<lparr>s_ints := (s_ints st)(z \<mapsto> set_slice_int G k n s b)\<rparr>)"
proof -
  obtain q where q: "h_bits h y = Some q" using assms(4) by (rule lbits_atE)
  note p = pass_eq [OF assms(1,4) q] and b = live_bits(3) [OF assms(1,4) q]
  obtain v where v: "h_mpz h (Var z) = Some v" using assms(2) by blast
  have get: "leaves (int_result h z w) (reading (get_mpz (Heap q)) c) Q" if "leaves (int_result h z w) (c (l_bits b)) Q" for w c Q
    using that b int_result_fields(3) by (fastforce simp: leaves_def reading_def get_mpz_def)
  have if': "leaves (int_result h z w) (if t then c else d) (int_result h z (if t then u else u'))"
    if "leaves (int_result h z w) c (int_result h z u)" "leaves (int_result h z w) d (int_result h z u')" for t c d w u u'
    using that by simp
  have copy: "leaves (int_result h z v) (mpz1 (mpz_set G) (Var z) (Var x)) (int_result h z (mpz_set G n))"
    using assms(3) v int_result_fields(1,2) int_result_put unfolding leaves_def
    by (cases "x = z") (fastforce simp: stmt_defs)+
  have "leaves (int_result h z w) (for_up_res 0 l (\<lambda>i. reading (get_mpz (Heap q)) (\<lambda>s'.
           if mpz_tstbit G s' (of_nat i)
           then mpz1 (\<lambda>z. mpz_setbit G z (of_nat i + st)) (Var z) (Var z)
           else mpz1 (\<lambda>z. mpz_clrbit G z (of_nat i + st)) (Var z) (Var z))))
      (int_result h z (for_up 0 l (\<lambda>i z. if mpz_tstbit G (l_bits b) (of_nat i) then mpz_setbit G z (of_nat i + st)
              else mpz_clrbit G z (of_nat i + st)) w))" for w l st
    by (rule leaves_loop_gen) (rule get, rule if'; rule leaves_int_own)
  then have "leaves (int_result h z v) (set_slice_int_at G (Var z) k (Var x) s (arg b q)) (int_result h z (set_slice_int G k n s b))"
    unfolding set_slice_int_at_def set_slice_int_def paste_bits_def Let_def arg_simps
    by (intro leaves_seq(2) [OF copy] leaves_seq(2) [OF _ leaves_seq(1)])
  from int_leaves_does [OF assms(1) v this] p show ?thesis by (simp add: does_def reading_def)
qed

text \<open>Machine words.\<close>

lemma create_int_does:
  assumes "wf_heap h" "h_mpz h (Var z) = None"
  shows "does (create_sail_int_of_mach_int_at G z w) h (\<lambda>st. st\<lparr>s_ints := (s_ints st)(z \<mapsto> create_sail_int_of_mach_int G w)\<rparr>)"
  using assms by (auto simp: does_def create_sail_int_of_mach_int_at_def create_sail_int_of_mach_int_def stmt_defs update_int)

lemma convert_int_does:
  assumes "wf_heap h" "h_mpz h (Var z) \<noteq> None"
  shows "does (convert_sail_int_of_mach_int_at G z w) h (\<lambda>st. st\<lparr>s_ints := (s_ints st)(z \<mapsto> convert_sail_int_of_mach_int G w)\<rparr>)"
    "does (recreate_sail_int_of_mach_int_at G z w) h (\<lambda>st. st\<lparr>s_ints := (s_ints st)(z \<mapsto> recreate_sail_int_of_mach_int G w)\<rparr>)"
  by (rule int_put_does [OF assms]; simp add: convert_sail_int_of_mach_int_at_def convert_sail_int_of_mach_int_def
      recreate_sail_int_of_mach_int_at_def recreate_sail_int_of_mach_int_def)+

lemma new_lbits_does:
  assumes "wf_heap h" "lbits_at h z = None"
  shows "does (new_lbits_at G c z) h (\<lambda>st. st\<lparr>s_lbits := (s_lbits st)(z \<mapsto> new_lbits_val G c)\<rparr>)"
  using alloc_lbits [OF assms refl, of "new_lbits_val G c"] fresh_mpz [OF assms(1)]
  by (cases c; intro doesI) (auto simp: create_lbits_of_fbits_at_def create_lbits_of_fbits_def create_lbits_of_sbits_at_def
      create_lbits_of_sbits_def field_defs stmt_defs)

lemma leaves_set_lbits:
  assumes "h_bits h z = Some p"
  shows "leaves (result h z p n v) (set_lbits_at G c z) (result h z p (l_len (set_lbits_val G c)) (l_bits (set_lbits_val G c)))"
  using assms
  by (induction G c z rule: set_lbits_at.induct)
    (simp only: set_lbits_at.simps set_lbits_val.simps recreate_lbits_of_fbits_at_def recreate_lbits_of_fbits_def
      recreate_lbits_of_sbits_at_def recreate_lbits_of_sbits_def convert_lbits_of_fbits_at_def convert_lbits_of_fbits_def
      convert_lbits_of_sbits_at_def convert_lbits_of_sbits_def zeros_at_def zeros_def undefined_lbits_at_def undefined_lbits_def
      lbits.select_convs; (rule build | assumption)+)+

lemma set_lbits_does:
  assumes "wf_heap h" "lbits_at h z = Some r"
  shows "does (set_lbits_at G c z) h (\<lambda>st. st\<lparr>s_lbits := (s_lbits st)(z \<mapsto> set_lbits_val G c)\<rparr>)"
proof -
  obtain p where p: "h_bits h z = Some p" using assms(2) by (rule lbits_atE)
  from leaves_does [OF assms p leaves_set_lbits [OF p]] show ?thesis .
qed

end
