(* ===== verification/Sail_Strings.thy ===== *)
theory Sail_Strings
  imports Sail_Numbers
begin

text \<open>
  The string functions of \<open>lib/sail.c\<close> that return a string or the length of one, on the heap of
  \<open>Sail_Store\<close>. A string operand is passed by value, as the pointer its variable holds; the result is a
  pointer to a variable, whose block is moved by \<open>realloc\<close> or freed.
\<close>

section \<open>The functions\<close>

text \<open>\<open>gmp_asprintf\<close> stores the pointer to a new block with the text.\<close>

definition asprintf :: "var \<Rightarrow> string \<Rightarrow> stmt" where
  "asprintf str s = malloc_chars (length s + 1) (\<lambda>p. seq [put_string p 0 s, set_str str p])"

definition dec_str_at :: "gmp_text \<Rightarrow> var \<Rightarrow> loc \<Rightarrow> stmt" where
  "dec_str_at T str n = seq
     [reading (str_of str) free_block,
      reading (get_mpz n) (\<lambda>z. asprintf str (fmt_Zd T z))]"

definition string_of_int_at :: "gmp_text \<Rightarrow> var \<Rightarrow> loc \<Rightarrow> stmt" where
  "string_of_int_at T str i = seq
     [reading (str_of str) free_block,
      reading (get_mpz i) (\<lambda>z. asprintf str (fmt_Zd T z))]"

definition string_length_at :: "gmp \<Rightarrow> loc \<Rightarrow> addr \<Rightarrow> stmt" where
  "string_length_at G len s = reading (get_string s) (\<lambda>t. put_mpz len (mpz_set_ui G (of_nat (length t))))"

text \<open>\<open>memcpy\<close> of \<open>k\<close> characters from the offset \<open>off\<close> of one block to the start of another.\<close>

definition memcpy :: "addr \<Rightarrow> addr \<Rightarrow> nat \<Rightarrow> nat \<Rightarrow> stmt" where
  "memcpy p q off k = reading (get_chars q) (\<lambda>ds. reading (get_chars p) (\<lambda>cs. seq
     [require (p \<noteq> q \<and> off + k \<le> length ds \<and> k \<le> length cs),
      \<lambda>h. Inr (h\<lparr>h_chars := (h_chars h)(p \<mapsto> take k (drop off ds) @ drop k cs)\<rparr>)]))"

definition string_drop_at :: "gmp \<Rightarrow> var \<Rightarrow> addr \<Rightarrow> int \<Rightarrow> stmt" where
  "string_drop_at G dst s ns = reading (get_string s) (\<lambda>t.
     let len = (of_nat (length t) :: u64); n = create_mach_int_of_sail_int G ns
     in if len \<ge> n then seq
          [reading (str_of dst) (\<lambda>p. realloc p (unat (len - n) + 1) (set_str dst)),
           reading (str_of dst) (\<lambda>p. memcpy p s (unat n) (unat (len - n))),
           reading (str_of dst) (\<lambda>p. put_char p (unat (len - n)) nul)]
        else seq
          [reading (str_of dst) (\<lambda>p. realloc p 1 (set_str dst)),
           reading (str_of dst) (\<lambda>p. put_char p 0 nul)])"

text \<open>
  The last statement of \<open>string_take\<close>, \<open>*dst[to_copy] = 0\<close>, indexes the pointer to the variable and not the
  string.
\<close>

definition string_take_at :: "gmp \<Rightarrow> var \<Rightarrow> addr \<Rightarrow> int \<Rightarrow> stmt" where
  "string_take_at G dst s ns = reading (get_string s) (\<lambda>t.
     let len = (of_nat (length t) :: u64); n = create_mach_int_of_sail_int G ns;
         to_copy = (if len \<le> n then len else n)
     in seq
       [reading (str_of dst) (\<lambda>p. realloc p (unat to_copy + 1) (set_str dst)),
        reading (str_of dst) (\<lambda>p. memcpy p s 0 (unat to_copy)),
        require (to_copy = 0),
        reading (str_of dst) (\<lambda>p. put_char p 0 nul)])"

section \<open>Concatenation of strings\<close>

text \<open>The block of a live string is replaced by a new one of a given size.\<close>

definition moved :: "heap \<Rightarrow> var \<Rightarrow> addr \<Rightarrow> char option list \<Rightarrow> heap" where
  "moved h z p buf = h\<lparr>h_chars := (h_chars h)(p := None, h_next h \<mapsto> buf), h_str := (h_str h)(z \<mapsto> h_next h),
     h_live := insert (h_next h) (h_live h - {p}), h_next := Suc (h_next h)\<rparr>"

lemma moved_simps [simp]:
  "h_str (moved h z p buf) = (h_str h)(z \<mapsto> h_next h)"
  "h_chars (moved h z p buf) = (h_chars h)(p := None, h_next h \<mapsto> buf)"
  "(moved h z p buf)\<lparr>h_chars := (h_chars h)(p := None, h_next h \<mapsto> buf')\<rparr> = moved h z p buf'"
  by (simp_all add: moved_def)

lemma realloc_moves:
  assumes "h_str h z = Some p" "h_chars h p = Some cs" "h_mpz h (Heap p) = None" "p \<in> h_live h" "p < h_next h"
  obtains buf where "length buf = n" "reading (str_of z) (\<lambda>p. realloc p n (set_str z)) h = Inr (moved h z p buf)"
proof
  have [simp]: "(h_mpz h)(Heap p := None) = h_mpz h" using assms(3) by auto
  show "length (take n cs @ replicate (n - length cs) None) = n" by simp
  show "reading (str_of z) (\<lambda>p. realloc p n (set_str z)) h = Inr (moved h z p (take n cs @ replicate (n - length cs) None))"
    using assms by (simp add: string_defs stmt_defs moved_def fun_upd_twist insert_Diff_if)
qed

lemma moved_does:
  assumes "wf_heap h" "string_at h z = Some r" "h_str h z = Some p" "nul \<notin> set s"
  shows "wf_heap (moved h z p (map Some s @ [Some nul])) \<and>
    store_of (moved h z p (map Some s @ [Some nul])) = store_of h\<lparr>s_strings := (s_strings (store_of h))(z \<mapsto> s)\<rparr>"
  unfolding moved_def by (rule new_string [where D = "{p}" and cs = "[]"]) (use assms in auto)

lemma concat_does:
  assumes h: "wf_heap h" "string_at h z = Some r" "string_at h x = Some s" "string_at h y = Some t" and d: "x \<noteq> z" "y \<noteq> z"
  shows "does (reading (str_of x) (\<lambda>p. reading (str_of y) (concat_str_at z p))) h
    (\<lambda>st. st\<lparr>s_strings := (s_strings st)(z \<mapsto> s @ t)\<rparr>)"
proof (rule live_string [OF h(1,2)], rule live_string [OF h(1,3)], rule live_string [OF h(1,4)])
  fix p cs q ds q' es
  assume p: "h_str h z = Some p" "h_chars h p = Some cs" "h_mpz h (Heap p) = None" "p \<in> h_live h" "p < h_next h"
    and q: "h_str h x = Some q" "h_chars h q = Some ds" "chars_text ds = Inr s" "nul \<notin> set s" "q < h_next h"
    and q': "h_str h y = Some q'" "h_chars h q' = Some es" "chars_text es = Inr t" "nul \<notin> set t" "q' < h_next h"
  have n: "p \<noteq> q" "p \<noteq> q'" using h(1) d p(1) q(1) q'(1) by (auto simp: wf_heap_def pointers_ok_def)
  obtain buf where buf: "length buf = Suc (length s + length t)"
      "reading (str_of z) (\<lambda>p. realloc p (Suc (length s + length t)) (set_str z)) h = Inr (moved h z p buf)"
    using realloc_moves [OF p] by blast
  then obtain b bs where "buf = b # bs" "length bs = length s + length t" by (auto simp: length_Suc_conv)
  with buf(2) p q q' n chars_text_Some [of s] have
    "reading (str_of x) (\<lambda>p. reading (str_of y) (concat_str_at z p)) h = Inr (moved h z p (map Some (s @ t) @ [Some nul]))"
    by (simp add: concat_str_at_def str_of_def put_char_def get_chars_def strcat_def put_string_def get_string_def stmt_defs Let_def)
  then show ?thesis using moved_does [OF h(1,2) p(1), of "s @ t"] q(4) q'(4) by (intro doesI) auto
qed

lemma concat_shared:
  assumes h: "wf_heap h" "string_at h z = Some r" "string_at h x = Some s" "string_at h y = Some t" and d: "x = z \<or> y = z"
  shows "reading (str_of x) (\<lambda>p. reading (str_of y) (concat_str_at z p)) h = Inl Undefined_behaviour"
proof (rule live_string [OF h(1,2)], rule live_string [OF h(1,3)], rule live_string [OF h(1,4)])
  fix p cs q ds q' es
  assume p: "h_str h z = Some p" "h_chars h p = Some cs" "h_mpz h (Heap p) = None" "p \<in> h_live h" "p < h_next h"
    and q: "h_str h x = Some q" "h_chars h q = Some ds" "chars_text ds = Inr s" "nul \<notin> set s" "q < h_next h"
    and q': "h_str h y = Some q'" "h_chars h q' = Some es" "chars_text es = Inr t" "nul \<notin> set t" "q' < h_next h"
  obtain buf where buf: "length buf = Suc (length s + length t)"
      "reading (str_of z) (\<lambda>p. realloc p (Suc (length s + length t)) (set_str z)) h = Inr (moved h z p buf)"
    using realloc_moves [OF p] by blast
  then obtain b bs where B: "buf = b # bs" "length bs = length s + length t" by (auto simp: length_Suc_conv)
  note defs = concat_str_at_def str_of_def put_char_def get_chars_def strcat_def put_string_def get_string_def stmt_defs Let_def
  show ?thesis
  proof (cases "x = z")
    case True
    with buf(2) B p q q' show ?thesis by (simp add: defs)
  next
    case False
    then have n: "p \<noteq> q" using h(1) p(1) q(1) by (auto simp: wf_heap_def pointers_ok_def)
    have "q' = p" using False d p(1) q'(1) by auto
    with False buf(2) B p q q' n d chars_text_Some [of s] show ?thesis by (simp add: defs)
  qed
qed

section \<open>Parts of strings\<close>

lemma chars_textE:
  assumes "chars_text cs = Inr s"
  obtains ds where "cs = map Some s @ Some nul # ds"
proof -
  have "\<exists>ds. cs = map Some s @ Some nul # ds"
    using assms by (induction cs arbitrary: s rule: chars_text.induct) (auto simp: bind_res_Inr_iff split: if_splits)
  then show ?thesis using that by blast
qed

lemmas string_steps = str_of_def put_char_def get_chars_def get_string_def memcpy_def stmt_defs

lemma drop_does:
  assumes h: "wf_heap h" "string_at h z = Some r" "string_at h x = Some s" and d: "x \<noteq> z" and n: "length s < 2 ^ 64"
  shows "does (reading (str_of x) (\<lambda>p. string_drop_at G z p k)) h (\<lambda>st. st\<lparr>s_strings := (s_strings st)(z \<mapsto> string_drop G s k)\<rparr>)"
proof (rule live_string [OF h(1,2)], rule live_string [OF h(1,3)])
  fix p cs q ds
  assume p: "h_str h z = Some p" "h_chars h p = Some cs" "h_mpz h (Heap p) = None" "p \<in> h_live h" "p < h_next h"
    and q: "h_str h x = Some q" "h_chars h q = Some ds" "chars_text ds = Inr s" "nul \<notin> set s" "q < h_next h"
  have pq: "p \<noteq> q" using h(1) d p(1) q(1) by (auto simp: wf_heap_def pointers_ok_def)
  obtain es where es: "ds = map Some s @ Some nul # es" using q(3) by (rule chars_textE)
  define m where "m = create_mach_int_of_sail_int G k"
  have len: "unat (of_nat (length s) :: u64) = length s" using n by (simp add: unat_of_nat)
  have "reading (str_of x) (\<lambda>p. string_drop_at G z p k) h = Inr (moved h z p (map Some (string_drop G s k) @ [Some nul]))"
  proof (cases "m \<le> of_nat (length s)")
    case True
    then have u: "unat (of_nat (length s) - m) = length s - unat m" "unat m \<le> length s"
      using len by (simp_all add: unat_sub word_le_nat_alt)
    obtain buf where buf: "length buf = Suc (length s - unat m)"
      "reading (str_of z) (\<lambda>p. realloc p (Suc (length s - unat m)) (set_str z)) h = Inr (moved h z p buf)"
      using realloc_moves [OF p] by blast
    then obtain bs b where bs: "buf = bs @ [b]" "length bs = length s - unat m" by (auto simp: length_Suc_conv_rev)
    have c: "take (length s - unat m) (drop (unat m) ds) = map Some (drop (unat m) s)" "unat m + (length s - unat m) \<le> length ds"
      using u(2) by (simp_all add: es drop_map)
    have v: "string_drop G s k = drop (unat m) s" using True by (simp add: string_drop_def m_def)
    have "string_drop_at G z q k h = Inr (moved h z p (map Some (drop (unat m) s) @ [Some nul]))"
      unfolding string_drop_at_def Let_def m_def [symmetric]
      using True u buf(2) bs p(1) q(2,3,5) pq c by (simp add: string_steps list_update_append)
    then show ?thesis using q(1) by (simp add: v reading_def str_of_def)
  next
    case False
    obtain buf where buf: "length buf = 1"
      "reading (str_of z) (\<lambda>p. realloc p 1 (set_str z)) h = Inr (moved h z p buf)"
      using realloc_moves [OF p] by blast
    then obtain b where "buf = [b]" by (auto simp: length_Suc_conv)
    with False buf p q pq m_def show ?thesis
      by (simp add: string_drop_at_def string_drop_def string_steps Let_def)
  qed
  moreover have "nul \<notin> set (string_drop G s k)"
    using q(4) by (auto simp: string_drop_def Let_def dest: in_set_dropD)
  ultimately show ?thesis using moved_does [OF h(1,2) p(1)] by (intro doesI) auto
qed

lemma take_agrees:
  assumes h: "wf_heap h" "string_at h z = Some r" "string_at h x = Some s" and d: "x \<noteq> z" and n: "length s < 2 ^ 64"
  shows "case string_take G s k of
      Inl e \<Rightarrow> reading (str_of x) (\<lambda>p. string_take_at G z p k) h = Inl e
    | Inr t \<Rightarrow> does (reading (str_of x) (\<lambda>p. string_take_at G z p k)) h (\<lambda>st. st\<lparr>s_strings := (s_strings st)(z \<mapsto> t)\<rparr>)"
proof (rule live_string [OF h(1,2)], rule live_string [OF h(1,3)])
  fix p cs q ds
  assume p: "h_str h z = Some p" "h_chars h p = Some cs" "h_mpz h (Heap p) = None" "p \<in> h_live h" "p < h_next h"
    and q: "h_str h x = Some q" "h_chars h q = Some ds" "chars_text ds = Inr s" "nul \<notin> set s" "q < h_next h"
  have pq: "p \<noteq> q" using h(1) d p(1) q(1) by (auto simp: wf_heap_def pointers_ok_def)
  obtain es where es: "ds = map Some s @ Some nul # es" using q(3) by (rule chars_textE)
  define m where "m = (if (of_nat (length s) :: u64) \<le> create_mach_int_of_sail_int G k then of_nat (length s)
    else create_mach_int_of_sail_int G k)"
  have m: "unat m \<le> length s"
    using n by (auto simp: m_def unat_of_nat word_le_nat_alt)
  obtain buf where buf: "length buf = Suc (unat m)"
    "reading (str_of z) (\<lambda>p. realloc p (Suc (unat m)) (set_str z)) h = Inr (moved h z p buf)"
    using realloc_moves [OF p] by blast
  have c: "reading (str_of x) (\<lambda>p. string_take_at G z p k) h =
      (if m = 0 then Inr (moved h z p [Some nul]) else Inl Undefined_behaviour)"
    using m buf p q pq es unfolding string_take_at_def
    by (auto simp: string_steps Let_def m_def [symmetric] length_Suc_conv)
  have v: "string_take G s k = check (m = 0) Undefined_behaviour (Inr (take (unat m) s))"
    by (simp add: string_take_def m_def Let_def)
  show ?thesis
    using c v moved_does [OF h(1,2) p(1), of "[]"] by (auto simp: check_def intro: doesI)
qed

section \<open>Texts and lengths of strings\<close>

lemma text_of_int_does:
  assumes h: "wf_heap h" "string_at h z = Some r" "nul \<notin> set s"
  shows "does (seq [reading (str_of z) free_block, asprintf z s]) h (\<lambda>st. st\<lparr>s_strings := (s_strings st)(z \<mapsto> s)\<rparr>)"
proof -
  obtain p cs where p: "h_str h z = Some p" "h_mpz h (Heap p) = None" "p \<in> h_live h" "p < h_next h"
    using live_string [OF h(1,2)] by blast
  let ?h' = "h\<lparr>h_chars := (h_chars h)(p := None, h_next h \<mapsto> map Some s @ [Some nul]), h_str := (h_str h)(z \<mapsto> h_next h),
    h_live := insert (h_next h) (h_live h - {p}), h_next := Suc (h_next h)\<rparr>"
  have [simp]: "(h_mpz h)(Heap p := None) = h_mpz h" using p by auto
  show ?thesis
  proof (rule doesI)
    show "seq [reading (str_of z) free_block, asprintf z s] h = Inr ?h'"
      using p by (simp add: asprintf_def malloc_chars_def malloc_def put_string_def get_chars_def set_str_def str_of_def free_block_def
        stmt_defs fun_upd_twist)
    show "wf_heap ?h' \<and> store_of ?h' = store_of h\<lparr>s_strings := (s_strings (store_of h))(z \<mapsto> s)\<rparr>"
      by (rule new_string [where D = "{p}" and cs = "[]"]) (use assms p in auto)
  qed
qed

lemma text_at_does:
  assumes "wf_heap h" "string_at h z = Some r" "h_mpz h (Var x) = Some a" "nul \<notin> set (f a)"
  shows "does (seq [reading (str_of z) free_block, reading (get_mpz (Var x)) (\<lambda>v. asprintf z (f v))]) h
    (\<lambda>st. st\<lparr>s_strings := (s_strings st)(z \<mapsto> f a)\<rparr>)"
proof -
  have "seq [reading (str_of z) free_block, reading (get_mpz (Var x)) (\<lambda>v. asprintf z (f v))] h =
      seq [reading (str_of z) free_block, asprintf z (f a)] h"
    using assms(3) by (cases "reading (str_of z) free_block h")
      (auto simp: reading_def str_of_def free_block_def get_mpz_def lose_def bind_res_Inr_iff)
  with text_of_int_does [OF assms(1,2,4)] show ?thesis by (simp add: does_def)
qed

lemma nul_dec_of_int: "nul \<notin> set (dec_of_int k)"
proof -
  have "(of_char nul :: nat) \<noteq> of_char CHR ''-''" by (simp add: nul_def)
  then have "nul \<noteq> CHR ''-''" by metis
  moreover have "\<not> is_digit nul" by (simp add: is_digit_def nul_def)
  moreover have "\<forall>c\<in>set (dec_of_nat n). is_digit c" for n using dec_of_nat_digits [of n] by (simp add: list_all_iff)
  ultimately show ?thesis by (auto simp: dec_of_int_def)
qed

lemma string_length_does:
  assumes "wf_heap h" "h_mpz h (Var z) \<noteq> None" "string_at h x = Some s"
  shows "does (reading (str_of x) (string_length_at G (Var z))) h (\<lambda>st. st\<lparr>s_ints := (s_ints st)(z \<mapsto> string_length G s)\<rparr>)"
proof (rule live_string [OF assms(1,3)], rule int_put_does [OF assms(1,2)])
  fix p cs assume "h_str h x = Some p" "h_chars h p = Some cs" "chars_text cs = Inr s"
  then show "reading (str_of x) (string_length_at G (Var z)) h = put_mpz (Var z) (string_length G s) h"
    by (simp add: string_length_at_def string_length_def str_of_def get_string_def get_chars_def reading_def)
qed

end
