(* ===== verification/Sail_Shared.thy ===== *)
theory Sail_Shared
  imports Sail_Alias
begin

text \<open>
  What the bitvector functions compute when their result is a variable that they still read after
  they have begun to write it (see \<open>un_apart\<close> and \<open>bin_apart\<close> in \<open>Sail_Alias\<close>).
\<close>

section \<open>Results that share their storage with an operand\<close>

text \<open>
  Where the result variable is an operand that the function reads again after it has begun to write.
\<close>

lemma leaves_loop_keeps:
  assumes "\<And>i. i < k \<Longrightarrow> leaves P (body i) P"
  shows "leaves P (for_up_res 0 k body) P"
  unfolding leaves_def
proof (intro allI impI)
  fix h assume "P h"
  then show "\<exists>h'. for_up_res 0 k body h = Inr h' \<and> P h'"
    by (rule for_up_res_induct [of 0 k "\<lambda>i. P", rotated]) (use assms in \<open>auto simp: leaves_def\<close>)
qed

lemma shared_does:
  assumes "wf_heap h" "lbits_at h z = Some r"
    and "\<And>p. h_bits h z = Some p \<Longrightarrow> leaves (result h z p (l_len r) (l_bits r)) (s (arg r p)) (result h z p (l_len v) (l_bits v))"
  shows "does (reading (pass z) s) h (\<lambda>st. st\<lparr>s_lbits := (s_lbits st)(z \<mapsto> v)\<rparr>)"
proof -
  obtain p where p: "h_bits h z = Some p" using assms(2) by (rule lbits_atE)
  from leaves_does [OF assms(1,2) p assms(3) [OF p]] pass_eq [OF assms(1,2) p] show ?thesis
    by (simp add: does_def reading_def)
qed

context gmp_laws
begin

lemma slice_shared:
  assumes h: "wf_heap h" "lbits_at h z = Some a" and v: "slice G a s n = Inr v"
  shows "does (un_call G (Slice s n) z z) h (\<lambda>st. st\<lparr>s_lbits := (s_lbits st)(z \<mapsto> \<lparr>l_len = l_len v, l_bits = 0\<rparr>)\<rparr>)"
  unfolding un_call_def
proof (rule shared_does [OF h])
  fix p assume p: "h_bits h z = Some p"
  have loop: "leaves (result h z p k 0) (copy_bits_at G (Heap p) start m z) (result h z p k 0)" for k start m
    unfolding copy_bits_at_def
    by (intro leaves_loop_keeps leaves_read_if [OF p seen_own]) (simp_all add: leaves_seq)
  have c: "mpz_get_ui G s + mpz_get_ui G n \<le> l_len a" using v by (simp only: slice_def check_Inr_iff)
  have zero: "mpz_set_ui G 0 = 0" by simp
  have "leaves (result h z p (l_len a) (l_bits a)) (slice_at G z (arg a p) s n) (result h z p (mpz_get_ui G n) 0)"
    unfolding slice_at_def Let_def arg_simps zero
    by (rule leaves_seq leaves_assertion c leaves_put p leaves_set_len loop)+
  then show "leaves (result h z p (l_len a) (l_bits a)) (un_at G (Slice s n) z (arg a p))
      (result h z p (l_len \<lparr>l_len = l_len v, l_bits = 0\<rparr>) (l_bits \<lparr>l_len = l_len v, l_bits = 0\<rparr>))"
    using v by (auto simp: slice_def Let_def)
qed

lemma replicate_shared:
  assumes h: "wf_heap h" "lbits_at h z = Some a" and v: "replicate_bits G a n = Inr v"
  shows "does (un_call G (Replicate n) z z) h (\<lambda>st. st\<lparr>s_lbits := (s_lbits st)(z \<mapsto> \<lparr>l_len = l_len v, l_bits = 0\<rparr>)\<rparr>)"
  unfolding un_call_def
proof (rule shared_does [OF h])
  fix p assume p: "h_bits h z = Some p"
  have c: "uint (mpz_get_ui G n) \<le> int_max" using v by (simp only: replicate_bits_def Let_def check_Inr_iff)
  have zero: "mpz_set_ui G 0 = 0" by simp
  have loop: "leaves (result h z p k 0) (seq
           [on_bits z (\<lambda>p. mpz1 (\<lambda>v. mpz_mul_2exp G v m) p p),
            on_bits z (\<lambda>q. mpz2 (mpz_ior G) q q (Heap p))]) (result h z p k 0)" for k m
    using leaves_own1 [OF p, of k 0 "\<lambda>v. mpz_mul_2exp G v m"] leaves_own2 [OF p seen_own, of k 0 "mpz_ior G"]
    by (intro leaves_seq(2) [OF _ leaves_seq(2) [OF _ leaves_seq(1)]]) auto
  have "leaves (result h z p (l_len a) (l_bits a)) (replicate_bits_at G z (arg a p) n) (result h z p (l_len a * mpz_get_ui G n) 0)"
    unfolding replicate_bits_at_def Let_def arg_simps zero
    by (rule loop leaves_seq leaves_set_len leaves_put p leaves_require c leaves_loop_keeps)+
  then show "leaves (result h z p (l_len a) (l_bits a)) (un_at G (Replicate n) z (arg a p))
      (result h z p (l_len \<lparr>l_len = l_len v, l_bits = 0\<rparr>) (l_bits \<lparr>l_len = l_len v, l_bits = 0\<rparr>))"
    using v by (auto simp: replicate_bits_def Let_def)
qed

lemma append_shared:
  assumes h: "wf_heap h" "lbits_at h z = Some b" "lbits_at h x = Some a"
  shows "does (bin_call G Append z x z) h (\<lambda>st. st\<lparr>s_lbits := (s_lbits st)(z \<mapsto>
    \<lparr>l_len = l_len a + l_len b, l_bits = push_bit (unat (l_len b)) (l_bits a)\<rparr>)\<rparr>)"
proof -
  obtain p where p: "h_bits h z = Some p" using h(2) by (rule lbits_atE)
  obtain q where q: "h_bits h x = Some q" using h(3) by (rule lbits_atE)
  note s = seen_start [OF h(1,2) p h(3) q]
  let ?v = "\<lparr>l_len = l_len a + l_len b, l_bits = push_bit (unat (l_len b)) (l_bits a)\<rparr>"
  have or: "leaves (result h z p k w) (on_bits z (\<lambda>q. mpz2 (mpz_ior G) q q (Heap p))) (result h z p k w)" for k w
    using leaves_own2 [OF p seen_own, of k w "mpz_ior G"] by simp
  have "leaves (result h z p (l_len b) (l_bits b)) (append_at G z (arg a q) (arg b p))
      (result h z p (l_len ?v) (mpz_mul_2exp G (l_bits a) (l_len b)))"
    unfolding append_at_def arg_simps lbits.select_convs by (rule or leaves_seq leaves_set_len leaves_mpz1 p s(1))+
  then have "leaves (result h z p (l_len b) (l_bits b)) (append_at G z (arg a q) (arg b p)) (result h z p (l_len ?v) (l_bits ?v))"
    by simp
  from leaves_does [OF h(1,2) p this] pass_eq [OF h(1,3) q] pass_eq [OF h(1,2) p]
  show ?thesis by (simp add: does_def bin_call_def reading_def)
qed

text \<open>The sign bit is read after the shift, and is no longer there: the shift is a logical one.\<close>

lemma arith_shift_shared:
  assumes h: "wf_heap h" "lbits_at h z = Some a" "lbits_at h y = Some b" and w: "wf_lbits a"
  shows "does (bin_call G Shift_right_arith z z y) h (\<lambda>st. st\<lparr>s_lbits := (s_lbits st)(z \<mapsto>
    \<lparr>l_len = l_len a, l_bits = drop_bit (unat (mpz_get_ui G (l_bits b))) (l_bits a)\<rparr>)\<rparr>)"
proof -
  obtain p where p: "h_bits h z = Some p" using h(2) by (rule lbits_atE)
  obtain q where q: "h_bits h y = Some q" using h(3) by (rule lbits_atE)
  note s = seen_start [OF h(1,2) p h(3) q]
  define k where "k = mpz_get_ui G (l_bits b)"
  let ?v = "mpz_fdiv_q_2exp G (l_bits a) k"
  have fill: "leaves (result h z p (l_len a) ?v) (arith_fill_at G (l_len a - 1) z (unat k)) (result h z p (l_len a) ?v)"
    if "mpz_tstbit G ?v (l_len a - 1)"
  proof (cases "k = 0")
    case False
    have "bit (l_bits a) (unat k + unat (l_len a - 1))" using that by (simp add: bit_drop_bit_eq add.commute)
    then have "unat k + unat (l_len a - 1) < unat (l_len a)" by (rule wf_lbits_bits [OF w])
    moreover have "0 < unat k" using False by (simp add: unat_gt_0)
    moreover have "unat (l_len a) \<le> Suc (unat (l_len a - 1))"
      by (cases "l_len a = 0") (simp_all add: unat_sub64 word_le_nat_alt unat_gt_0 Suc_leI)
    ultimately show ?thesis by simp
  qed (simp add: leaves_def)
  have "leaves (result h z p (l_len a) (l_bits a)) (shift_bits_right_arith_at G z (arg a p) (arg b q)) (result h z p (l_len a) ?v)"
    unfolding shift_bits_right_arith_at_def arg_simps Let_def
    by (erule fill | rule leaves_read_if leaves_seq leaves_set_len leaves_mpz1 leaves_reading(1) p s(1) seen_own | simp only: k_def [symmetric])+
  then have "leaves (result h z p (l_len a) (l_bits a)) (shift_bits_right_arith_at G z (arg a p) (arg b q))
      (result h z p (l_len \<lparr>l_len = l_len a, l_bits = drop_bit (unat k) (l_bits a)\<rparr>) (l_bits \<lparr>l_len = l_len a, l_bits = drop_bit (unat k) (l_bits a)\<rparr>))"
    by simp
  from leaves_does [OF h(1,2) p this] pass_eq [OF h(1,2) p] pass_eq [OF h(1,3) q]
  show ?thesis by (simp add: does_def bin_call_def reading_def k_def)
qed

text \<open>The bits that replace others are read from the result, which begins as the other operand.\<close>

lemma set_slice_shared:
  assumes h: "wf_heap h" "lbits_at h z = Some b" "lbits_at h x = Some a" and c: "mpz_get_ui G s = 0"
  shows "does (bin_call G (Set_slice n k s) z x z) h (\<lambda>st. st\<lparr>s_lbits := (s_lbits st)(z \<mapsto> a)\<rparr>)"
proof -
  obtain p where p: "h_bits h z = Some p" using h(2) by (rule lbits_atE)
  obtain q where q: "h_bits h x = Some q" using h(3) by (rule lbits_atE)
  note s = seen_start [OF h(1,2) p h(3) q]
  have set: "leaves (result h z p m (l_bits b)) (set_to G z (Heap q)) (result h z p m (l_bits a))" for m
    using leaves_set_to [OF p s(1), of m G] by simp
  have body: "leaves (result h z p m w) (reading (get_mpz (Heap p)) (\<lambda>s.
       if mpz_tstbit G s (of_nat i)
       then on_bits z (\<lambda>p. mpz1 (\<lambda>z. mpz_setbit G z (of_nat i + 0)) p p)
       else on_bits z (\<lambda>p. mpz1 (\<lambda>z. mpz_clrbit G z (of_nat i + 0)) p p))) (result h z p m w)" for m w i
  proof (rule leaves_read_if [OF p seen_own])
    assume "mpz_tstbit G w (of_nat i)"
    then have "mpz_setbit G w (of_nat i + 0) = w" by (simp, intro bit_eqI) (auto simp: bit_set_bit_iff)
    then show "leaves (result h z p m w) (on_bits z (\<lambda>p. mpz1 (\<lambda>z. mpz_setbit G z (of_nat i + 0)) p p)) (result h z p m w)"
      using leaves_own1 [OF p, of m w "\<lambda>z. mpz_setbit G z (of_nat i + 0)"] by simp
  next
    assume "\<not> mpz_tstbit G w (of_nat i)"
    then have "mpz_clrbit G w (of_nat i + 0) = w" by (simp, intro bit_eqI) (auto simp: bit_unset_bit_iff)
    then show "leaves (result h z p m w) (on_bits z (\<lambda>p. mpz1 (\<lambda>z. mpz_clrbit G z (of_nat i + 0)) p p)) (result h z p m w)"
      using leaves_own1 [OF p, of m w "\<lambda>z. mpz_clrbit G z (of_nat i + 0)"] by simp
  qed
  have "leaves (result h z p (l_len b) (l_bits b)) (set_slice_at G z n k (arg a q) s (arg b p)) (result h z p (l_len a) (l_bits a))"
    unfolding set_slice_at_def arg_simps Let_def c paste_bits_at_def
    by (rule leaves_seq leaves_set_len set leaves_loop_keeps body)+
  from leaves_does [OF h(1,2) p this] pass_eq [OF h(1,3) q] pass_eq [OF h(1,2) p]
  show ?thesis by (simp add: does_def bin_call_def reading_def)
qed

text \<open>Byte reversal clears the result before it reads the bytes of the operand.\<close>

lemma reverse_bytes_shared:
  assumes p: "h_bits h0 z = Some p"
    and "reverse_bytes G' src n mk byte v = Some w" "G' = G" "n = l_len a" "result h0 z p k 0 h" "h_mpz h Tmp1 = Some mk"
  shows "\<exists>h'. reverse_bytes_at G (arg a p) byte z h = Some (Inr h') \<and> result h0 z p k 0 h'"
  using assms(2-6)
proof (induction arbitrary: h rule: reverse_bytes.raw_induct [rotated, consumes 1, case_names step])
  case (step f G' src n mk byte v w)
  have "h_mpz h (Heap p) = Some 0" by (rule result_fields(3) [OF step(5) p])
  from reverse_step [OF step(5) p step(6) this, of G byte] obtain h1 where h1: "seq
     [mpz1 (\<lambda>z. mpz_tdiv_q_2exp G z byte) Tmp2 (Heap p),
      mpz2 (mpz_and G) Tmp2 Tmp2 Tmp1,
      on_bits z (\<lambda>p. mpz1 (\<lambda>z. mpz_mul_2exp G z 8) p p),
      on_bits z (\<lambda>p. mpz2 (mpz_ior G) p p Tmp2)] h = Inr h1"
    "result h0 z p k 0 h1" "h_mpz h1 Tmp1 = Some mk"
    by auto
  show ?case
  proof (cases "byte < n")
    case True
    with step(2) have "f G' src n mk (byte + 8) (mpz_ior G' (mpz_mul_2exp G' v 8) (mpz_and G' (mpz_tdiv_q_2exp G' src byte) mk)) = Some w"
      by (simp add: Let_def)
    from step(1) [OF this step(3,4) h1(2,3)] True show ?thesis using h1(1) step(3,4) by (subst reverse_bytes_at.simps) simp
  next
    case False
    with step(4,5) show ?thesis by (subst reverse_bytes_at.simps) simp
  qed
qed

lemma reverse_shared:
  assumes h: "wf_heap h" "lbits_at h z = Some a" and v: "reverse_endianness G a = Inr v" "l_len a \<notin> {64, 32, 16, 8}"
  shows "does (un_call G Reverse_endianness z z) h (\<lambda>st. st\<lparr>s_lbits := (s_lbits st)(z \<mapsto> \<lparr>l_len = l_len a, l_bits = 0\<rparr>)\<rparr>)"
  unfolding un_call_def
proof (rule shared_does [OF h])
  fix p assume p: "h_bits h z = Some p"
  obtain w where w: "reverse_bytes G (l_bits a) (l_len a) (mpz_set_ui G 0xff) 0 (mpz_set_ui G 0) = Some w"
    using v by (auto simp: reverse_endianness_def of_option_def bind_res_Inr_iff split: option.splits)
  have "leaves (result h z p (l_len a) (l_bits a))
      (seq [put_mpz Tmp1 (mpz_set_ui G 0xff), on_bits z (\<lambda>p. put_mpz p (mpz_set_ui G 0)), loop (reverse_bytes_at G (arg a p) 0 z)])
      (result h z p (l_len a) 0)"
    using reverse_bytes_shared [OF p w refl refl] by (intro reverse_loop_leaves p) simp
  then have "leaves (result h z p (l_len a) (l_bits a)) (reverse_at_length G z (arg a p) (l_len a)) (result h z p (l_len a) 0)"
    using v(2) by (simp add: reverse_at_length_def)
  then show "leaves (result h z p (l_len a) (l_bits a)) (un_at G Reverse_endianness z (arg a p))
      (result h z p (l_len \<lparr>l_len = l_len a, l_bits = 0\<rparr>) (l_bits \<lparr>l_len = l_len a, l_bits = 0\<rparr>))"
    using reverse_endianness_leaves [OF p, of "arg a p"] by simp
qed

end

end
