(* ===== verification/Sail_Rationals.thy ===== *)
theory Sail_Rationals
  imports Sail_Store
begin

text \<open>
  The functions of \<open>lib/sail.c\<close> on rationals, on the heap of \<open>Sail_Store\<close>. The result may be an operand.
  The local rationals of \<open>sqrt_real\<close> and \<open>real_power\<close> are initialised on entry, cleared on every way out
  and never passed on: they are values here, as are the estimates of the loop of \<open>sqrt_real\<close>.
\<close>

section \<open>The functions\<close>

definition mpq1 :: "(mpq \<Rightarrow> mpq) \<Rightarrow> var \<Rightarrow> var \<Rightarrow> stmt" where
  "mpq1 f rop op = reading (get_mpq op) (\<lambda>x. put_mpq rop (f x))"

definition mpq2 :: "(mpq \<Rightarrow> mpq \<Rightarrow> mpq) \<Rightarrow> var \<Rightarrow> var \<Rightarrow> var \<Rightarrow> stmt" where
  "mpq2 f rop op1 op2 = reading (get_mpq op1) (\<lambda>x. reading (get_mpq op2) (\<lambda>y. put_mpq rop (f x y)))"

text \<open>A function of GMP that may abort, and assignments to the two parts of a rational.\<close>

definition or_abort :: "'a option \<Rightarrow> ('a \<Rightarrow> stmt) \<Rightarrow> stmt" where
  "or_abort r s = reading (\<lambda>h. of_option Gmp_abort r) s"

definition set_num :: "var \<Rightarrow> int \<Rightarrow> stmt" where
  "set_num rop v = reading (get_mpq rop) (\<lambda>q. put_mpq rop (q\<lparr>mpq_numref := v\<rparr>))"

definition set_den :: "var \<Rightarrow> int \<Rightarrow> stmt" where
  "set_den rop v = reading (get_mpq rop) (\<lambda>q. put_mpq rop (q\<lparr>mpq_denref := v\<rparr>))"

definition undefined_real_at :: "var \<Rightarrow> stmt" where
  "undefined_real_at rop = put_mpq rop (mpq_of 0 1)"

definition neg_real_at :: "gmpq \<Rightarrow> var \<Rightarrow> var \<Rightarrow> stmt" where
  "neg_real_at Q rop op = mpq1 (mpq_neg Q) rop op"

definition mult_real_at :: "gmpq \<Rightarrow> var \<Rightarrow> var \<Rightarrow> var \<Rightarrow> stmt" where
  "mult_real_at Q rop op1 op2 = mpq2 (mpq_mul Q) rop op1 op2"

definition sub_real_at :: "gmpq \<Rightarrow> var \<Rightarrow> var \<Rightarrow> var \<Rightarrow> stmt" where
  "sub_real_at Q rop op1 op2 = mpq2 (mpq_sub Q) rop op1 op2"

definition add_real_at :: "gmpq \<Rightarrow> var \<Rightarrow> var \<Rightarrow> var \<Rightarrow> stmt" where
  "add_real_at Q rop op1 op2 = mpq2 (mpq_add Q) rop op1 op2"

definition div_real_at :: "gmpq \<Rightarrow> var \<Rightarrow> var \<Rightarrow> var \<Rightarrow> stmt" where
  "div_real_at Q rop op1 op2 = reading (get_mpq op1) (\<lambda>x. reading (get_mpq op2) (\<lambda>y.
     or_abort (mpq_div Q x y) (put_mpq rop)))"

definition abs_real_at :: "gmpq \<Rightarrow> var \<Rightarrow> var \<Rightarrow> stmt" where
  "abs_real_at Q rop op = mpq1 (mpq_abs Q) rop op"

definition round_up_at :: "gmp \<Rightarrow> loc \<Rightarrow> var \<Rightarrow> stmt" where
  "round_up_at G rop op = reading (get_mpq op) (\<lambda>x. or_abort (mpz_cdiv_q G (mpq_numref x) (mpq_denref x)) (put_mpz rop))"

definition round_down_at :: "gmp \<Rightarrow> loc \<Rightarrow> var \<Rightarrow> stmt" where
  "round_down_at G rop op = reading (get_mpq op) (\<lambda>x. or_abort (mpz_fdiv_q G (mpq_numref x) (mpq_denref x)) (put_mpz rop))"

definition to_real_at :: "gmpq \<Rightarrow> var \<Rightarrow> loc \<Rightarrow> stmt" where
  "to_real_at Q rop op = seq
     [reading (get_mpz op) (\<lambda>k. put_mpq rop (mpq_set_z k)),
      reading (get_mpq rop) (\<lambda>q. or_abort (mpq_canonicalize Q q) (put_mpq rop))]"

definition sqrt_real_at :: "gmp \<Rightarrow> gmpq \<Rightarrow> var \<Rightarrow> var \<Rightarrow> stmt" where
  "sqrt_real_at G Q rop op = reading (get_mpq op) (\<lambda>x.
     if mpz_cmp_ui G (mpq_denref x) 1 = 0 \<and> mpz_perfect_square_p G (mpq_numref x) then seq
       [or_abort (mpz_sqrt G (mpq_numref x)) (set_num rop),
        set_den rop (mpz_set_ui G 1)]
     else
       or_abort (mpz_cdiv_q G (mpq_numref x) (mpq_denref x)) (\<lambda>tmp_z.
       or_abort (mpz_sqrt G tmp_z) (\<lambda>tmp_z.
         let p = mpq_set_z tmp_z;
             tmp_z = mpz_pow_ui G (mpz_set_ui G 10) SQRT_PRECISION;
             convergence = mpq_of (mpz_set_ui G 1) tmp_z
         in reading (\<lambda>h. case sqrt_loop Q x convergence p of None \<Rightarrow> Inl No_return | Some r \<Rightarrow> r) (put_mpq rop))))"

text \<open>\<open>real_power\<close> sets its result to 1 before it reads the base.\<close>

function power_loop_at :: "gmpq \<Rightarrow> var \<Rightarrow> mpq \<Rightarrow> nat \<Rightarrow> stmt" where
  "power_loop_at Q rop b pexp h =
     (if pexp \<noteq> 0 then
        if pexp AND 1 \<noteq> 0 then
          bind_res (mpq1 (\<lambda>q. mpq_mul Q q b) rop rop h) (\<lambda>h. power_loop_at Q rop b (pexp - 1) h)
        else power_loop_at Q rop (mpq_mul Q b b) (drop_bit 1 pexp) h
      else Inr h)"
  by pat_completeness auto
termination
  by (relation "measure (\<lambda>(Q, rop, b, pexp, h). pexp)") (auto simp: drop_bit_Suc)

declare power_loop_at.simps [simp del]

definition real_power_at :: "gmp \<Rightarrow> gmpq \<Rightarrow> var \<Rightarrow> var \<Rightarrow> int \<Rightarrow> stmt" where
  "real_power_at G Q rop base e =
     (let exp_si = mpz_get_si G e
      in seq
        [set_num rop (mpz_set_ui G 1),
         set_den rop (mpz_set_ui G 1),
         reading (get_mpq base) (\<lambda>b. seq
           [require (sint exp_si \<noteq> - (2 ^ 63)),
            power_loop_at Q rop b (nat \<bar>sint exp_si\<bar>)]),
         if sint exp_si < 0 then reading (get_mpq rop) (\<lambda>q. or_abort (mpq_inv Q q) (put_mpq rop)) else seq []])"

section \<open>Calls\<close>

datatype real_un = Neg_real | Abs_real | Sqrt_real

datatype real_bin = Add_real | Sub_real | Mult_real | Div_real

datatype rounding = Round_up | Round_down

fun real_un_at :: "gmp \<Rightarrow> gmpq \<Rightarrow> real_un \<Rightarrow> var \<Rightarrow> var \<Rightarrow> stmt" where
  "real_un_at G Q Neg_real z a = neg_real_at Q z a"
| "real_un_at G Q Abs_real z a = abs_real_at Q z a"
| "real_un_at G Q Sqrt_real z a = sqrt_real_at G Q z a"

fun real_un_val :: "gmp \<Rightarrow> gmpq \<Rightarrow> real_un \<Rightarrow> mpq \<Rightarrow> mpq res" where
  "real_un_val G Q Neg_real a = Inr (neg_real Q a)"
| "real_un_val G Q Abs_real a = Inr (abs_real Q a)"
| "real_un_val G Q Sqrt_real a = sqrt_real G Q a"

fun real_bin_at :: "gmpq \<Rightarrow> real_bin \<Rightarrow> var \<Rightarrow> var \<Rightarrow> var \<Rightarrow> stmt" where
  "real_bin_at Q Add_real z a b = add_real_at Q z a b"
| "real_bin_at Q Sub_real z a b = sub_real_at Q z a b"
| "real_bin_at Q Mult_real z a b = mult_real_at Q z a b"
| "real_bin_at Q Div_real z a b = div_real_at Q z a b"

fun real_bin_val :: "gmpq \<Rightarrow> real_bin \<Rightarrow> mpq \<Rightarrow> mpq \<Rightarrow> mpq res" where
  "real_bin_val Q Add_real a b = Inr (add_real Q a b)"
| "real_bin_val Q Sub_real a b = Inr (sub_real Q a b)"
| "real_bin_val Q Mult_real a b = Inr (mult_real Q a b)"
| "real_bin_val Q Div_real a b = div_real Q a b"

fun round_at :: "gmp \<Rightarrow> rounding \<Rightarrow> loc \<Rightarrow> var \<Rightarrow> stmt" where
  "round_at G Round_up z a = round_up_at G z a"
| "round_at G Round_down z a = round_down_at G z a"

fun round_val :: "gmp \<Rightarrow> rounding \<Rightarrow> mpq \<Rightarrow> int res" where
  "round_val G Round_up a = round_up G a"
| "round_val G Round_down a = round_down G a"

section \<open>What the calls do\<close>

text \<open>Each call computes its value function, and writes the result once as seen from outside.\<close>

lemmas rational_steps = mpq1_def mpq2_def or_abort_def set_num_def set_den_def reading_def get_mpq_def put_mpq_def

lemma real_put_does:
  assumes "wf_heap h" "h_mpq h z \<noteq> None" "c h = put_mpq z w h"
  shows "does c h (\<lambda>st. st\<lparr>s_reals := (s_reals st)(z \<mapsto> w)\<rparr>)"
  using assms by (auto simp: does_def put_mpq_def update_real)

lemma both_parts [simp]:
  "(r :: mpq)\<lparr>mpq_numref := n, mpq_denref := d\<rparr> = \<lparr>mpq_numref = n, mpq_denref = d\<rparr>"
  by (cases r) simp

lemma bind_seq_Nil [simp]: "bind_res r (seq []) = r"
  by (cases r) simp_all

lemma put_twice:
  "h_mpq h z \<noteq> None \<Longrightarrow> put_mpq z v h = Inr (h\<lparr>h_mpq := (h_mpq h)(z \<mapsto> v)\<rparr>)"
  "put_mpq z w (h\<lparr>h_mpq := (h_mpq h)(z \<mapsto> v)\<rparr>) = Inr (h\<lparr>h_mpq := (h_mpq h)(z \<mapsto> w)\<rparr>)"
  by (auto simp: put_mpq_def)

lemma real_un_eq:
  assumes "h_mpq h z \<noteq> None" "h_mpq h x = Some a"
  shows "real_un_at G Q op z x h = bind_res (real_un_val G Q op a) (\<lambda>w. put_mpq z w h)"
proof (cases op)
  case Sqrt_real
  obtain r where "h_mpq h z = Some r" using assms(1) by blast
  with assms(2) Sqrt_real show ?thesis
    by (auto simp: sqrt_real_at_def sqrt_real_def rational_steps of_option_def bind_res_def mpq_of_def Let_def
        split: option.splits sum.splits)
qed (use assms(2) in \<open>simp_all add: neg_real_at_def abs_real_at_def neg_real_def abs_real_def mpq1_def reading_def get_mpq_def\<close>)

lemma real_bin_eq:
  assumes "h_mpq h z \<noteq> None" "h_mpq h x = Some a" "h_mpq h y = Some b"
  shows "real_bin_at Q op z x y h = bind_res (real_bin_val Q op a b) (\<lambda>w. put_mpq z w h)"
  using assms(2,3)
  by (cases op) (simp_all add: add_real_at_def sub_real_at_def mult_real_at_def div_real_at_def add_real_def sub_real_def
    mult_real_def div_real_def mpq2_def or_abort_def reading_def get_mpq_def)

lemma round_eq:
  assumes "h_mpq h x = Some a"
  shows "round_at G op z x h = bind_res (round_val G op a) (\<lambda>w. put_mpz z w h)"
  using assms
  by (cases op) (simp_all add: round_up_at_def round_down_at_def round_up_def round_down_def or_abort_def reading_def get_mpq_def)

lemma to_real_at_eq:
  assumes "h_mpq h z \<noteq> None" "h_mpz h p = Some k"
  shows "to_real_at Q z p h = bind_res (to_real Q k) (\<lambda>w. put_mpq z w h)"
  using assms
  by (simp add: put_twice to_real_at_def to_real_def or_abort_def reading_def get_mpq_def get_mpz_def)

lemma power_loop_at_eq:
  "h_mpq h z = Some r \<Longrightarrow>
   power_loop_at Q z b n h = Inr (h\<lparr>h_mpq := (h_mpq h)(z \<mapsto> power_loop Q r b n)\<rparr>)"
proof (induction Q r b n arbitrary: h rule: power_loop.induct)
  case (1 Q r b n)
  show ?case
  proof (cases "n \<noteq> 0 \<and> n AND 1 \<noteq> 0")
    case True
    let ?h = "h\<lparr>h_mpq := (h_mpq h)(z \<mapsto> mpq_mul Q r b)\<rparr>"
    have e: "power_loop Q r b n = power_loop Q (mpq_mul Q r b) b (n - 1)"
      using True by (subst power_loop.simps) simp
    have "power_loop_at Q z b n h = power_loop_at Q z b (n - 1) ?h"
      using True 1(3) by (subst power_loop_at.simps) (simp add: rational_steps)
    also have "\<dots> = Inr (?h\<lparr>h_mpq := (h_mpq ?h)(z \<mapsto> power_loop Q (mpq_mul Q r b) b (n - 1))\<rparr>)"
      by (rule 1(1)) (use True in auto)
    also have "\<dots> = Inr (h\<lparr>h_mpq := (h_mpq h)(z \<mapsto> power_loop Q (mpq_mul Q r b) b (n - 1))\<rparr>)"
      by simp
    finally show ?thesis by (simp only: e)
  next
    case False
    show ?thesis
    proof (cases "n = 0")
      case True
      have "power_loop_at Q z b n h = Inr h" "power_loop Q r b n = r"
        using True by (subst power_loop_at.simps power_loop.simps; simp)+
      moreover have "(h_mpq h)(z \<mapsto> r) = h_mpq h" using 1(3) by (rule fun_upd_idem)
      moreover have "h\<lparr>h_mpq := h_mpq h\<rparr> = h" by simp
      ultimately show ?thesis by (simp only:)
    next
      case even: False
      with False have "power_loop_at Q z b n h = power_loop_at Q z (mpq_mul Q b b) (drop_bit 1 n) h"
          "power_loop Q r b n = power_loop Q r (mpq_mul Q b b) (drop_bit 1 n)"
        by (subst power_loop_at.simps power_loop.simps; simp)+
      moreover have "power_loop_at Q z (mpq_mul Q b b) (drop_bit 1 n) h =
          Inr (h\<lparr>h_mpq := (h_mpq h)(z \<mapsto> power_loop Q r (mpq_mul Q b b) (drop_bit 1 n))\<rparr>)"
        by (rule 1(2)) (use even False 1(3) in auto)
      ultimately show ?thesis by (simp only:)
    qed
  qed
qed

text \<open>A power is computed when the base is another variable; otherwise it is a power of 1.\<close>

lemma real_power_at_eq:
  assumes "h_mpq h z \<noteq> None" "h_mpq h x = Some a"
  shows "real_power_at G Q z x e h =
    bind_res (real_power G Q (if x = z then mpq_of (mpz_set_ui G 1) (mpz_set_ui G 1) else a) e) (\<lambda>w. put_mpq z w h)"
proof -
  let ?one = "mpq_of (mpz_set_ui G 1) (mpz_set_ui G 1)"
  let ?h = "h\<lparr>h_mpq := (h_mpq h)(z \<mapsto> ?one)\<rparr>"
  define b where "b = (if x = z then ?one else a)"
  obtain r where "h_mpq h z = Some r" using assms(1) by blast
  then obtain h1 where s: "set_num z (mpz_set_ui G 1) h = Inr h1" "set_den z (mpz_set_ui G 1) h1 = Inr ?h"
    by (simp add: rational_steps mpq_of_def)
  have b: "h_mpq ?h x = Some b" using assms(2) by (simp add: b_def)
  have l: "power_loop_at Q z b n ?h = Inr (h\<lparr>h_mpq := (h_mpq h)(z \<mapsto> power_loop Q ?one b n)\<rparr>)" for n
    using power_loop_at_eq [of ?h z ?one Q b n] by simp
  show ?thesis
    unfolding real_power_at_def real_power_def b_def [symmetric]
    using s b l
    by (simp add: Let_def check_def require_def reading_def get_mpq_def or_abort_def put_twice assms(1))
qed

end
