(* ===== verification/Sail_Programs.thy ===== *)
theory Sail_Programs
  imports Sail_Strings Sail_Shared Sail_Rationals Rts
begin

text \<open>
  Code without loops over the library, as the compiler generates it: variables of the four builtin types
  are created, reset, copied and killed; integers, rationals, bitvectors and strings are computed from each other;
  machine words computed from variables are operands, and decide which code runs. A program on values says
  when that code is well scoped and what it computes; the code on the heap does the same, never uses
  memory it does not own, and gives all of it back.
\<close>

section \<open>Programs\<close>

datatype action = Create var | Recreate var | Copy var var | Kill var

text \<open>
  \<open>Get_int\<close>, \<open>Get_real\<close>, \<open>Get_bits\<close> and \<open>Get_string\<close> stand for the functions that only read a variable, the comparisons and
  the conversions to machine words among them: what follows is a function of the value.
\<close>

datatype instr =
    Int_action action | Real_action action | Bits_action action | String_action action
  | Bits_un un_op var var | Bits_bin bin_op var var var
  | Int_un int_un var var | Int_bin int_bin var var var
  | Bits_to_int bits_to_int var var | Get_slice_int var int var int | Set_slice_int var int var int var
  | Real_un real_un var var | Real_bin real_bin var var var | Real_power var var int | Undefined_real var
  | To_real var var | Round rounding var var
  | New_int var i64 | Set_int var i64 | New_lbits new_lbits var | Set_lbits set_lbits var
  | Concat_str var var var | Drop_str var var int | Take_str var var int
  | String_of_int var var | Dec_str var var | String_length var var
  | Get_int var "int \<Rightarrow> instr" | Get_real var "mpq \<Rightarrow> instr" | Get_bits var "lbits \<Rightarrow> instr" | Get_string var "string \<Rightarrow> instr"
  | Block "instr list"

fun act :: "(var \<Rightarrow> stmt) \<Rightarrow> (var \<Rightarrow> stmt) \<Rightarrow> (var \<Rightarrow> stmt) \<Rightarrow> (var \<Rightarrow> var \<Rightarrow> stmt) \<Rightarrow> action \<Rightarrow> stmt" where
  "act create recreate kill copy (Create x) = create x"
| "act create recreate kill copy (Recreate x) = recreate x"
| "act create recreate kill copy (Copy x y) = copy x y"
| "act create recreate kill copy (Kill x) = kill x"

primrec exec :: "gmp \<Rightarrow> gmpq \<Rightarrow> gmp_text \<Rightarrow> instr \<Rightarrow> stmt" where
  "exec G Q T (Int_action a) = act (create_sail_int_at G) (recreate_sail_int_at G) kill_sail_int (copy_sail_int_at G) a"
| "exec G Q T (Real_action a) = act create_real_at recreate_real_at kill_real copy_real_at a"
| "exec G Q T (Bits_action a) =
     act (create_lbits_at G) (recreate_lbits_at G) kill_lbits (\<lambda>x y. reading (pass y) (copy_lbits_at G x)) a"
| "exec G Q T (String_action a) =
     act create_sail_string_at recreate_sail_string_at kill_sail_string (\<lambda>x y. reading (str_of y) (copy_sail_string_at x)) a"
| "exec G Q T (Bits_un op z x) = un_call G op z x"
| "exec G Q T (Bits_bin op z x y) = bin_call G op z x y"
| "exec G Q T (Int_un op z x) = int_un_at G op (Var z) (Var x)"
| "exec G Q T (Int_bin op z x y) = int_bin_at G op (Var z) (Var x) (Var y)"
| "exec G Q T (Bits_to_int f z x) = reading (pass x) (bits_to_int_at G f (Var z))"
| "exec G Q T (Get_slice_int z n x s) = get_slice_int_at G z n (Var x) s"
| "exec G Q T (Set_slice_int z n x s y) = reading (pass y) (set_slice_int_at G (Var z) n (Var x) s)"
| "exec G Q T (Real_un op z x) = real_un_at G Q op z x"
| "exec G Q T (Real_bin op z x y) = real_bin_at Q op z x y"
| "exec G Q T (Real_power z x e) = real_power_at G Q z x e"
| "exec G Q T (Undefined_real z) = undefined_real_at z"
| "exec G Q T (To_real z x) = to_real_at Q z (Var x)"
| "exec G Q T (Round op z x) = round_at G op (Var z) x"
| "exec G Q T (New_int z w) = create_sail_int_of_mach_int_at G z w"
| "exec G Q T (Set_int z w) = convert_sail_int_of_mach_int_at G z w"
| "exec G Q T (New_lbits c z) = new_lbits_at G c z"
| "exec G Q T (Set_lbits c z) = set_lbits_at G c z"
| "exec G Q T (Concat_str z x y) = reading (str_of x) (\<lambda>p. reading (str_of y) (concat_str_at z p))"
| "exec G Q T (Drop_str z x n) = reading (str_of x) (\<lambda>p. string_drop_at G z p n)"
| "exec G Q T (Take_str z x n) = reading (str_of x) (\<lambda>p. string_take_at G z p n)"
| "exec G Q T (String_of_int z x) = string_of_int_at T z (Var x)"
| "exec G Q T (Dec_str z x) = dec_str_at T z (Var x)"
| "exec G Q T (String_length z x) = reading (str_of x) (string_length_at G (Var z))"
| "exec G Q T (Get_int x f) = reading (get_mpz (Var x)) (\<lambda>v. exec G Q T (f v))"
| "exec G Q T (Get_real x f) = reading (get_mpq x) (\<lambda>v. exec G Q T (f v))"
| "exec G Q T (Get_bits x f) = reading (pass x) (\<lambda>a. reading (get_mpz (a_bits a)) (\<lambda>v. exec G Q T (f \<lparr>l_len = a_len a, l_bits = v\<rparr>)))"
| "exec G Q T (Get_string x f) = reading (str_of x) (\<lambda>p. reading (get_string p) (\<lambda>s. exec G Q T (f s)))"
| "exec G Q T (Block p) = seq (map (exec G Q T) p)"

definition exec_all :: "gmp \<Rightarrow> gmpq \<Rightarrow> gmp_text \<Rightarrow> instr list \<Rightarrow> stmt" where
  "exec_all G Q T p = exec G Q T (Block p)"

text \<open>
  The same on values: \<open>None\<close> when a variable is used that is not live, created twice, or
  shared with a result that must be another one; otherwise the new values, or the fault of the operation.
\<close>

fun act_spec :: "(store \<Rightarrow> var \<Rightarrow> 'v option) \<Rightarrow> (var \<Rightarrow> 'v option \<Rightarrow> store \<Rightarrow> store) \<Rightarrow> 'v \<Rightarrow> (var \<Rightarrow> var \<Rightarrow> bool) \<Rightarrow>
    action \<Rightarrow> store \<Rightarrow> store option" where
  "act_spec get put initial copies (Create x) s = (if get s x = None then Some (put x (Some initial) s) else None)"
| "act_spec get put initial copies (Recreate x) s = (if get s x = None then None else Some (put x (Some initial) s))"
| "act_spec get put initial copies (Copy x y) s =
     (if get s x = None \<or> get s y = None \<or> \<not> copies x y then None else Some (put x (get s y) s))"
| "act_spec get put initial copies (Kill x) s = (if get s x = None then None else Some (put x None s))"

abbreviation put_int :: "var \<Rightarrow> int option \<Rightarrow> store \<Rightarrow> store" where
  "put_int x v s \<equiv> s\<lparr>s_ints := (s_ints s)(x := v)\<rparr>"

abbreviation put_real :: "var \<Rightarrow> mpq option \<Rightarrow> store \<Rightarrow> store" where
  "put_real x v s \<equiv> s\<lparr>s_reals := (s_reals s)(x := v)\<rparr>"

abbreviation put_lbits :: "var \<Rightarrow> lbits option \<Rightarrow> store \<Rightarrow> store" where
  "put_lbits x v s \<equiv> s\<lparr>s_lbits := (s_lbits s)(x := v)\<rparr>"

abbreviation put_string_var :: "var \<Rightarrow> string option \<Rightarrow> store \<Rightarrow> store" where
  "put_string_var x v s \<equiv> s\<lparr>s_strings := (s_strings s)(x := v)\<rparr>"

definition store_result :: "var \<Rightarrow> lbits res \<Rightarrow> store \<Rightarrow> store res" where
  "store_result z r s = bind_res r (\<lambda>v. Inr (put_lbits z (Some v) s))"

text \<open>Assignments: the result \<open>z\<close> is live, \<open>r\<close> is the new value or a fault.\<close>

definition assign_int :: "store \<Rightarrow> var \<Rightarrow> int res \<Rightarrow> store res option" where
  "assign_int s z r = (if s_ints s z = None then None else Some (bind_res r (\<lambda>v. Inr (put_int z (Some v) s))))"

definition assign_real :: "store \<Rightarrow> var \<Rightarrow> mpq res \<Rightarrow> store res option" where
  "assign_real s z r = (if s_reals s z = None then None else Some (bind_res r (\<lambda>v. Inr (put_real z (Some v) s))))"

definition assign_lbits_var :: "store \<Rightarrow> var \<Rightarrow> lbits res \<Rightarrow> store res option" where
  "assign_lbits_var s z r = (if s_lbits s z = None then None else Some (store_result z r s))"

definition assign_string :: "store \<Rightarrow> var \<Rightarrow> string res \<Rightarrow> store res option" where
  "assign_string s z r = (if s_strings s z = None then None else Some (bind_res r (\<lambda>v. Inr (put_string_var z (Some v) s))))"

text \<open>\<open>require_opt b r\<close> is \<open>r\<close> when \<open>b\<close> holds; \<open>chain\<close> runs one after the other up to the first fault.\<close>

definition require_opt :: "bool \<Rightarrow> 'a option \<Rightarrow> 'a option" where
  "require_opt b r = (if b then r else None)"

primrec chain :: "(store \<Rightarrow> store res option) list \<Rightarrow> store \<Rightarrow> store res option" where
  "chain [] s = Some (Inr s)"
| "chain (f # fs) s = Option.bind (f s) (\<lambda>r. case r of Inl e \<Rightarrow> Some (Inl e) | Inr s \<Rightarrow> chain fs s)"

primrec exec_spec :: "gmp \<Rightarrow> gmpq \<Rightarrow> gmp_text \<Rightarrow> instr \<Rightarrow> store \<Rightarrow> store res option" where
  "exec_spec G Q T (Int_action a) = (\<lambda>s. map_option Inr (act_spec s_ints put_int 0 (\<lambda>x y. True) a s))"
| "exec_spec G Q T (Real_action a) = (\<lambda>s. map_option Inr (act_spec s_reals put_real (mpq_of 0 1) (\<lambda>x y. True) a s))"
| "exec_spec G Q T (Bits_action a) =
     (\<lambda>s. map_option Inr (act_spec s_lbits put_lbits \<lparr>l_len = 0, l_bits = 0\<rparr> (\<lambda>x y. True) a s))"
| "exec_spec G Q T (String_action a) = (\<lambda>s. map_option Inr (act_spec s_strings put_string_var [] (\<lambda>x y. x \<noteq> y) a s))"
| "exec_spec G Q T (Bits_un op z x) = (\<lambda>s. Option.bind (s_lbits s x) (\<lambda>a.
     require_opt (un_apart op z x a) (assign_lbits_var s z (un_val G op a))))"
| "exec_spec G Q T (Bits_bin op z x y) = (\<lambda>s. Option.bind (s_lbits s x) (\<lambda>a. Option.bind (s_lbits s y) (\<lambda>b.
     require_opt (bin_apart op z x y) (assign_lbits_var s z (bin_val G op a b)))))"
| "exec_spec G Q T (Int_un op z x) = (\<lambda>s. Option.bind (s_ints s x) (\<lambda>a. assign_int s z (Inr (int_un_val G op a))))"
| "exec_spec G Q T (Int_bin op z x y) = (\<lambda>s. Option.bind (s_ints s x) (\<lambda>a. Option.bind (s_ints s y) (\<lambda>b.
     assign_int s z (int_bin_val G op a b))))"
| "exec_spec G Q T (Bits_to_int f z x) = (\<lambda>s. Option.bind (s_lbits s x) (\<lambda>a. assign_int s z (Inr (bits_to_int_val G f a))))"
| "exec_spec G Q T (Get_slice_int z n x k) = (\<lambda>s. Option.bind (s_ints s x) (\<lambda>a.
     assign_lbits_var s z (Inr (get_slice_int G n a k))))"
| "exec_spec G Q T (Set_slice_int z n x k y) = (\<lambda>s. Option.bind (s_ints s x) (\<lambda>a. Option.bind (s_lbits s y) (\<lambda>b.
     assign_int s z (Inr (set_slice_int G n a k b)))))"
| "exec_spec G Q T (Real_un op z x) = (\<lambda>s. Option.bind (s_reals s x) (\<lambda>a. assign_real s z (real_un_val G Q op a)))"
| "exec_spec G Q T (Real_bin op z x y) = (\<lambda>s. Option.bind (s_reals s x) (\<lambda>a. Option.bind (s_reals s y) (\<lambda>b.
     assign_real s z (real_bin_val Q op a b))))"
| "exec_spec G Q T (Real_power z x e) = (\<lambda>s. Option.bind (s_reals s x) (\<lambda>a.
     require_opt (x \<noteq> z) (assign_real s z (real_power G Q a e))))"
| "exec_spec G Q T (Undefined_real z) = (\<lambda>s. assign_real s z (Inr (undefined_real UNIT)))"
| "exec_spec G Q T (To_real z x) = (\<lambda>s. Option.bind (s_ints s x) (\<lambda>a. assign_real s z (to_real Q a)))"
| "exec_spec G Q T (Round op z x) = (\<lambda>s. Option.bind (s_reals s x) (\<lambda>a. assign_int s z (round_val G op a)))"
| "exec_spec G Q T (New_int z w) = (\<lambda>s. require_opt (s_ints s z = None)
     (Some (Inr (put_int z (Some (create_sail_int_of_mach_int G w)) s))))"
| "exec_spec G Q T (Set_int z w) = (\<lambda>s. assign_int s z (Inr (convert_sail_int_of_mach_int G w)))"
| "exec_spec G Q T (New_lbits c z) = (\<lambda>s. require_opt (s_lbits s z = None) (Some (Inr (put_lbits z (Some (new_lbits_val G c)) s))))"
| "exec_spec G Q T (Set_lbits c z) = (\<lambda>s. assign_lbits_var s z (Inr (set_lbits_val G c)))"
| "exec_spec G Q T (Concat_str z x y) = (\<lambda>s. Option.bind (s_strings s x) (\<lambda>a. Option.bind (s_strings s y) (\<lambda>b.
     require_opt (x \<noteq> z \<and> y \<noteq> z) (assign_string s z (Inr (a @ b))))))"
| "exec_spec G Q T (Drop_str z x n) = (\<lambda>s. Option.bind (s_strings s x) (\<lambda>a.
     require_opt (x \<noteq> z \<and> length a < 2 ^ 64) (assign_string s z (Inr (string_drop G a n)))))"
| "exec_spec G Q T (Take_str z x n) = (\<lambda>s. Option.bind (s_strings s x) (\<lambda>a.
     require_opt (x \<noteq> z \<and> length a < 2 ^ 64) (assign_string s z (string_take G a n))))"
| "exec_spec G Q T (String_of_int z x) = (\<lambda>s. Option.bind (s_ints s x) (\<lambda>a. assign_string s z (Inr (string_of_int T a))))"
| "exec_spec G Q T (Dec_str z x) = (\<lambda>s. Option.bind (s_ints s x) (\<lambda>a. assign_string s z (Inr (dec_str T a))))"
| "exec_spec G Q T (String_length z x) = (\<lambda>s. Option.bind (s_strings s x) (\<lambda>a. assign_int s z (Inr (string_length G a))))"
| "exec_spec G Q T (Get_int x f) = (\<lambda>s. Option.bind (s_ints s x) (\<lambda>v. exec_spec G Q T (f v) s))"
| "exec_spec G Q T (Get_real x f) = (\<lambda>s. Option.bind (s_reals s x) (\<lambda>v. exec_spec G Q T (f v) s))"
| "exec_spec G Q T (Get_bits x f) = (\<lambda>s. Option.bind (s_lbits s x) (\<lambda>v. exec_spec G Q T (f v) s))"
| "exec_spec G Q T (Get_string x f) = (\<lambda>s. Option.bind (s_strings s x) (\<lambda>v. exec_spec G Q T (f v) s))"
| "exec_spec G Q T (Block p) = chain (map (exec_spec G Q T) p)"

definition exec_all_spec :: "gmp \<Rightarrow> gmpq \<Rightarrow> gmp_text \<Rightarrow> instr list \<Rightarrow> store \<Rightarrow> store res option" where
  "exec_all_spec G Q T p s = exec_spec G Q T (Block p) s"

lemma exec_all_spec_chain: "exec_all_spec G Q T p = chain (map (exec_spec G Q T) p)"
  by (simp add: exec_all_spec_def fun_eq_iff)

lemma exec_all_spec_simps [simp]:
  "exec_all_spec G Q T [] s = Some (Inr s)"
  "exec_all_spec G Q T (i # p) s =
     Option.bind (exec_spec G Q T i s) (\<lambda>r. case r of Inl e \<Rightarrow> Some (Inl e) | Inr s \<Rightarrow> exec_all_spec G Q T p s)"
  unfolding exec_all_spec_chain by simp_all

lemmas assign_defs = assign_int_def assign_real_def assign_lbits_var_def assign_string_def store_result_def require_opt_def

section \<open>The code does what the program says\<close>

text \<open>A client of the interface of a builtin type.\<close>

context builtin_type
begin

lemma act_does:
  assumes "wf_heap h" "act_spec get put initial copies a (store_of h) = Some s"
  shows "does (act create recreate kill copy a) h (\<lambda>_. s)"
proof (cases a)
  case (Create x)
  with assms create_does [of h x] show ?thesis by (auto simp: does_def split: if_splits)
next
  case (Recreate x)
  with assms recreate_does [of h x] show ?thesis by (auto simp: does_def split: if_splits)
next
  case (Copy x y)
  with assms copy_does [of h x _ y] show ?thesis by (fastforce simp: does_def split: if_splits)
next
  case (Kill x)
  with assms kill_does [of h x] show ?thesis by (auto simp: does_def split: if_splits)
qed

text \<open>A variable that is not live cannot be used without a fault.\<close>

lemma act_dead:
  assumes "wf_heap h" "get (store_of h) x = None" "c \<in> {Recreate x, Kill x, Copy x y, Copy y x}"
  shows "act create recreate kill copy c h = Inl Undefined_behaviour"
  using assms recreate_dead kill_dead copy_dead by auto

end

text \<open>A call either does its update or fails as its value function does.\<close>

definition agrees :: "stmt \<Rightarrow> heap \<Rightarrow> store res \<Rightarrow> bool" where
  "agrees c h r \<longleftrightarrow> (case r of Inl e \<Rightarrow> c h = Inl e | Inr s \<Rightarrow> does c h (\<lambda>_. s))"

lemma agrees_cong: "c h = d h \<Longrightarrow> agrees c h r = agrees d h r"
  by (simp add: agrees_def does_def split: sum.splits)

lemma agrees_does: "does c h f \<Longrightarrow> agrees c h (Inr (f (store_of h)))"
  by (simp add: agrees_def does_def)

lemma agrees_if_does:
  assumes "\<And>e. r = Inl e \<Longrightarrow> c h = Inl e" "\<And>v. r = Inr v \<Longrightarrow> does c h (f v)"
  shows "agrees c h (bind_res r (\<lambda>v. Inr (f v (store_of h))))"
  using assms by (cases r) (auto simp: agrees_def does_def)

lemma chain_agrees:
  assumes "\<And>i h r. i \<in> set p \<Longrightarrow> wf_heap h \<Longrightarrow> sp i (store_of h) = Some r \<Longrightarrow> agrees (ex i) h r"
    "wf_heap h" "chain (map sp p) (store_of h) = Some r"
  shows "agrees (seq (map ex p)) h r"
  using assms
proof (induction p arbitrary: h)
  case Nil
  then show ?case by (auto simp: agrees_def does_def)
next
  case (Cons i p)
  from Cons.prems(3) obtain r1 where r1: "sp i (store_of h) = Some r1"
      "(case r1 of Inl e \<Rightarrow> Some (Inl e) | Inr s \<Rightarrow> chain (map sp p) s) = Some r"
    by (auto simp: bind_eq_Some_conv)
  have i: "agrees (ex i) h r1" using Cons.prems(1) [OF _ Cons.prems(2) r1(1)] by simp
  show ?case
  proof (cases r1)
    case (Inl e)
    with i r1(2) show ?thesis by (auto simp: agrees_def)
  next
    case (Inr s)
    with i obtain h' where h': "ex i h = Inr h'" "wf_heap h'" "store_of h' = s"
      by (auto simp: agrees_def does_def)
    with Cons.IH [OF _ h'(2)] Cons.prems(1) r1(2) Inr have "agrees (seq (map ex p)) h' r" by simp
    with h'(1) show ?thesis by (auto simp: agrees_def does_def split: sum.splits)
  qed
qed

text \<open>Calls that fail, or write an integer or a rational.\<close>

lemma int_agrees:
  assumes "wf_heap h" "assign_int (store_of h) z v = Some r" "h_mpz h (Var z) \<noteq> None \<Longrightarrow> c h = bind_res v (\<lambda>w. put_mpz (Var z) w h)"
  shows "agrees c h r"
proof -
  have z: "h_mpz h (Var z) \<noteq> None" and r: "r = bind_res v (\<lambda>w. Inr (put_int z (Some w) (store_of h)))"
    using assms(2) by (auto simp: assign_int_def split: if_splits)
  show ?thesis
    unfolding r by (rule agrees_if_does [where f = "\<lambda>w. put_int z (Some w)"]) (use assms(3) [OF z] int_put_does [OF assms(1) z, of c] in simp_all)
qed

lemma real_agrees:
  assumes "wf_heap h" "assign_real (store_of h) z v = Some r" "h_mpq h z \<noteq> None \<Longrightarrow> c h = bind_res v (\<lambda>w. put_mpq z w h)"
  shows "agrees c h r"
proof -
  have z: "h_mpq h z \<noteq> None" and r: "r = bind_res v (\<lambda>w. Inr (put_real z (Some w) (store_of h)))"
    using assms(2) by (auto simp: assign_real_def split: if_splits)
  show ?thesis
    unfolding r by (rule agrees_if_does [where f = "\<lambda>w. put_real z (Some w)"]) (use assms(3) [OF z] real_put_does [OF assms(1) z, of c] in simp_all)
qed

lemma un_agrees:
  assumes "wf_heap h" "lbits_at h z = Some r" "lbits_at h x = Some a" "un_apart op z x a"
  shows "agrees (un_call G op z x) h (store_result z (un_val G op a) (store_of h))"
  unfolding store_result_def using un_does [OF assms] un_call_fails [OF assms] by (rule agrees_if_does [rotated])

lemma bin_agrees:
  assumes "wf_heap h" "lbits_at h z = Some r" "lbits_at h x = Some a" "lbits_at h y = Some b" "bin_apart op z x y"
  shows "agrees (bin_call G op z x y) h (store_result z (bin_val G op a b) (store_of h))"
  unfolding store_result_def using bin_does [OF assms] bin_call_fails [OF assms(1,3,4)] by (rule agrees_if_does [rotated])

section \<open>Programs do what they say\<close>

text \<open>The laws of GMP that programs rely on: those of the integers, and those of their texts.\<close>

locale library_laws = gmp_laws G + gmp_text_laws T for G :: gmp and T :: gmp_text

interpretation library_ref: library_laws gmp_ref gmp_text_ref
  by (rule library_laws.intro [OF gmp_ref_laws gmp_text_ref_laws])

lemma library_ref_laws: "library_laws gmp_ref gmp_text_ref"
  by (rule library_ref.library_laws_axioms)

context library_laws
begin

lemma string_of_int_does:
  assumes "wf_heap h" "string_at h z = Some r" "h_mpz h (Var x) = Some a"
  shows "does (string_of_int_at T z (Var x)) h (put_string_var z (Some (string_of_int T a)))"
    "does (dec_str_at T z (Var x)) h (put_string_var z (Some (dec_str T a)))"
  using text_at_does [OF assms nul_dec_of_int]
  by (simp_all add: string_of_int_at_def dec_str_at_def string_of_int_def dec_str_def)

lemma exec_agrees:
  assumes "wf_heap h" "exec_spec G Q T i (store_of h) = Some r"
  shows "agrees (exec G Q T i) h r"
  using assms
proof (induction i arbitrary: h r)
  case (Int_action a)
  then show ?case by (auto simp: agrees_def intro: ints.act_does)
next
  case (Real_action a)
  then show ?case by (auto simp: agrees_def intro: reals.act_does)
next
  case (Bits_action a)
  then show ?case by (auto simp: agrees_def intro: bitvectors.act_does)
next
  case (String_action a)
  then show ?case by (auto simp: agrees_def intro: strings.act_does)
next
  case (Bits_un op z x)
  then show ?case by (auto simp: bind_eq_Some_conv assign_lbits_var_def require_opt_def intro!: un_agrees split: if_splits)
next
  case (Bits_bin op z x y)
  then show ?case by (auto simp: bind_eq_Some_conv assign_lbits_var_def require_opt_def intro!: bin_agrees split: if_splits)
next
  case (Int_un op z x)
  then show ?case
    using agrees_does [OF int_un_does] by (auto simp: bind_eq_Some_conv assign_int_def split: if_splits)
next
  case (Int_bin op z x y)
  then show ?case by (auto simp: bind_eq_Some_conv int_bin_eq intro: int_agrees)
next
  case (Real_un op z x)
  then show ?case by (auto simp: bind_eq_Some_conv real_un_eq intro: real_agrees)
next
  case (Real_bin op z x y)
  then show ?case by (auto simp: bind_eq_Some_conv real_bin_eq intro: real_agrees)
next
  case (Real_power z x e)
  then show ?case by (auto simp: bind_eq_Some_conv require_opt_def real_power_at_eq intro: real_agrees split: if_splits)
next
  case (Undefined_real z)
  then show ?case by (auto simp: undefined_real_at_def undefined_real_def intro: real_agrees)
next
  case (To_real z x)
  then show ?case by (auto simp: bind_eq_Some_conv to_real_at_eq intro: real_agrees)
next
  case (Round op z x)
  then show ?case by (auto simp: bind_eq_Some_conv round_eq intro: int_agrees)
next
  case (Bits_to_int f z x)
  then show ?case
    using agrees_does [OF bits_to_int_does] by (auto simp: bind_eq_Some_conv assign_int_def split: if_splits)
next
  case (Get_slice_int z n x k)
  then show ?case
    using agrees_does [OF get_slice_int_does] by (auto simp: bind_eq_Some_conv assign_lbits_var_def store_result_def split: if_splits)
next
  case (Set_slice_int z n x k y)
  then show ?case
    using agrees_does [OF set_slice_int_does] by (auto simp: bind_eq_Some_conv assign_int_def split: if_splits)
next
  case (New_int z w)
  then show ?case
    using agrees_does [OF create_int_does] by (auto simp: require_opt_def split: if_splits)
next
  case (Set_int z w)
  then show ?case
    using agrees_does [OF convert_int_does(1)] by (auto simp: assign_int_def split: if_splits)
next
  case (New_lbits c z)
  then show ?case
    using agrees_does [OF new_lbits_does] by (auto simp: require_opt_def split: if_splits)
next
  case (Set_lbits c z)
  then show ?case
    using agrees_does [OF set_lbits_does] by (auto simp: assign_lbits_var_def store_result_def split: if_splits)
next
  case (Concat_str z x y)
  then show ?case
    using agrees_does [OF concat_does] by (auto simp: bind_eq_Some_conv assign_string_def require_opt_def split: if_splits)
next
  case (Drop_str z x n)
  then show ?case
    using agrees_does [OF drop_does] by (auto simp: bind_eq_Some_conv assign_string_def require_opt_def split: if_splits)
next
  case (Take_str z x n)
  then obtain u a where u: "string_at h z = Some u" "string_at h x = Some a" "x \<noteq> z" "length a < 2 ^ 64"
      "r = bind_res (string_take G a n) (\<lambda>v. Inr (put_string_var z (Some v) (store_of h)))"
    by (auto simp: bind_eq_Some_conv assign_string_def require_opt_def split: if_splits)
  with take_agrees [OF Take_str.prems(1) u(1-4), of G n] show ?case
    by (cases "string_take G a n") (auto simp: agrees_def does_def)
next
  case (String_of_int z x)
  then show ?case
    using agrees_does [OF string_of_int_does(1)] by (auto simp: bind_eq_Some_conv assign_string_def split: if_splits)
next
  case (Dec_str z x)
  then show ?case
    using agrees_does [OF string_of_int_does(2)] by (auto simp: bind_eq_Some_conv assign_string_def split: if_splits)
next
  case (String_length z x)
  then show ?case
    using agrees_does [OF string_length_does] by (auto simp: bind_eq_Some_conv assign_int_def split: if_splits)
next
  case (Get_int x f)
  then obtain v where v: "h_mpz h (Var x) = Some v" "agrees (exec G Q T (f v)) h r" by (auto simp: bind_eq_Some_conv)
  then have "exec G Q T (Get_int x f) h = exec G Q T (f v) h" by (simp add: reading_def get_mpz_def)
  from agrees_cong [where c = "exec G Q T (Get_int x f)" and d = "exec G Q T (f v)", OF this] v(2) show ?case by blast
next
  case (Get_real x f)
  then obtain v where v: "h_mpq h x = Some v" "agrees (exec G Q T (f v)) h r" by (auto simp: bind_eq_Some_conv)
  then have "exec G Q T (Get_real x f) h = exec G Q T (f v) h" by (simp add: reading_def get_mpq_def)
  from agrees_cong [where c = "exec G Q T (Get_real x f)" and d = "exec G Q T (f v)", OF this] v(2) show ?case by blast
next
  case (Get_bits x f)
  then obtain v where v: "lbits_at h x = Some v" "agrees (exec G Q T (f v)) h r" by (auto simp: bind_eq_Some_conv)
  obtain q where q: "h_bits h x = Some q" using v(1) by (rule lbits_atE)
  have "exec G Q T (Get_bits x f) h = exec G Q T (f v) h"
    using pass_eq [OF Get_bits.prems(1) v(1) q] live_bits(3) [OF Get_bits.prems(1) v(1) q]
    by (cases v) (simp add: reading_def get_mpz_def)
  from agrees_cong [where c = "exec G Q T (Get_bits x f)" and d = "exec G Q T (f v)", OF this] v(2) show ?case by blast
next
  case (Get_string x f)
  then obtain v where v: "string_at h x = Some v" "agrees (exec G Q T (f v)) h r" by (auto simp: bind_eq_Some_conv)
  from v(1) have "exec G Q T (Get_string x f) h = exec G Q T (f v) h"
    by (auto simp: reading_def str_of_def get_string_def get_chars_def elim!: string_atE)
  from agrees_cong [where c = "exec G Q T (Get_string x f)" and d = "exec G Q T (f v)", OF this] v(2) show ?case by blast
next
  case (Block p)
  then show ?case by (auto intro!: chain_agrees [where sp = "exec_spec G Q T"])
qed

lemma exec_all_agrees:
  "wf_heap h \<Longrightarrow> exec_all_spec G Q T p (store_of h) = Some r \<Longrightarrow> agrees (exec_all G Q T p) h r"
  unfolding exec_all_def exec_all_spec_def by (rule exec_agrees)

end

context gmp_laws
begin

lemma exec_dead:
  assumes "wf_heap h" "c \<in> {Recreate x, Kill x, Copy x y, Copy y x}"
  shows "h_mpz h (Var x) = None \<Longrightarrow> exec G Q T (Int_action c) h = Inl Undefined_behaviour"
    "h_mpq h x = None \<Longrightarrow> exec G Q T (Real_action c) h = Inl Undefined_behaviour"
    "lbits_at h x = None \<Longrightarrow> exec G Q T (Bits_action c) h = Inl Undefined_behaviour"
    "string_at h x = None \<Longrightarrow> exec G Q T (String_action c) h = Inl Undefined_behaviour"
  using ints.act_dead [OF assms(1) _ assms(2)] reals.act_dead [OF assms(1) _ assms(2)]
    bitvectors.act_dead [OF assms(1) _ assms(2)] strings.act_dead [OF assms(1) _ assms(2)]
  by simp_all

end

text \<open>The power of a rational that is the result itself is a power of 1.\<close>

lemma power_shared:
  assumes "wf_heap h" "h_mpq h x = Some q" "real_power G Q (mpq_of (mpz_set_ui G 1) (mpz_set_ui G 1)) e = Inr v"
  shows "does (exec G Q T (Real_power x x e)) h (put_real x (Some v))"
  by (rule real_put_does [OF assms(1)]) (use assms(2,3) in \<open>simp_all add: real_power_at_eq\<close>)

section \<open>From start to end\<close>

text \<open>
  The temporaries are initialised by \<open>setup_library\<close> and cleared by \<open>cleanup_library\<close>; before and after, no
  memory is in use.
\<close>

definition setup_temps :: "gmp \<Rightarrow> stmt" where
  "setup_temps G = seq [init_mpz Tmp1 (mpz_init G), init_mpz Tmp2 (mpz_init G), init_mpz Tmp3 (mpz_init G)]"

definition cleanup_temps :: stmt where
  "cleanup_temps = seq [clear_mpz Tmp1, clear_mpz Tmp2, clear_mpz Tmp3]"

definition empty_heap :: heap where
  "empty_heap = \<lparr>h_mpz = (\<lambda>l. None), h_mpq = (\<lambda>x. None), h_len = (\<lambda>x. None), h_bits = (\<lambda>x. None), h_str = (\<lambda>x. None),
     h_chars = (\<lambda>p. None), h_live = {}, h_next = 0, h_leaks = 0\<rparr>"

definition no_memory :: "heap \<Rightarrow> bool" where
  "no_memory h \<longleftrightarrow> h_mpz h = (\<lambda>l. None) \<and> h_mpq h = (\<lambda>x. None) \<and> h_chars h = (\<lambda>p. None) \<and> h_live h = {} \<and> h_leaks h = 0"

definition empty_store :: store where
  "empty_store = \<lparr>s_ints = (\<lambda>x. None), s_reals = (\<lambda>x. None), s_lbits = (\<lambda>x. None), s_strings = (\<lambda>x. None)\<rparr>"

lemma setup_temps_does: "\<exists>h. setup_temps G empty_heap = Inr h \<and> wf_heap h \<and> store_of h = empty_store"
  by (simp add: setup_temps_def stmt_defs empty_heap_def wf_heap_def pointers_ok_def blocks_ok_def owned_bits_def owned_str_def
      temps_ok_def store_of_def empty_store_def fun_eq_iff lbits_at_def string_at_def)

lemma cleanup_temps_does:
  assumes "wf_heap h" "store_of h = empty_store"
  shows "\<exists>h'. cleanup_temps h = Inr h' \<and> no_memory h'"
proof -
  have e: "h_mpz h (Var x) = None" "h_mpq h = (\<lambda>x. None)" "lbits_at h = (\<lambda>x. None)" "string_at h = (\<lambda>x. None)" for x
    using assms(2) by (auto simp: store_of_def empty_store_def fun_eq_iff)
  have b: "h_live h = {}" "h_mpz h (Heap q) = None" "h_chars h q = None" for q
    using assms(1) e(3,4) by (auto simp: wf_heap_def blocks_ok_def owned_bits_def owned_str_def)
  have t: "h_mpz h Tmp1 \<noteq> None" "h_mpz h Tmp2 \<noteq> None" "h_mpz h Tmp3 \<noteq> None" "h_mpz h Local1 = None" "h_mpz h Local2 = None" "h_leaks h = 0"
    using assms(1) by (auto simp: wf_heap_def temps_ok_def)
  have "((h_mpz h)(Tmp1 := None, Tmp2 := None, Tmp3 := None)) l = None" for l
    using e(1) b(2) t by (cases l) auto
  then show ?thesis
    using t e b by (auto simp: cleanup_temps_def stmt_defs no_memory_def fun_eq_iff)
qed

context library_laws
begin

text \<open>A program that kills every variable it creates leaves no memory in use.\<close>

lemma program_frees:
  assumes "exec_all_spec G Q T p empty_store = Some (Inr empty_store)"
  shows "\<exists>h. seq [setup_temps G, exec_all G Q T p, cleanup_temps] empty_heap = Inr h \<and> no_memory h"
proof -
  obtain h where h: "setup_temps G empty_heap = Inr h" "wf_heap h" "store_of h = empty_store"
    using setup_temps_does by blast
  with exec_all_agrees [OF h(2), of Q p "Inr empty_store"] assms obtain h' where h': "exec_all G Q T p h = Inr h'" "wf_heap h'" "store_of h' = empty_store"
    by (auto simp: agrees_def does_def)
  with cleanup_temps_does [OF h'(2,3)] h(1) show ?thesis by auto
qed

end

section \<open>Memory that is lost or used after it was freed\<close>

text \<open>\<open>get_cycle_count\<close> (\<open>rts.c\<close>) initialises its result, which its caller has created.\<close>

definition get_cycle_count_at :: "gmp \<Rightarrow> rts \<Rightarrow> var \<Rightarrow> stmt" where
  "get_cycle_count_at G st rop = init_mpz (Var rop) (mpz_set_ui G (g_cycle_count st))"

lemma cycle_count_leaks:
  assumes "wf_heap h" "h_mpz h (Var x) \<noteq> None"
  shows "\<exists>h'. get_cycle_count_at G st x h = Inr h' \<and> h_leaks h' = 1 \<and> h_mpz h' (Var x) = Some (mpz_set_ui G (g_cycle_count st))"
  using assms by (auto simp: get_cycle_count_at_def stmt_defs wf_heap_def)

end
