(* ===== verification/Sail_Scope.thy ===== *)
theory Sail_Scope
  imports Sail_Programs
begin

text \<open>
  Scoping of programs: which variables are live before and after a piece of
  code, for each of the builtin types. Code that is well scoped never runs into a variable that is not live.
\<close>

section \<open>Scopes\<close>

record scope =
  v_ints :: "var set"
  v_reals :: "var set"
  v_lbits :: "var set"
  v_strings :: "var set"

definition scope_of :: "store \<Rightarrow> scope" where
  "scope_of s = \<lparr>v_ints = dom (s_ints s), v_reals = dom (s_reals s), v_lbits = dom (s_lbits s), v_strings = dom (s_strings s)\<rparr>"

definition no_variables :: scope where
  "no_variables = \<lparr>v_ints = {}, v_reals = {}, v_lbits = {}, v_strings = {}\<rparr>"

fun act_scope :: "(var \<Rightarrow> var \<Rightarrow> bool) \<Rightarrow> action \<Rightarrow> var set \<Rightarrow> var set option" where
  "act_scope copies (Create x) V = (if x \<in> V then None else Some (insert x V))"
| "act_scope copies (Recreate x) V = (if x \<in> V then Some V else None)"
| "act_scope copies (Copy x y) V = (if x \<in> V \<and> y \<in> V \<and> copies x y then Some V else None)"
| "act_scope copies (Kill x) V = (if x \<in> V then Some (V - {x}) else None)"

text \<open>The count of \<open>replicate_bits\<close> is the bound of a loop over an \<open>int\<close>.\<close>

fun count_ok :: "un_op \<Rightarrow> bool" where
  "count_ok (Replicate n) = (0 \<le> n \<and> n \<le> int_max)"
| "count_ok f = True"

text \<open>
  \<open>scoped V i W\<close>: with \<open>V\<close> live before \<open>i\<close> the code is well scoped, and \<open>W\<close> is live after it. The parts of
  strings are left out: that a string is shorter than \<open>2 ^ 64\<close> is not a matter of scoping.
\<close>

inductive scoped :: "scope \<Rightarrow> instr \<Rightarrow> scope \<Rightarrow> bool" where
  Int_action: "act_scope (\<lambda>x y. True) a (v_ints V) = Some X \<Longrightarrow> scoped V (Int_action a) (V\<lparr>v_ints := X\<rparr>)"
| Real_action: "act_scope (\<lambda>x y. True) a (v_reals V) = Some X \<Longrightarrow> scoped V (Real_action a) (V\<lparr>v_reals := X\<rparr>)"
| Bits_action: "act_scope (\<lambda>x y. True) a (v_lbits V) = Some X \<Longrightarrow> scoped V (Bits_action a) (V\<lparr>v_lbits := X\<rparr>)"
| String_action: "act_scope (\<lambda>x y. x \<noteq> y) a (v_strings V) = Some X \<Longrightarrow> scoped V (String_action a) (V\<lparr>v_strings := X\<rparr>)"
| Bits_un: "z \<in> v_lbits V \<Longrightarrow> x \<in> v_lbits V \<Longrightarrow> un_alias f \<or> x \<noteq> z \<Longrightarrow> count_ok f \<Longrightarrow> scoped V (Bits_un f z x) V"
| Bits_bin: "z \<in> v_lbits V \<Longrightarrow> x \<in> v_lbits V \<Longrightarrow> y \<in> v_lbits V \<Longrightarrow> bin_apart f z x y \<Longrightarrow> scoped V (Bits_bin f z x y) V"
| Int_un: "z \<in> v_ints V \<Longrightarrow> x \<in> v_ints V \<Longrightarrow> scoped V (Int_un g z x) V"
| Int_bin: "z \<in> v_ints V \<Longrightarrow> x \<in> v_ints V \<Longrightarrow> y \<in> v_ints V \<Longrightarrow> scoped V (Int_bin g' z x y) V"
| Bits_to_int: "z \<in> v_ints V \<Longrightarrow> x \<in> v_lbits V \<Longrightarrow> scoped V (Bits_to_int c z x) V"
| Get_slice_int: "z \<in> v_lbits V \<Longrightarrow> x \<in> v_ints V \<Longrightarrow> scoped V (Get_slice_int z n x k) V"
| Set_slice_int: "z \<in> v_ints V \<Longrightarrow> x \<in> v_ints V \<Longrightarrow> y \<in> v_lbits V \<Longrightarrow> scoped V (Set_slice_int z n x k y) V"
| Real_un: "z \<in> v_reals V \<Longrightarrow> x \<in> v_reals V \<Longrightarrow> scoped V (Real_un r z x) V"
| Real_bin: "z \<in> v_reals V \<Longrightarrow> x \<in> v_reals V \<Longrightarrow> y \<in> v_reals V \<Longrightarrow> scoped V (Real_bin r' z x y) V"
| Real_power: "z \<in> v_reals V \<Longrightarrow> x \<in> v_reals V \<Longrightarrow> x \<noteq> z \<Longrightarrow> - (2 ^ 63) < e \<Longrightarrow> e < 2 ^ 63 \<Longrightarrow> scoped V (Real_power z x e) V"
| Undefined_real: "z \<in> v_reals V \<Longrightarrow> scoped V (Undefined_real z) V"
| To_real: "z \<in> v_reals V \<Longrightarrow> x \<in> v_ints V \<Longrightarrow> scoped V (To_real z x) V"
| Round: "z \<in> v_ints V \<Longrightarrow> x \<in> v_reals V \<Longrightarrow> scoped V (Round d z x) V"
| New_int: "z \<notin> v_ints V \<Longrightarrow> scoped V (New_int z w) (V\<lparr>v_ints := insert z (v_ints V)\<rparr>)"
| Set_int: "z \<in> v_ints V \<Longrightarrow> scoped V (Set_int z w) V"
| New_lbits: "z \<notin> v_lbits V \<Longrightarrow> scoped V (New_lbits b z) (V\<lparr>v_lbits := insert z (v_lbits V)\<rparr>)"
| Set_lbits: "z \<in> v_lbits V \<Longrightarrow> scoped V (Set_lbits b' z) V"
| Concat_str: "z \<in> v_strings V \<Longrightarrow> x \<in> v_strings V \<Longrightarrow> y \<in> v_strings V \<Longrightarrow> x \<noteq> z \<Longrightarrow> y \<noteq> z \<Longrightarrow> scoped V (Concat_str z x y) V"
| String_of_int: "z \<in> v_strings V \<Longrightarrow> x \<in> v_ints V \<Longrightarrow> scoped V (String_of_int z x) V"
| Dec_str: "z \<in> v_strings V \<Longrightarrow> x \<in> v_ints V \<Longrightarrow> scoped V (Dec_str z x) V"
| String_length: "z \<in> v_ints V \<Longrightarrow> x \<in> v_strings V \<Longrightarrow> scoped V (String_length z x) V"
| Get_int: "x \<in> v_ints V \<Longrightarrow> (\<And>v. scoped V (i v) W) \<Longrightarrow> scoped V (Get_int x i) W"
| Get_real: "x \<in> v_reals V \<Longrightarrow> (\<And>v. scoped V (k' v) W) \<Longrightarrow> scoped V (Get_real x k') W"
| Get_bits: "x \<in> v_lbits V \<Longrightarrow> (\<And>v. scoped V (i' v) W) \<Longrightarrow> scoped V (Get_bits x i') W"
| Get_string: "x \<in> v_strings V \<Longrightarrow> (\<And>v. scoped V (i'' v) W) \<Longrightarrow> scoped V (Get_string x i'') W"
| Block_Nil: "scoped V (Block []) V"
| Block_Cons: "scoped V j U \<Longrightarrow> scoped U (Block p) W \<Longrightarrow> scoped V (Block (j # p)) W"

lemma scoped_if: "(b \<Longrightarrow> scoped V i W) \<Longrightarrow> (\<not> b \<Longrightarrow> scoped V j W) \<Longrightarrow> scoped V (if b then i else j) W"
  by simp

lemma scoped_Nil: "V = W \<Longrightarrow> scoped V (Block []) W"
  by (simp add: scoped.Block_Nil)

inductive_simps scoped_Nil_iff: "scoped V (Block []) W"
inductive_simps scoped_Cons_iff: "scoped V (Block (i # p)) W"

text \<open>Pieces of code compose when the scopes between them agree.\<close>

lemma scoped_append: "scoped V (Block (p @ q)) W \<longleftrightarrow> (\<exists>U. scoped V (Block p) U \<and> scoped U (Block q) W)"
  by (induction p arbitrary: V) (auto simp: scoped_Nil_iff scoped_Cons_iff)

section \<open>Well scoped programs run\<close>

text \<open>The program on values is defined, and leaves the variables live that the scoping says, or stops with a clean fault.\<close>

definition clean_faults :: "fault set" where
  "clean_faults = {Assertion_failed, Gmp_abort, No_return}"

definition scopes :: "store res option \<Rightarrow> scope \<Rightarrow> bool" where
  "scopes r W \<longleftrightarrow> (case r of None \<Rightarrow> False | Some (Inl e) \<Rightarrow> e \<in> clean_faults | Some (Inr s) \<Rightarrow> scope_of s = W)"

lemma scopes_simps [simp]:
  "scopes (Some (Inl e)) W = (e \<in> clean_faults)" "scopes (Some (Inr s)) W = (scope_of s = W)"
  by (simp_all add: scopes_def)

definition clean :: "'a res \<Rightarrow> bool" where
  "clean r \<longleftrightarrow> (\<forall>e. r = Inl e \<longrightarrow> e \<in> clean_faults)"

lemma clean_simps [simp]: "clean (Inr v)" "clean (Inl e) = (e \<in> clean_faults)" "clean (check b e r) = (if b then clean r else e \<in> clean_faults)"
  by (simp_all add: clean_def check_def)

lemma scopes_assign:
  "z \<in> v_ints (scope_of s) \<Longrightarrow> clean r \<Longrightarrow> scopes (assign_int s z r) (scope_of s)"
  "z \<in> v_reals (scope_of s) \<Longrightarrow> clean q \<Longrightarrow> scopes (assign_real s z q) (scope_of s)"
  "z \<in> v_lbits (scope_of s) \<Longrightarrow> clean r' \<Longrightarrow> scopes (assign_lbits_var s z r') (scope_of s)"
  "z \<in> v_strings (scope_of s) \<Longrightarrow> clean r'' \<Longrightarrow> scopes (assign_string s z r'') (scope_of s)"
  by (cases r; cases r'; cases r''; cases q; auto simp: assign_defs scope_of_def insert_absorb domI)+

lemma scopes_act:
  assumes "act_scope copies a (dom (get s)) = Some X"
    and "\<And>x v. get (put x v s) = (get s)(x := v)"
  shows "\<exists>s'. act_spec get put initial copies a s = Some s' \<and> dom (get s') = X \<and> (\<exists>x v. s' = put x v s)"
  using assms by (cases a) (auto simp: domIff split: if_splits)

context gmp_laws
begin

lemma clean_values: "count_ok f \<Longrightarrow> clean (un_val G f a)" "clean (bin_val G f' a b)" "clean (int_bin_val G g m n)"
proof -
  have [simp]: "Assertion_failed \<in> clean_faults" "Gmp_abort \<in> clean_faults" "No_return \<in> clean_faults"
    by (simp_all add: clean_faults_def)
  have count: "uint (word_of_int n :: u64) \<le> int_max" if "0 \<le> n" "n \<le> int_max" for n
    using that by (simp add: uint_word_of_int)
  show "count_ok f \<Longrightarrow> clean (un_val G f a)"
    by (cases f) (auto simp: clean_def un_defs sign_extend_def reverse_endianness_def check_def Let_def of_option_def bind_res_def count
      split: if_splits option.splits sum.splits)
  show "clean (bin_val G f' a b)"
    by (cases f') (auto simp: clean_def bin_defs check_def Let_def split: if_splits)
  show "clean (int_bin_val G g m n)"
    by (cases g) (auto simp: clean_def tdiv_int_def tmod_int_def fdiv_int_def fmod_int_def of_option_def split: option.splits)
qed

lemma sqrt_loop_clean: "sqrt_loop Q q c p = Some x \<Longrightarrow> clean x"
proof (induction rule: sqrt_loop.raw_induct [rotated, consumes 1, case_names step])
  case (step sqrt_loop Q q c p y)
  then show ?case by (auto simp: Let_def clean_faults_def split: option.splits if_splits)
qed

lemma clean_rationals:
  "clean (real_un_val G Q r a)" "clean (real_bin_val Q r' a b)" "clean (to_real Q k)" "clean (round_val G d a)"
  "- (2 ^ 63) < e \<Longrightarrow> e < 2 ^ 63 \<Longrightarrow> clean (real_power G Q a e)"
proof -
  have [simp]: "Gmp_abort \<in> clean_faults" "No_return \<in> clean_faults" by (simp_all add: clean_faults_def)
  have [simp]: "clean (of_option Gmp_abort x)" for x :: "'a option" by (cases x) simp_all
  have [simp]: "clean (bind_res x f)" if "clean x" "\<And>v. clean (f v)" for x :: "'a res" and f :: "'a \<Rightarrow> 'b res"
    using that by (cases x) simp_all
  show "clean (real_un_val G Q r a)"
    using sqrt_loop_clean by (cases r) (auto simp: sqrt_real_def Let_def split: option.splits)
  show "clean (real_bin_val Q r' a b)" by (cases r') (simp_all add: div_real_def)
  show "clean (to_real Q k)" by (simp add: to_real_def)
  show "clean (round_val G d a)" by (cases d) (simp_all add: round_up_def round_down_def)
  show "clean (real_power G Q a e)" if e: "- (2 ^ 63) < e" "e < 2 ^ 63"
  proof -
    have "sint (mpz_get_si G e) = e" using e by (simp add: mpz_get_si_law sint_of_int64)
    then show ?thesis using e by (simp add: real_power_def Let_def)
  qed
qed

lemma scoped_spec: "scoped V i W \<Longrightarrow> scope_of s = V \<Longrightarrow> scopes (exec_spec G Q T i s) W"
proof (induction arbitrary: s rule: scoped.induct)
  case (Int_action a V X)
  then show ?case
    using scopes_act [of "\<lambda>x y. True" a s_ints s X put_int 0] by (auto simp: scope_of_def)
next
  case (Real_action a V X)
  then show ?case
    using scopes_act [of "\<lambda>x y. True" a s_reals s X put_real "mpq_of 0 1"] by (auto simp: scope_of_def)
next
  case (Bits_action a V X)
  then show ?case
    using scopes_act [of "\<lambda>x y. True" a s_lbits s X put_lbits "\<lparr>l_len = 0, l_bits = 0\<rparr>"] by (auto simp: scope_of_def)
next
  case (String_action a V X)
  then show ?case
    using scopes_act [of "\<lambda>x y. x \<noteq> y" a s_strings s X put_string_var "[]"] by (auto simp: scope_of_def)
next
  case (Block_Cons V j U p W)
  from Block_Cons.IH(1) [OF Block_Cons.prems] obtain r where r: "exec_spec G Q T j s = Some r" "scopes (Some r) U"
    by (cases "exec_spec G Q T j s") (auto simp: scopes_def)
  with Block_Cons.IH(2) show ?case by (cases r) auto
next
  case (Get_int x V i W)
  then obtain v where "s_ints s x = Some v" by (auto simp: scope_of_def)
  with Get_int show ?case by simp
next
  case (Get_real x V i W)
  then obtain v where "s_reals s x = Some v" by (auto simp: scope_of_def)
  with Get_real show ?case by simp
next
  case (Get_bits x V i W)
  then obtain v where "s_lbits s x = Some v" by (auto simp: scope_of_def)
  with Get_bits show ?case by simp
next
  case (Get_string x V i W)
  then obtain v where "s_strings s x = Some v" by (auto simp: scope_of_def)
  with Get_string show ?case by simp
next
  case (New_int z V w)
  then show ?case by (auto simp: scope_of_def require_opt_def)
next
  case (New_lbits z V b)
  then show ?case by (auto simp: scope_of_def require_opt_def)
next
  case (Bits_un z V x f)
  then obtain a where "s_lbits s x = Some a" by (auto simp: scope_of_def)
  moreover have "un_apart f z x a" using Bits_un.hyps by (auto simp: un_apart_def)
  moreover have "scopes (assign_lbits_var s z (un_val G f a)) V"
    using Bits_un scopes_assign(3) [OF _ clean_values(1)] by auto
  ultimately show ?case by (simp add: require_opt_def)
next
  case (Bits_bin z V x y f)
  then obtain a b where "s_lbits s x = Some a" "s_lbits s y = Some b" by (auto simp: scope_of_def)
  with Bits_bin show ?case by (auto simp: require_opt_def scopes_assign clean_values)
next
  case (Int_un z V x g)
  then obtain a where "s_ints s x = Some a" by (auto simp: scope_of_def)
  with Int_un show ?case by (auto simp: scopes_assign)
next
  case (Int_bin z V x y g)
  then obtain a b where "s_ints s x = Some a" "s_ints s y = Some b" by (auto simp: scope_of_def)
  with Int_bin show ?case by (auto simp: scopes_assign clean_values)
next
  case (Real_un z V x r)
  then obtain a where "s_reals s x = Some a" by (auto simp: scope_of_def)
  with Real_un show ?case by (auto simp: scopes_assign clean_rationals)
next
  case (Real_bin z V x y r)
  then obtain a b where "s_reals s x = Some a" "s_reals s y = Some b" by (auto simp: scope_of_def)
  with Real_bin show ?case by (auto simp: scopes_assign clean_rationals)
next
  case (Real_power z V x e)
  then obtain a where "s_reals s x = Some a" by (auto simp: scope_of_def)
  with Real_power show ?case by (auto simp: require_opt_def scopes_assign clean_rationals)
next
  case (To_real z V x)
  then obtain a where "s_ints s x = Some a" by (auto simp: scope_of_def)
  with To_real show ?case by (auto simp: scopes_assign clean_rationals)
next
  case (Round z V x d)
  then obtain a where "s_reals s x = Some a" by (auto simp: scope_of_def)
  with Round show ?case by (auto simp: scopes_assign clean_rationals)
next
  case (Bits_to_int z V x c)
  then obtain a where "s_lbits s x = Some a" by (auto simp: scope_of_def)
  with Bits_to_int show ?case by (auto simp: scopes_assign)
next
  case (Get_slice_int z V x n k)
  then obtain a where "s_ints s x = Some a" by (auto simp: scope_of_def)
  with Get_slice_int show ?case by (auto simp: scopes_assign)
next
  case (Set_slice_int z V x y n k)
  then obtain a b where "s_ints s x = Some a" "s_lbits s y = Some b" by (auto simp: scope_of_def)
  with Set_slice_int show ?case by (auto simp: scopes_assign)
next
  case (Concat_str z V x y)
  then obtain a b where "s_strings s x = Some a" "s_strings s y = Some b" by (auto simp: scope_of_def)
  with Concat_str show ?case by (auto simp: require_opt_def scopes_assign clean_values)
next
  case (String_of_int z V x)
  then obtain a where "s_ints s x = Some a" by (auto simp: scope_of_def)
  with String_of_int show ?case by (auto simp: scopes_assign)
next
  case (Dec_str z V x)
  then obtain a where "s_ints s x = Some a" by (auto simp: scope_of_def)
  with Dec_str show ?case by (auto simp: scopes_assign)
next
  case (String_length z V x)
  then obtain a where "s_strings s x = Some a" by (auto simp: scope_of_def)
  with String_length show ?case by (auto simp: scopes_assign)
qed (auto simp: scopes_assign)

end

section \<open>On the heap\<close>

context library_laws
begin

text \<open>
  Well scoped code from any well-formed heap: it leaves the variables live that the scoping says, or stops
  with the clean fault of an operation.
\<close>

lemma scoped_runs:
  assumes "wf_heap h" "scoped (scope_of (store_of h)) (Block p) W"
  shows "(\<exists>h'. exec_all G Q T p h = Inr h' \<and> wf_heap h' \<and> scope_of (store_of h') = W) \<or>
    (\<exists>e\<in>clean_faults. exec_all_spec G Q T p (store_of h) = Some (Inl e) \<and> exec_all G Q T p h = Inl e)"
proof -
  obtain r where r: "exec_all_spec G Q T p (store_of h) = Some r" "scopes (Some r) W"
    using scoped_spec [OF assms(2) refl, of Q T] by (cases "exec_spec G Q T (Block p) (store_of h)") (auto simp: scopes_def exec_all_spec_def)
  with exec_all_agrees [OF assms(1) r(1)] show ?thesis
    by (cases r) (auto simp: agrees_def does_def)
qed

lemma scope_of_empty: "scope_of s = no_variables \<Longrightarrow> s = empty_store"
  by (cases s) (auto simp: scope_of_def no_variables_def empty_store_def)

lemma scoped_program_frees:
  assumes "scoped no_variables (Block p) no_variables"
  shows "(\<exists>h. seq [setup_temps G, exec_all G Q T p, cleanup_temps] empty_heap = Inr h \<and> no_memory h) \<or>
    (\<exists>e\<in>clean_faults. exec_all_spec G Q T p empty_store = Some (Inl e) \<and>
       seq [setup_temps G, exec_all G Q T p, cleanup_temps] empty_heap = Inl e)"
proof -
  obtain h where h: "setup_temps G empty_heap = Inr h" "wf_heap h" "store_of h = empty_store"
    using setup_temps_does by blast
  have "scope_of empty_store = no_variables" by (simp add: scope_of_def no_variables_def empty_store_def)
  then have "scoped (scope_of (store_of h)) (Block p) no_variables" using assms h(3) by simp
  from scoped_runs [OF h(2) this, of Q] show ?thesis
  proof (elim disjE exE conjE bexE)
    fix h' assume "exec_all G Q T p h = Inr h'" "wf_heap h'" "scope_of (store_of h') = no_variables"
    with cleanup_temps_does [OF this(2) scope_of_empty] h(1) show ?thesis by auto
  next
    fix e assume "e \<in> clean_faults" "exec_all_spec G Q T p (store_of h) = Some (Inl e)" "exec_all G Q T p h = Inl e"
    with h show ?thesis by auto
  qed
qed

end

end
