(* ===== verification/Theorems_Store.thy ===== *)
theory Theorems_Store
  imports Sail_Scope
begin

text \<open>
  The properties of the code on the heap: what the functions compute when their result is stored where
  an operand is, and what programs over the builtin types do to memory.
\<close>

section \<open>A heap with variables\<close>

text \<open>The witnesses start from the heap a small program leaves.\<close>

definition sample_program :: "instr list" where
  "sample_program =
     [Bits_action (Create 0), Bits_un (Zero_extend 4) 0 0, Bits_un Not_bits 0 0,
      Bits_action (Create 1), Bits_un (Zero_extend 12) 1 0,
      String_action (Create 0), String_action (Create 1), Int_action (Create 0)]"

definition sample_store :: store where
  "sample_store = \<lparr>s_ints = (\<lambda>x. None)(0 \<mapsto> 0), s_reals = (\<lambda>x. None),
     s_lbits = (\<lambda>x. None)(0 \<mapsto> \<lparr>l_len = 4, l_bits = 15\<rparr>, 1 \<mapsto> \<lparr>l_len = 12, l_bits = 15\<rparr>),
     s_strings = (\<lambda>x. None)(0 \<mapsto> [], 1 \<mapsto> [])\<rparr>"

lemma sample_values: "exec_all_spec gmp_ref gmpq_ref gmp_text_ref sample_program empty_store = Some (Inr sample_store)"
proof -
  have "not_bits gmp_ref \<lparr>l_len = 4, l_bits = 0\<rparr> = \<lparr>l_len = 4, l_bits = 15\<rparr>" by code_simp
  then show ?thesis
    by (simp add: sample_program_def sample_store_def empty_store_def assign_defs un_apart_def zero_extend_def)
qed

lemma sample_heap:
  obtains h where "wf_heap h" "store_of h = sample_store"
proof -
  obtain h0 where h0: "wf_heap h0" "store_of h0 = empty_store" using setup_temps_does by blast
  with library_laws.exec_all_agrees [OF library_ref_laws h0(1), of gmpq_ref sample_program "Inr sample_store"] sample_values
  show ?thesis using that by (auto simp: agrees_def does_def)
qed

lemma sample_fields:
  assumes "store_of h = sample_store"
  shows "lbits_at h 0 = Some \<lparr>l_len = 4, l_bits = 15\<rparr>" "lbits_at h 1 = Some \<lparr>l_len = 12, l_bits = 15\<rparr>"
    "string_at h 0 = Some []" "string_at h 1 = Some []" "h_mpz h (Var 0) = Some 0" "lbits_at h 2 = None"
    "h_mpz h (Var 1) = None" "h_mpq h 0 = None" "string_at h 2 = None"
proof -
  have "s_lbits (store_of h) 0 = s_lbits sample_store 0" "s_lbits (store_of h) 1 = s_lbits sample_store 1"
    "s_strings (store_of h) 0 = s_strings sample_store 0" "s_strings (store_of h) 1 = s_strings sample_store 1"
    "s_ints (store_of h) 0 = s_ints sample_store 0" "s_lbits (store_of h) 2 = s_lbits sample_store 2"
    "s_ints (store_of h) 1 = s_ints sample_store 1" "s_reals (store_of h) 0 = s_reals sample_store 0"
    "s_strings (store_of h) 2 = s_strings sample_store 2"
    by (simp_all only: assms)
  then show "lbits_at h 0 = Some \<lparr>l_len = 4, l_bits = 15\<rparr>" "lbits_at h 1 = Some \<lparr>l_len = 12, l_bits = 15\<rparr>"
    "string_at h 0 = Some []" "string_at h 1 = Some []" "h_mpz h (Var 0) = Some 0" "lbits_at h 2 = None"
    "h_mpz h (Var 1) = None" "h_mpq h 0 = None" "string_at h 2 = None"
    by (simp_all add: sample_store_def)
qed

section \<open>Results and operands\<close>

text \<open>
  C16. On the heap, each bitvector function does to its result variable what its value function says, with
  every other object unchanged, no memory lost and the same faults: for any variables when the function
  reads its operands before it writes, and otherwise when the result is another variable than the operands it
  still needs. The static temporaries, which the functions share, do not disturb this.
\<close>

theorem bitvector_calls_refine_values:
  assumes "wf_heap h" "lbits_at h z = Some r" "lbits_at h x = Some a" "lbits_at h y = Some b"
  shows "(un_apart u z x a \<longrightarrow> agrees (un_call G u z x) h (store_result z (un_val G u a) (store_of h))) \<and>
    (bin_apart f z x y \<longrightarrow> agrees (bin_call G f z x y) h (store_result z (bin_val G f a b) (store_of h)))"
proof (intro conjI impI)
  assume "un_apart u z x a"
  with un_does [OF assms(1-3)] un_call_fails [OF assms(1-3)]
  show "agrees (un_call G u z x) h (store_result z (un_val G u a) (store_of h))"
    by (cases "un_val G u a") (auto simp: agrees_def store_result_def does_def)
next
  assume "bin_apart f z x y"
  with bin_does [OF assms] bin_call_fails [OF assms(1,3,4)]
  show "agrees (bin_call G f z x y) h (store_result z (bin_val G f a b) (store_of h))"
    by (cases "bin_val G f a b") (auto simp: agrees_def store_result_def does_def)
qed

theorem bitvector_calls_refine_values_witness:
  "\<exists>h h'. wf_heap h \<and> bin_call gmp_ref Append 0 0 1 h = Inr h' \<and> lbits_at h' 0 = Some \<lparr>l_len = 16, l_bits = 0xF00F\<rparr>"
proof (rule sample_heap)
  fix h assume h: "wf_heap h" "store_of h = sample_store"
  note f = sample_fields [OF h(2)]
  have "append gmp_ref \<lparr>l_len = 4, l_bits = 15\<rparr> \<lparr>l_len = 12, l_bits = 15\<rparr> = \<lparr>l_len = 16, l_bits = 0xF00F\<rparr>" by code_simp
  then have "does (bin_call gmp_ref Append 0 0 1) h (\<lambda>_. put_lbits 0 (Some \<lparr>l_len = 16, l_bits = 0xF00F\<rparr>) (store_of h))"
    using bitvector_calls_refine_values [OF h(1) f(1,1,2), of Not_bits gmp_ref Append]
    by (simp add: bin_apart_def store_result_def agrees_def)
  then obtain h' where h': "bin_call gmp_ref Append 0 0 1 h = Inr h'"
      "store_of h' = put_lbits 0 (Some \<lparr>l_len = 16, l_bits = 0xF00F\<rparr>) (store_of h)" by (auto simp: does_def)
  have "s_lbits (store_of h') 0 = Some \<lparr>l_len = 16, l_bits = 0xF00F\<rparr>" by (simp only: h'(2)) simp
  with h(1) h'(1) show ?thesis by auto
qed

text \<open>
  C17. With the result stored in an operand that is still needed the functions return, without losing memory,
  but compute something else: a slice and a replication are all zeros, so is byte reversal of a length that
  has no fast path, appending loses the second operand, the arithmetic shift becomes a logical one, and
  replacing the low bits by the result's own old value changes nothing. A power of a rational stored in the
  variable of its base is a power of 1.
\<close>

theorem shared_results:
  assumes "gmp_laws G" "wf_heap h" "lbits_at h z = Some b" "lbits_at h x = Some a"
  shows "(\<forall>v. slice G b s n = Inr v \<longrightarrow> does (un_call G (Slice s n) z z) h (put_lbits z (Some \<lparr>l_len = l_len v, l_bits = 0\<rparr>))) \<and>
    (\<forall>v. replicate_bits G b n = Inr v \<longrightarrow>
      does (un_call G (Replicate n) z z) h (put_lbits z (Some \<lparr>l_len = l_len v, l_bits = 0\<rparr>))) \<and>
    (\<forall>v. reverse_endianness G b = Inr v \<and> l_len b \<notin> {64, 32, 16, 8} \<longrightarrow>
      does (un_call G Reverse_endianness z z) h (put_lbits z (Some \<lparr>l_len = l_len b, l_bits = 0\<rparr>))) \<and>
    does (bin_call G Append z x z) h
      (put_lbits z (Some \<lparr>l_len = l_len a + l_len b, l_bits = push_bit (unat (l_len b)) (l_bits a)\<rparr>)) \<and>
    (wf_lbits b \<longrightarrow> does (bin_call G Shift_right_arith z z x) h
      (put_lbits z (Some \<lparr>l_len = l_len b, l_bits = drop_bit (unat (mpz_get_ui G (l_bits a))) (l_bits b)\<rparr>))) \<and>
    (mpz_get_ui G s = 0 \<longrightarrow> does (bin_call G (Set_slice n k s) z x z) h (put_lbits z (Some a))) \<and>
    (h_mpq h i \<noteq> None \<longrightarrow> real_power G Q (mpq_of (mpz_set_ui G 1) (mpz_set_ui G 1)) e = Inr w \<longrightarrow>
      does (exec G Q T (Real_power i i e)) h (put_real i (Some w)))"
  using gmp_laws.slice_shared [OF assms(1-3)] gmp_laws.replicate_shared [OF assms(1-3)] gmp_laws.reverse_shared [OF assms(1-3)]
    gmp_laws.append_shared [OF assms] gmp_laws.arith_shift_shared [OF assms] gmp_laws.set_slice_shared [OF assms]
    power_shared [OF assms(2)]
  by blast

theorem shared_results_witness:
  "\<exists>h. wf_heap h \<and> lbits_at h 1 = Some \<lparr>l_len = 12, l_bits = 15\<rparr> \<and>
     does (un_call gmp_ref (Slice 0 8) 1 1) h (put_lbits 1 (Some \<lparr>l_len = 8, l_bits = 0\<rparr>)) \<and>
     does (bin_call gmp_ref Append 1 0 1) h (put_lbits 1 (Some \<lparr>l_len = 16, l_bits = 0xF000\<rparr>))"
proof (rule sample_heap)
  fix h assume h: "wf_heap h" "store_of h = sample_store"
  note f = sample_fields [OF h(2)]
  have "slice gmp_ref \<lparr>l_len = 12, l_bits = 15\<rparr> 0 8 = Inr \<lparr>l_len = 8, l_bits = 15\<rparr>" by code_simp
  with shared_results [OF gmp_ref_laws h(1) f(2,1), of 0 8 0] f(2) h(1) show ?thesis by (auto simp: push_bit_eq_mult)
qed

section \<open>Programs\<close>

text \<open>
  C18. Code without loops over the library, with branches on what is read from variables, whose program on values
  is defined (variables are created before use, once, and killed at most once; a result is not an operand where
  that is not allowed) runs without touching memory it does not own: it computes the values of the
  program on values, or ends in the fault of the operation that fails there, and loses no memory.
\<close>

theorem programs_refine_values:
  assumes "library_laws G T" "wf_heap h" "exec_all_spec G Q T p (store_of h) = Some r"
  shows "case r of Inl e \<Rightarrow> exec_all G Q T p h = Inl e
    | Inr s \<Rightarrow> \<exists>h'. exec_all G Q T p h = Inr h' \<and> wf_heap h' \<and> store_of h' = s"
  using library_laws.exec_all_agrees [OF assms] by (auto simp: agrees_def does_def split: sum.splits)

theorem programs_refine_values_witness:
  "\<exists>h. wf_heap h \<and> exec_all gmp_ref gmpq_ref gmp_text_ref [Bits_un (Zero_extend 8) 0 0, Bits_bin Sub_bits 0 0 1] h = Inl Assertion_failed"
proof (rule sample_heap)
  fix h assume h: "wf_heap h" "store_of h = sample_store"
  have "exec_all_spec gmp_ref gmpq_ref gmp_text_ref [Bits_un (Zero_extend 8) 0 0, Bits_bin Sub_bits 0 0 1] (store_of h) = Some (Inl Assertion_failed)"
    unfolding h(2) by (simp add: sample_store_def un_apart_def bin_apart_def assign_defs zero_extend_def sub_bits_def)
  from programs_refine_values [OF library_ref_laws h(1) this] h(1) show ?thesis by auto
qed

text \<open>
  C19. A well scoped program, between the set-up and the clean-up of the library, gives all memory back, so that
  no block and no number is left and none was lost on the way, or stops with a failed assertion, a division by zero
  or a loop that does not return, as its operations do on values. It never has undefined behaviour. Well scoped
  (\<open>scoped\<close>) means: in every branch variables are created before use, once, and killed in the end; results
  that may not share a variable with an operand do not; replication counts lie between 0 and INT_MAX and the
  exponents of powers fit an int64_t and are not its smallest value; and the program takes no parts of strings:
  \<open>string_take\<close> is undefined for every nonempty prefix (C36), and \<open>string_drop\<close> is left out with it.
\<close>

theorem scoped_programs_run:
  assumes "library_laws G T" "scoped no_variables (Block p) no_variables"
  shows "(\<exists>h. seq [setup_temps G, exec_all G Q T p, cleanup_temps] empty_heap = Inr h \<and> no_memory h) \<or>
    (\<exists>e\<in>clean_faults. exec_all_spec G Q T p empty_store = Some (Inl e) \<and>
       seq [setup_temps G, exec_all G Q T p, cleanup_temps] empty_heap = Inl e)"
  by (rule library_laws.scoped_program_frees [OF assms])

text \<open>An integer is computed from a bitvector, printed, and decides what is done to the text.\<close>

definition shout_program :: "instr list" where
  "shout_program =
     [New_lbits (Of_fbits 0x2A 8) 0, New_int 0 3, New_int 1 0, Bits_to_int Sail_unsigned 1 0, Int_bin Mult_int 0 0 1,
      String_action (Create 0), String_action (Create 1), String_of_int 0 0,
      Get_int 0 (\<lambda>k. if k = 126 then Concat_str 1 0 0 else Block []),
      String_length 1 1, Get_int 1 (\<lambda>n. Get_slice_int 0 n 0 0),
      String_action (Kill 0), String_action (Kill 1), Int_action (Kill 0), Int_action (Kill 1), Bits_action (Kill 0)]"

lemma shout_scoped: "scoped no_variables (Block shout_program) no_variables"
  unfolding shout_program_def no_variables_def
  by (rule scoped_if scoped_Nil scoped.intros | auto)+

lemma shout_runs: "exec_all_spec gmp_ref gmpq_ref gmp_text_ref shout_program empty_store \<noteq> Some (Inl e)"
  by (simp add: shout_program_def empty_store_def assign_defs)

theorem scoped_programs_run_witness:
  "\<exists>h. seq [setup_temps gmp_ref, exec_all gmp_ref gmpq_ref gmp_text_ref shout_program, cleanup_temps] empty_heap = Inr h \<and> no_memory h"
  using scoped_programs_run [OF library_ref_laws shout_scoped] shout_runs by blast

text \<open>
  A variable of any builtin type that is not live, because it was not created yet or was killed, cannot be
  reset, killed, copied from or copied to: each of these uses memory that is not there.
\<close>

theorem dead_variables_fault:
  assumes "gmp_laws G" "wf_heap h"
    and "c \<in> {Recreate x, Kill x, Copy x y, Copy y x}"
  shows "(h_mpz h (Var x) = None \<longrightarrow> exec G Q T (Int_action c) h = Inl Undefined_behaviour) \<and>
    (h_mpq h x = None \<longrightarrow> exec G Q T (Real_action c) h = Inl Undefined_behaviour) \<and>
    (lbits_at h x = None \<longrightarrow> exec G Q T (Bits_action c) h = Inl Undefined_behaviour) \<and>
    (string_at h x = None \<longrightarrow> exec G Q T (String_action c) h = Inl Undefined_behaviour)"
  using gmp_laws.exec_dead [OF assms] by blast

theorem dead_variables_fault_witness:
  "\<exists>h. wf_heap h \<and> exec gmp_ref gmpq_ref gmp_text_ref (Bits_action (Kill 2)) h = Inl Undefined_behaviour \<and>
     exec gmp_ref gmpq_ref gmp_text_ref (String_action (Kill 2)) h = Inl Undefined_behaviour"
proof (rule sample_heap)
  fix h assume h: "wf_heap h" "store_of h = sample_store"
  note f = sample_fields [OF h(2)]
  from dead_variables_fault [OF gmp_ref_laws h(1), of "Kill 2" 2 2] f(6,9) h(1) show ?thesis by auto
qed

text \<open>
  C20. Three calls misuse memory although their operands are live: copying a string to itself and concatenating
  to one of the operands read the block that \<open>realloc\<close> has freed, and \<open>get_cycle_count\<close> loses the memory of the
  integer it writes to.
\<close>

theorem memory_misuse:
  assumes "wf_heap h" "string_at h z = Some r" "string_at h x = Some s" "string_at h y = Some t" "h_mpz h (Var i) \<noteq> None"
  shows "exec G Q T (String_action (Copy z z)) h = Inl Undefined_behaviour \<and>
    (x = z \<or> y = z \<longrightarrow> exec G Q T (Concat_str z x y) h = Inl Undefined_behaviour) \<and>
    (\<exists>h'. get_cycle_count_at G st i h = Inr h' \<and> h_leaks h' = 1)"
  using self_copy [OF assms(1,2)] concat_shared [OF assms(1-4)] cycle_count_leaks [OF assms(1,5), of G st] by auto

theorem memory_misuse_witness:
  "\<exists>h. wf_heap h \<and> exec gmp_ref gmpq_ref gmp_text_ref (Concat_str 0 1 0) h = Inl Undefined_behaviour"
proof (rule sample_heap)
  fix h assume h: "wf_heap h" "store_of h = sample_store"
  note f = sample_fields [OF h(2)]
  from memory_misuse [OF h(1) f(3,4,3), of 0 gmp_ref gmpq_ref gmp_text_ref init_rts] f(5) h(1) show ?thesis by auto
qed

end
