(* ===== verification/Spec2Isabelle.thy ===== *)
theory Spec2Isabelle
  imports Theorems_Bits Theorems_Elf Theorems_Text Theorems_Store
begin

text \<open>
  Verification of the C runtime of Sail.

  The Sail compiler translates instruction set specifications to C. The programs it generates call
  the library \<open>lib/sail.c\<close> (integers, bitvectors, strings, rationals, printing) and the runtime
  \<open>lib/rts.c\<close> (memory and tags, failures, tracing, cycle limit, command line), which loads programs
  with \<open>lib/elf.c\<close>. This development models these three files, and the two demonstration programs
  \<open>rpn.c\<close> and \<open>hello.c\<close> of \<open>aarch64/mono/demo/aarch64_no_vector\<close> that run on a generated model.

  \<^bold>\<open>Theories and sources.\<close> First the functions on values, then the same functions on memory.
    \<^item> \<open>Prelude\<close>: widths of the machine integers, the result type \<open>fault + 'a\<close> with its sequencing,
      loops with a counter, and the facts on words and lists that the other theories share.
    \<^item> \<open>Gmp\<close>: the interface of the GMP integers, and the reference instance \<open>gmp_ref\<close>.
    \<^item> \<open>Sail_Int\<close>: unit, booleans and integers of \<open>sail.c\<close>.
    \<^item> \<open>Sail_Bits\<close>, \<open>Sail_Slice\<close>, \<open>Sail_Shift\<close>: the bitvectors of \<open>sail.c\<close>. A \<open>record\<close> models each
      of the structures \<open>lbits\<close> and \<open>sbits\<close>; the result that C stores through its first argument is
      the value of the definition.
    \<^item> \<open>Bit_List\<close>: the functions of \<open>src/sail_lib.ml\<close> on lists of bits, the reference semantics of the
      builtins, with the names of the source prefixed by \<open>ml_\<close>.
    \<^item> \<open>Sail_Reverse\<close>, \<open>Bits_Refine\<close>: lemmas only; byte reversal, and that each bitvector operation
      implements its reference on lists.
    \<^item> \<open>Sail_Text\<close>: strings, parsing and printing of \<open>sail.c\<close>; the two streams are text in the state.
    \<^item> \<open>Sail_Real\<close>: the rationals of \<open>sail.c\<close>.
    \<^item> \<open>Sail_Store\<close>: the heap behind the builtin types: numbers, blocks of characters, which addresses
      are live, how often memory was lost; \<open>CREATE\<close>, \<open>RECREATE\<close>, \<open>COPY\<close> and \<open>KILL\<close> on it, the invariant
      \<open>wf_heap\<close>, and the abstraction \<open>store_of\<close> to the values of the live variables.
    \<^item> \<open>Sail_Alias\<close> (bitvectors), \<open>Sail_Numbers\<close> (integers, conversions), \<open>Sail_Strings\<close>,
      \<open>Sail_Rationals\<close>: the functions of \<open>sail.c\<close> again, statement by statement on the heap, with results
      that may be stored in an operand; a name of the source with \<open>_at\<close>. \<open>Sail_Shared\<close>: what is
      computed when that is not safe.
    \<^item> \<open>Sail_Programs\<close>: code without loops over these functions, on the heap and on values.
      \<open>Sail_Scope\<close>: which of it is well scoped.
    \<^item> \<open>Rts_Memory\<close>: the state of the runtime, the record \<open>rts\<close> with one field for each static
      variable, and the memory builtins of \<open>rts.c\<close> on its two lists of blocks.
    \<^item> \<open>Elf\<close>, \<open>Elf_Symbols\<close>: \<open>elf.c\<close>; the file is a list of bytes, a cast of an address in it to a
      structure reads the fields of a record. \<open>Elf_Image\<close>, \<open>Elf_Lookup\<close>: what loading and symbol
      lookup promise, stated on the numbers in the file, and that the code keeps it.
    \<^item> \<open>Rts\<close>: the rest of \<open>rts.c\<close>, but for the command line: \<open>Rts_Args\<close>. \<open>Rts_Commands\<close>: a command line
      as a list of commands. \<open>Rts_Boot\<close>: the machine that the files of a command line describe.
    \<^item> \<open>Rts_Run\<close>: sequences of runtime operations as a step relation, and the abstract machine.
    \<^item> \<open>Demo_Rpn\<close>: the demonstration programs.
    \<^item> \<open>Theorems_Bits\<close>, \<open>Theorems_Store\<close>, \<open>Theorems_Runtime\<close>, \<open>Theorems_Elf\<close>, \<open>Theorems_Text\<close>: the
      properties.

  \<^bold>\<open>Conventions.\<close> A fault is a value: \<open>Assertion_failed\<close>, an abort of GMP, undefined behaviour, an
  access outside of an allocation, the use of memory that was never written, a read past the data in a buffer
  (\<open>in_allocation\<close> tells which of the two it is, from the size of the buffer), a call that does not return, and the two ways to end the program, with the
  message printed last (what was printed before it is not kept). An operation that changes the
  runtime takes and returns the record \<open>rts\<close>; one that changes the heap is a function from heaps to
  faults or heaps, composed with \<open>seq\<close> and \<open>reading\<close>. Unsigned and signed machine integers are words of
  their width; signed overflow is undefined behaviour. A \<open>for\<close> loop runs a counter over a range; a
  loop that need not end is a \<open>partial_function\<close> on options, and the properties say when it ends.

  \<^bold>\<open>What is taken from elsewhere.\<close> Code that is not in the repository is a parameter, with its
  documented laws in a locale that is interpreted on a computable instance:
  \<open>gmp_laws\<close> (integers), \<open>gmp_text_laws\<close> (formatted output and parsing), \<open>library_laws\<close> (both),
  \<open>gmpq_laws\<close> (rationals, on top of the integers) and \<open>zlib_laws\<close> (decompression). Files, \<open>getopt_long\<close>,
  and the functions generated from a model for \<open>-C\<close> are the record \<open>host\<close>; the buffer sizes of
  \<open>getline\<close>, the character range of one \<open>scanf\<close> format, \<open>rand\<close> and the clock are arguments.

  \<^bold>\<open>Interfaces inside.\<close> The locale \<open>cell_store\<close> is the contract between the memory of the runtime and
  its users: total reads and writes in a well-formed state, a write changing one cell. It is
  interpreted on the bytes and on the tags; the loops over addresses are proved once in it.
  The locale \<open>builtin_type\<close> is the contract of the four macros of \<open>sail.h\<close> for a builtin type: what
  creating, resetting, copying and killing a variable do to the values, and that they fault on one that is not
  live. It is interpreted on integers, rationals, bitvectors and strings, and programs use it.

  \<^bold>\<open>What the properties show.\<close>
    \<^item> C1 to C10: each bitvector operation computes the bits of the reference semantics and fails
      where it fails. The hypotheses are those of Sail's types: lengths below \<open>2 ^ 64\<close>, indices within
      the bitvector, well-formed bits. Two limits are the code's: a shift takes its amount modulo \<open>2 ^ 64\<close>
      (C8), and an arithmetic shift is right up to the length only (C9).
    \<^item> C11 to C13: which operations keep bitvectors well-formed and under which conditions, the operations on at
      most 64 bits agree with the general ones, but for a replication by 0, conversions round-trip. C14, C15: the two divisions; two functions on integers that do not
      do what their names say.
    \<^item> C16 to C18: on the heap the calls, and programs made of them, do what their value functions say,
      or what they compute instead when the result shares its variable with an operand.
    \<^item> C19, C20: well scoped programs have no undefined behaviour and give back all memory; three calls
      that misuse memory. Well scoped programs take no parts of strings, which C36 shows to be undefined.
    \<^item> C21 to C23: memory round trip and cell-wise writes that commute; the runtime simulates an abstract
      machine of bytes, tags, sleeping, cycles and depth. C24, C25: the cycle limit holds in every run and stops
      every loop of cycles; traces are balanced.
    \<^item> C26 to C28: image files, which are read back below \<open>2 ^ 63\<close> and undefined above, the overrun of a line buffer,
      the command line does its commands in order, a raw file being the first word of its name.
    \<^item> C29 to C33: what the ELF header check accepts, what loading a file leaves in memory, a bounds check
      that wraps, safe loading of whole files, which symbol is found. The promise of loading (\<open>Elf_Image\<close>) is stated on
      the full sizes in the file; the code cuts 64-bit sizes to 32 bits, so it holds for segments below 4 GiB.
      C34: from the command line to the memory the model reads, with the limits of C26, C28 and C30.
    \<^item> C35, C36: printed bitvectors are those of the reference, except an empty one; the string builtins.
    \<^item> C37 to C39: the square root ends with the precision it promises, powers, and how decimal
      fractions are read, from strings whose length fits an \<open>int\<close>. C40: the calculator.

  \<^bold>\<open>Bounds.\<close> No loop has fuel. \<open>sqrt_loop\<close>, \<open>read_chunks\<close>, \<open>sign_fill\<close> and \<open>reverse_bytes\<close> (and the last two
  on the heap, which return when those do) are partial functions; C37, C32, C4 and C10 prove that they
  return. Reading a file needs 16 MB more than its size to fit an \<open>int\<close>, since the buffer grows by
  chunks of that size. The count of a replication in a well scoped program fits an \<open>int\<close>, and the
  exponent of a power an \<open>int64_t\<close> other than the smallest.

  \<^bold>\<open>Not modelled.\<close>
    \<^item> An allocation that fails, and \<open>malloc\<close> delivering an address again that was freed: on the
      heap every block is new, so a pointer to a freed block never becomes valid.
    \<^item> Printing, the conversions from strings, \<open>random_real\<close> and the blocks of the runtime's memory
      are modelled on values only, not on the heap.
    \<^item> \<open>USE_INT128\<close>: it has no code for the integers. The macros \<open>ELF32_ST_BIND\<close> and their like, and
      the constants of symbol types, which no function uses.
    \<^item> Prototypes and naming macros of the headers, which have no behaviour of their own.
    \<^item> Big-endian hosts: \<open>elf.c\<close> assumes a little-endian one. The promise of symbol lookup is stated for
      little-endian files.
    \<^item> The Sail compiler and interpreters (OCaml), except the part of \<open>sail_lib.ml\<close> that is the
      reference; the specifications in Sail; the libraries for other provers; generated snapshots.
\<close>

end
